(* ===== verification/Rust_Prelude.thy ===== *)
theory Rust_Prelude
  imports Main "HOL-Library.Word" "HOL-Library.Multiset" "HOL-Library.Sublist"
begin

text \<open>
  What every component of the model shares: the fixed-width types, results with errors and
  panics as values, byte strings, little- and big-endian integers, decimal text, and hash
  maps. A Rust \<open>String\<close> is an Isabelle \<open>string\<close> whose characters are its UTF-8 bytes, so
  \<open>length\<close> is Rust's \<open>len()\<close>. A \<open>Result\<close> is a sum: \<open>Inl\<close> carries a \<open>fault\<close>,
  \<open>Inr\<close> the value. A fault is an error value of the code, or a panic.
\<close>

named_theorems codec_simps \<open>equations that evaluate readers on written bytes\<close>
named_theorems frame_simps \<open>state components an operation leaves alone\<close>
named_theorems hm_simps \<open>equations of hash-map lookups\<close>

type_synonym byte = "8 word"
type_synonym u32 = "32 word"
type_synonym u64 = "64 word"
type_synonym hash32 = "byte list"

section \<open>Results\<close>

datatype 'e fault = Err 'e | Panic string

primrec rbind :: "'e + 'a \<Rightarrow> ('a \<Rightarrow> 'e + 'b) \<Rightarrow> 'e + 'b" where
  "rbind (Inl e) f = Inl e"
| "rbind (Inr x) f = f x"

text \<open>Rust's \<open>map_err\<close> changes the error value; a panic passes through.\<close>

primrec map_err :: "('e \<Rightarrow> 'f) \<Rightarrow> 'e fault + 'a \<Rightarrow> 'f fault + 'a" where
  "map_err f (Inl x) = Inl (case x of Err e \<Rightarrow> Err (f e) | Panic m \<Rightarrow> Panic m)"
| "map_err f (Inr x) = Inr x"

definition ok_or :: "'a option \<Rightarrow> 'e \<Rightarrow> 'e fault + 'a" where
  "ok_or x e = (case x of None \<Rightarrow> Inl (Err e) | Some y \<Rightarrow> Inr y)"

primrec is_ok :: "'e + 'a \<Rightarrow> bool" where
  "is_ok (Inl e) = False"
| "is_ok (Inr x) = True"

lemma rbind_eq_Inr [simp]: "rbind m f = Inr y \<longleftrightarrow> (\<exists>x. m = Inr x \<and> f x = Inr y)"
  by (cases m) auto

lemma rbind_eq_Inl: "rbind m f = Inl e \<longleftrightarrow> m = Inl e \<or> (\<exists>x. m = Inr x \<and> f x = Inl e)"
  by (cases m) auto

lemma rbind_assoc: "rbind (rbind m f) g = rbind m (\<lambda>x. rbind (f x) g)"
  by (cases m) auto

lemma rbind_cong [fundef_cong]:
  "m = m' \<Longrightarrow> (\<And>x. m' = Inr x \<Longrightarrow> f x = f' x) \<Longrightarrow> rbind m f = rbind m' f'"
  by (cases m') auto

lemma map_err_eq_Inr [simp]: "map_err f m = Inr y \<longleftrightarrow> m = Inr y"
  by (cases m) auto

lemma ok_or_eq_Inr [simp]: "ok_or x e = Inr y \<longleftrightarrow> x = Some y"
  by (cases x) (auto simp: ok_or_def)

lemma ok_or_simps [simp]: "ok_or None e = Inl (Err e)" "ok_or (Some y) e = Inr y"
  by (simp_all add: ok_or_def)

lemma is_ok_iff: "is_ok m \<longleftrightarrow> (\<exists>x. m = Inr x)"
  by (cases m) auto

section \<open>Bytes and strings\<close>

definition byte_of :: "char \<Rightarrow> byte" where
  "byte_of c = word_of_nat (of_char c)"

definition char_at :: "byte \<Rightarrow> char" where
  "char_at b = char_of (unat b)"

definition as_bytes :: "string \<Rightarrow> byte list" where
  "as_bytes s = map byte_of s"

definition of_bytes :: "byte list \<Rightarrow> string" where
  "of_bytes bs = map char_at bs"

lemma unat_byte_of: "unat (byte_of c) = of_char c"
proof -
  have "(of_char c :: nat) < 256"
    by (rule nat_of_char_less_256)
  then show ?thesis
    by (simp add: byte_of_def unat_of_nat take_bit_nat_eq_self)
qed

lemma char_at_byte_of [simp]: "char_at (byte_of c) = c"
  by (simp add: char_at_def unat_byte_of)

lemma byte_of_char_at [simp]: "byte_of (char_at b) = b"
proof -
  have "unat b < 256" using unsigned_less [of b] by simp
  then have "unat (byte_of (char_at b)) = unat b"
    by (simp add: unat_byte_of char_at_def)
  then show ?thesis by (simp only: word_unat_eq_iff)
qed

lemma of_bytes_as_bytes [simp]: "of_bytes (as_bytes s) = s"
  by (simp add: of_bytes_def as_bytes_def o_def)

lemma as_bytes_of_bytes [simp]: "as_bytes (of_bytes bs) = bs"
  by (simp add: of_bytes_def as_bytes_def o_def)

lemma length_as_bytes [simp]: "length (as_bytes s) = length s"
  by (simp add: as_bytes_def)

lemma length_of_bytes [simp]: "length (of_bytes bs) = length bs"
  by (simp add: of_bytes_def)

lemma as_bytes_inject [simp]: "as_bytes s = as_bytes t \<longleftrightarrow> s = t"
  by (metis of_bytes_as_bytes)

lemma as_bytes_append: "as_bytes (s @ t) = as_bytes s @ as_bytes t"
  by (simp add: as_bytes_def)

section \<open>Integers on the wire\<close>

text \<open>\<open>le_bytes n w\<close> is \<open>w.to_le_bytes()\<close> for an integer of \<open>n\<close> bytes; \<open>of_le\<close> reads it back.\<close>

definition le_bytes :: "nat \<Rightarrow> 'a::len word \<Rightarrow> byte list" where
  "le_bytes n w = map (\<lambda>i. ucast (drop_bit (8 * i) w)) [0..<n]"

fun of_le :: "byte list \<Rightarrow> 'a::len word" where
  "of_le [] = 0"
| "of_le (b # bs) = or (ucast b) (push_bit 8 (of_le bs))"

lemma length_le_bytes [simp]: "length (le_bytes n w) = n"
  by (simp add: le_bytes_def)

lemma bit_of_le:
  "bit (of_le bs :: 'a::len word) k \<longleftrightarrow>
     k < LENGTH('a) \<and> k div 8 < length bs \<and> bit (bs ! (k div 8)) (k mod 8)"
proof (induction bs arbitrary: k)
  case Nil
  then show ?case by simp
next
  case (Cons b bs)
  show ?case
  proof (cases "k < 8")
    case True
    then show ?thesis
      by (auto simp: bit_or_iff bit_push_bit_iff bit_ucast_iff)
  next
    case False
    then have k: "k div 8 = Suc ((k - 8) div 8)" "(k - 8) mod 8 = k mod 8"
      by (simp_all add: le_div_geq le_mod_geq)
    from False have "\<not> bit b k"
      by (auto dest: bit_imp_le_length)
    with False k show ?thesis
      by (auto simp: bit_or_iff bit_push_bit_iff bit_ucast_iff Cons.IH)
  qed
qed

lemma of_le_le_bytes [simp]:
  assumes "LENGTH('a::len) \<le> 8 * n"
  shows "of_le (le_bytes n (w :: 'a word)) = w"
proof (rule bit_word_eqI)
  fix k assume k: "k < LENGTH('a)"
  with assms have "k div 8 < n" by (simp add: less_mult_imp_div_less mult.commute)
  with k show "bit (of_le (le_bytes n w) :: 'a word) k \<longleftrightarrow> bit w k"
    by (simp add: bit_of_le le_bytes_def bit_ucast_iff bit_drop_bit_eq)
qed

definition u32_le :: "u32 \<Rightarrow> byte list" where "u32_le w = le_bytes 4 w"
definition u64_le :: "u64 \<Rightarrow> byte list" where "u64_le w = le_bytes 8 w"
definition u32_be :: "u32 \<Rightarrow> byte list" where "u32_be w = rev (le_bytes 4 w)"

definition u32_of_le :: "byte list \<Rightarrow> u32" where "u32_of_le bs = of_le bs"
definition u64_of_le :: "byte list \<Rightarrow> u64" where "u64_of_le bs = of_le bs"
definition u32_of_be :: "byte list \<Rightarrow> u32" where "u32_of_be bs = of_le (rev bs)"

lemma length_int_bytes [simp]:
  "length (u32_le a) = 4" "length (u64_le b) = 8" "length (u32_be a) = 4"
  by (simp_all add: u32_le_def u64_le_def u32_be_def)

lemma int_bytes_roundtrip [simp]:
  "u32_of_le (u32_le a) = a" "u64_of_le (u64_le b) = b" "u32_of_be (u32_be a) = a"
  by (simp_all add: u32_le_def u64_le_def u32_be_def u32_of_le_def u64_of_le_def u32_of_be_def)

lemma u64_le_inject [simp]: "u64_le a = u64_le b \<longleftrightarrow> a = b"
  by (metis int_bytes_roundtrip(2))

text \<open>A length that fits 64 bits survives the conversion to \<open>u64\<close> and back to \<open>usize\<close>.\<close>

lemma unat_of_nat_u64: "n < 2 ^ 64 \<Longrightarrow> unat (of_nat n :: u64) = n"
  by (simp add: unat_of_nat take_bit_nat_eq_self)

lemma unat_of_nat_u32: "n < 2 ^ 32 \<Longrightarrow> unat (of_nat n :: u32) = n"
  by (simp add: unat_of_nat take_bit_nat_eq_self)

lemma unat_Suc_word: "(n :: 'a::len word) \<noteq> - 1 \<Longrightarrow> unat (n + 1) = Suc (unat n)"
  by (metis add.commute add_eq_0_iff unatSuc)

lemma word_less_Suc: "(n :: 'a::len word) \<noteq> - 1 \<Longrightarrow> k < n + 1 \<longleftrightarrow> k < n \<or> k = n"
  by (auto simp: word_less_nat_alt unat_Suc_word less_Suc_eq word_unat_eq_iff)

section \<open>Decimal numbers\<close>

text \<open>\<open>show_nat\<close> is the text \<open>format!("{}", n)\<close> gives for an unsigned integer.\<close>

definition digit_char :: "nat \<Rightarrow> char" where
  "digit_char d = char_of (48 + d)"

fun show_nat :: "nat \<Rightarrow> string" where
  "show_nat n = (if n < 10 then [digit_char n] else show_nat (n div 10) @ [digit_char (n mod 10)])"

declare show_nat.simps [simp del]

definition is_digit :: "char \<Rightarrow> bool" where
  "is_digit c \<longleftrightarrow> 48 \<le> (of_char c :: nat) \<and> (of_char c :: nat) \<le> 57"

definition digit_val :: "char \<Rightarrow> nat" where
  "digit_val c = of_char c - 48"

lemma digit_char_props:
  "d < 10 \<Longrightarrow> is_digit (digit_char d)" "d < 10 \<Longrightarrow> digit_val (digit_char d) = d"
  by (simp_all add: is_digit_def digit_val_def digit_char_def)

lemma show_nat_digits: "c \<in> set (show_nat n) \<Longrightarrow> is_digit c"
  by (induction n rule: show_nat.induct)
     (subst (asm) (2) show_nat.simps, auto simp: digit_char_props split: if_splits)

lemma show_nat_nonempty [simp]: "show_nat n \<noteq> []"
  by (subst show_nat.simps) simp

text \<open>
  \<open>str::parse::<u64>()\<close>: an optional plus sign and at least one digit, rejected when the
  value does not fit.
\<close>

definition dec_val :: "string \<Rightarrow> nat" where
  "dec_val s = foldl (\<lambda>a c. 10 * a + digit_val c) 0 s"

definition parse_u64 :: "string \<Rightarrow> u64 option" where
  "parse_u64 s =
     (let ds = (case s of c # cs \<Rightarrow> if c = CHR ''+'' then cs else s | [] \<Rightarrow> s)
      in if ds \<noteq> [] \<and> list_all is_digit ds \<and> dec_val ds < 2 ^ 64
         then Some (of_nat (dec_val ds)) else None)"

lemma dec_val_show_nat [simp]: "dec_val (show_nat n) = n"
proof (induction n rule: show_nat.induct)
  case (1 n)
  then show ?case
    by (subst show_nat.simps) (auto simp: dec_val_def digit_char_props)
qed

lemma parse_u64_show [simp]: "parse_u64 (show_nat (unat n)) = Some n"
proof -
  let ?s = "show_nat (unat n)"
  have digits: "list_all is_digit ?s"
    by (auto simp: list_all_iff dest: show_nat_digits)
  obtain c cs where s: "?s = c # cs" by (cases ?s) auto
  with digits have c: "c \<noteq> CHR ''+''" by (auto simp: is_digit_def)
  have ds: "(case ?s of [] \<Rightarrow> ?s | c # cs \<Rightarrow> if c = CHR ''+'' then cs else ?s) = ?s"
    by (simp add: s c)
  have "unat n < 2 ^ 64" using unsigned_less [of n] by simp
  with digits show ?thesis
    unfolding parse_u64_def Let_def ds by simp
qed

section \<open>Searching a list\<close>

text \<open>\<open>Iterator::position\<close>\<close>

fun position :: "('a \<Rightarrow> bool) \<Rightarrow> 'a list \<Rightarrow> nat option" where
  "position p [] = None"
| "position p (x # xs) = (if p x then Some 0 else map_option Suc (position p xs))"

lemma position_None: "position p xs = None \<longleftrightarrow> (\<forall>x \<in> set xs. \<not> p x)"
  by (induction xs) auto

lemma position_Some:
  assumes "position p xs = Some i"
  shows "\<exists>us x vs. xs = us @ x # vs \<and> length us = i \<and> p x \<and> (\<forall>u \<in> set us. \<not> p u)"
  using assms
proof (induction xs arbitrary: i)
  case Nil
  then show ?case by simp
next
  case (Cons y ys)
  show ?case
  proof (cases "p y")
    case True
    with Cons.prems show ?thesis by (intro exI [of _ "[]"]) auto
  next
    case False
    with Cons.prems obtain i' where "i = Suc i'" "position p ys = Some i'" by auto
    with Cons.IH obtain us x vs where
      "ys = us @ x # vs" "length us = i'" "p x" "\<forall>u \<in> set us. \<not> p u" by blast
    with False \<open>i = Suc i'\<close> show ?thesis by (intro exI [of _ "y # us"]) auto
  qed
qed

lemma position_nth: "distinct xs \<Longrightarrow> i < length xs \<Longrightarrow> position (\<lambda>x. x = xs ! i) xs = Some i"
proof (induction xs arbitrary: i)
  case (Cons x xs)
  then show ?case by (cases i) (auto simp: in_set_conv_nth)
qed simp

section \<open>Hash maps\<close>

text \<open>
  A \<open>HashMap\<close> is an association list with distinct keys; the list's order is the map's
  iteration order. The code fixes no such order, so the step relations over hash maps let
  it change at any time and every property holds for each order.
\<close>

type_synonym ('k, 'v) hmap = "('k \<times> 'v) list"

definition hm_get :: "'k \<Rightarrow> ('k, 'v) hmap \<Rightarrow> 'v option" where
  "hm_get k m = map_of m k"

definition hm_remove :: "'k \<Rightarrow> ('k, 'v) hmap \<Rightarrow> ('k, 'v) hmap" where
  "hm_remove k m = filter (\<lambda>e. fst e \<noteq> k) m"

definition hm_insert :: "'k \<Rightarrow> 'v \<Rightarrow> ('k, 'v) hmap \<Rightarrow> ('k, 'v) hmap" where
  "hm_insert k v m = (k, v) # hm_remove k m"

text \<open>\<open>get_mut\<close> followed by an assignment: the entry stays where it is.\<close>

definition hm_modify :: "'k \<Rightarrow> ('v \<Rightarrow> 'v) \<Rightarrow> ('k, 'v) hmap \<Rightarrow> ('k, 'v) hmap" where
  "hm_modify k f m = map (\<lambda>(k', v). (k', if k' = k then f v else v)) m"

definition hm_keys :: "('k, 'v) hmap \<Rightarrow> 'k list" where
  "hm_keys m = map fst m"

definition hm_wf :: "('k, 'v) hmap \<Rightarrow> bool" where
  "hm_wf m \<longleftrightarrow> distinct (map fst m)"

lemma hm_get_Nil [hm_simps, simp]: "hm_get k [] = None"
  by (simp add: hm_get_def)

lemma hm_get_remove [hm_simps, simp]:
  "hm_get k (hm_remove k' m) = (if k = k' then None else hm_get k m)"
  by (induction m) (auto simp: hm_get_def hm_remove_def)

lemma hm_get_insert [hm_simps, simp]:
  "hm_get k (hm_insert k' v m) = (if k = k' then Some v else hm_get k m)"
  using hm_get_remove [of k k' m] by (simp add: hm_get_def hm_insert_def)

lemma hm_get_modify [hm_simps, simp]:
  "hm_get k (hm_modify k' f m) = (if k = k' then map_option f (hm_get k m) else hm_get k m)"
  by (induction m) (auto simp: hm_get_def hm_modify_def)

lemma hm_wf_Nil [simp]: "hm_wf []"
  by (simp add: hm_wf_def)

lemma fst_hm_remove: "set (map fst (hm_remove k m)) = set (map fst m) - {k}"
  by (induction m) (auto simp: hm_remove_def)

lemma hm_wf_remove [simp]: "hm_wf m \<Longrightarrow> hm_wf (hm_remove k m)"
  by (induction m) (auto simp: hm_wf_def hm_remove_def)

lemma hm_wf_insert [simp]: "hm_wf m \<Longrightarrow> hm_wf (hm_insert k v m)"
  using fst_hm_remove [of k m] hm_wf_remove [of m k] by (simp add: hm_wf_def hm_insert_def)

lemma map_fst_hm_modify [simp]: "map fst (hm_modify k f m) = map fst m"
  by (induction m) (auto simp: hm_modify_def)

lemma hm_wf_modify [simp]: "hm_wf (hm_modify k f m) = hm_wf m"
  by (simp add: hm_wf_def)

lemma hm_get_Some_iff: "hm_wf m \<Longrightarrow> hm_get k m = Some v \<longleftrightarrow> (k, v) \<in> set m"
  by (simp add: hm_wf_def hm_get_def map_of_eq_Some_iff)

lemma hm_get_None_iff: "hm_get k m = None \<longleftrightarrow> k \<notin> fst ` set m"
  by (auto simp: hm_get_def map_of_eq_None_iff)

lemma set_hm_insert: "set (hm_insert k v m) = insert (k, v) {e \<in> set m. fst e \<noteq> k}"
  by (auto simp: hm_insert_def hm_remove_def)

lemma set_hm_remove: "set (hm_remove k m) = {e \<in> set m. fst e \<noteq> k}"
  by (auto simp: hm_remove_def)

lemma set_hm_modify:
  "set (hm_modify k f m) = (\<lambda>(k', v). (k', if k' = k then f v else v)) ` set m"
  by (simp add: hm_modify_def)

lemma set_hm_keys [simp]: "set (hm_keys m) = fst ` set m"
  by (simp add: hm_keys_def)

lemma keys_hm_insert [simp]: "fst ` set (hm_insert k v m) = insert k (fst ` set m)"
  by (auto simp: set_hm_insert image_iff)

lemma keys_hm_remove [simp]: "fst ` set (hm_remove k m) = fst ` set m - {k}"
  using fst_hm_remove [of k m] by simp

lemma keys_hm_modify [simp]: "fst ` set (hm_modify k f m) = fst ` set m"
  by (metis list.set_map map_fst_hm_modify)

lemma hm_remove_absent: "k \<notin> fst ` set m \<Longrightarrow> hm_remove k m = m"
  by (auto simp: hm_remove_def filter_id_conv)

lemma hm_get_SomeD: "hm_get k m = Some v \<Longrightarrow> (k, v) \<in> set m"
  by (simp add: hm_get_def map_of_SomeD)

lemma hm_get_key: "hm_get k m = Some v \<Longrightarrow> k \<in> fst ` set m"
  by (force dest: hm_get_SomeD)

text \<open>The lookup does not depend on the iteration order.\<close>

lemma hm_get_perm: "mset m = mset m' \<Longrightarrow> hm_wf m \<Longrightarrow> hm_get k m = hm_get k m'"
  unfolding hm_wf_def hm_get_def
  by (metis (no_types, lifting) map_of_inject_set mset_eq_setD mset_eq_imp_distinct_iff mset_map)

lemma hm_wf_perm: "mset m = mset m' \<Longrightarrow> hm_wf m = hm_wf m'"
  unfolding hm_wf_def by (metis mset_eq_imp_distinct_iff mset_map)

end
