(* ===== verification/Rust_Strings.thy ===== *)
theory Rust_Strings
  imports Rust_Prelude
begin

text \<open>
  The parts of Rust's \<open>str\<close> the program uses, on the UTF-8 bytes of a string: prefixes and
  splits, the Unicode white space of \<open>trim\<close> and \<open>split_whitespace\<close>, \<open>lines\<close>, and the
  validity check of \<open>String::from_utf8\<close>. Continuation bytes of UTF-8 are never lead bytes or
  ASCII, so scanning a valid string byte by byte finds exactly its white-space characters.
\<close>

section \<open>Prefixes, substrings and splits\<close>

definition strip_prefix :: "string \<Rightarrow> string \<Rightarrow> string option" where
  "strip_prefix p s = (if prefix p s then Some (drop (length p) s) else None)"

definition starts_with :: "string \<Rightarrow> string \<Rightarrow> bool" where
  "starts_with s p = prefix p s"

definition ends_with :: "string \<Rightarrow> string \<Rightarrow> bool" where
  "ends_with s p = suffix p s"

fun contains :: "string \<Rightarrow> string \<Rightarrow> bool" where
  "contains [] p = (p = [])"
| "contains (c # cs) p = (prefix p (c # cs) \<or> contains cs p)"

definition before_char :: "char \<Rightarrow> string \<Rightarrow> string" where
  \<comment> \<open>\<open>s.split(c).next()\<close>\<close>
  "before_char c s = takeWhile (\<lambda>x. x \<noteq> c) s"

definition split_once :: "char \<Rightarrow> string \<Rightarrow> (string \<times> string) option" where
  "split_once c s =
     (if c \<in> set s
      then Some (takeWhile (\<lambda>x. x \<noteq> c) s, tl (dropWhile (\<lambda>x. x \<noteq> c) s)) else None)"

fun join :: "string \<Rightarrow> string list \<Rightarrow> string" where
  "join sep [] = []"
| "join sep [w] = w"
| "join sep (w # ws) = w @ sep @ join sep ws"

lemma strip_prefix_append [simp]: "strip_prefix p (p @ s) = Some s"
  by (simp add: strip_prefix_def)

lemma strip_prefix_Some_iff: "strip_prefix p s = Some r \<longleftrightarrow> s = p @ r"
  by (auto simp: strip_prefix_def prefix_def)

lemma contains_iff: "contains s p \<longleftrightarrow> (\<exists>a b. s = a @ p @ b)"
proof (induction s)
  case Nil
  then show ?case by simp
next
  case (Cons c cs)
  have "contains (c # cs) p \<longleftrightarrow> (\<exists>b. c # cs = p @ b) \<or> (\<exists>a b. cs = a @ p @ b)"
    by (simp add: prefix_def Cons.IH)
  also have "\<dots> \<longleftrightarrow> (\<exists>a b. c # cs = a @ p @ b)"
    by (metis append_Cons append_Nil list.exhaust list.inject)
  finally show ?case .
qed

lemma contains_middle [simp]: "contains (a @ p @ b) p"
  by (auto simp: contains_iff)

lemma split_once_append [simp]: "c \<notin> set s \<Longrightarrow> split_once c (s @ c # t) = Some (s, t)"
  by (simp add: split_once_def takeWhile_append2 dropWhile_append2)
     (metis (mono_tags, lifting) append.right_neutral append_Cons dropWhile.simps(2)
       dropWhile_append2 list.sel(3) takeWhile.simps(2) takeWhile_append2)

lemma before_char_append [simp]: "c \<notin> set s \<Longrightarrow> before_char c (s @ c # t) = s"
  by (auto simp: before_char_def takeWhile_tail)

lemma before_char_no: "c \<notin> set (before_char c s)"
  by (auto simp: before_char_def dest: set_takeWhileD)

section \<open>White space\<close>

definition ws1 :: "char \<Rightarrow> bool" where
  "ws1 a \<longleftrightarrow> (of_char a :: nat) \<in> {9, 10, 11, 12, 13, 32}"

definition ws2 :: "char \<Rightarrow> char \<Rightarrow> bool" where
  "ws2 a b \<longleftrightarrow> (of_char a :: nat) = 0xC2 \<and> (of_char b :: nat) \<in> {0x85, 0xA0}"

definition ws3 :: "char \<Rightarrow> char \<Rightarrow> char \<Rightarrow> bool" where
  "ws3 a b c \<longleftrightarrow>
     (let x = of_char a; y = of_char b; z = (of_char c :: nat) in
       (x = 0xE1 \<and> y = (0x9A :: nat) \<and> z = 0x80)
     \<or> (x = (0xE2 :: nat) \<and> y = 0x80 \<and> (0x80 \<le> z \<and> z \<le> 0x8A \<or> z \<in> {0xA8, 0xA9, 0xAF}))
     \<or> (x = 0xE2 \<and> y = 0x81 \<and> z = 0x9F)
     \<or> (x = 0xE3 \<and> y = 0x80 \<and> z = 0x80))"

text \<open>The length in bytes of the white-space character a string starts with, 0 if none.\<close>

definition ws_len :: "string \<Rightarrow> nat" where
  "ws_len s = (case s of [] \<Rightarrow> 0 | a # r \<Rightarrow>
     if ws1 a then 1 else (case r of [] \<Rightarrow> 0 | b # r' \<Rightarrow>
       if ws2 a b then 2 else (case r' of [] \<Rightarrow> 0 | c # _ \<Rightarrow> if ws3 a b c then 3 else 0)))"

lemma ws_len_Nil [simp]: "ws_len [] = 0"
  by (simp add: ws_len_def)

lemma ws_len_space [simp]: "ws_len (CHR '' '' # s) = 1"
  by (simp add: ws_len_def ws1_def)

function trim_start :: "string \<Rightarrow> string" where
  "trim_start s = (if ws_len s = 0 then s else trim_start (drop (ws_len s) s))"
  by pat_completeness auto
termination
  by (relation "measure length") (auto simp: ws_len_def split: list.splits)

declare trim_start.simps [simp del]

fun trim_end :: "string \<Rightarrow> string" where
  "trim_end [] = []"
| "trim_end (c # cs) = (if trim_start (c # cs) = [] then [] else c # trim_end cs)"

definition trim :: "string \<Rightarrow> string" where
  "trim s = trim_end (trim_start s)"

function split_ws_from :: "string \<Rightarrow> string \<Rightarrow> string list" where
  "split_ws_from cur [] = (if cur = [] then [] else [cur])"
| "split_ws_from cur (c # cs) =
     (if ws_len (c # cs) = 0 then split_ws_from (cur @ [c]) cs
      else (if cur = [] then [] else [cur]) @ split_ws_from [] (drop (ws_len (c # cs) - 1) cs))"
  by pat_completeness auto
termination
  by (relation "measure (\<lambda>(cur, s). length s)") auto

definition split_whitespace :: "string \<Rightarrow> string list" where
  "split_whitespace s = split_ws_from [] s"

text \<open>Strings without white space.\<close>

fun no_ws :: "string \<Rightarrow> bool" where
  "no_ws [] = True"
| "no_ws (c # cs) = (ws_len (c # cs) = 0 \<and> no_ws cs)"

text \<open>
  An ASCII byte ends every white-space character before it: appending text that starts with
  one does not change what a non-empty string starts with.
\<close>

lemma ws_len_append_ascii:
  assumes "(of_char d :: nat) < 128"
  shows "ws_len ((c # cs) @ d # r) = ws_len (c # cs)"
  using assms
  by (cases cs; cases "tl cs") (auto simp: ws_len_def ws2_def ws3_def Let_def split: list.splits)

lemma split_ws_from_word:
  assumes "no_ws w" and "(of_char d :: nat) < 128"
  shows "split_ws_from cur (w @ d # r) = split_ws_from (cur @ w) (d # r)"
  using assms(1)
proof (induction w arbitrary: cur)
  case Nil
  then show ?case by simp
next
  case (Cons c cs)
  then have "ws_len ((c # cs) @ d # r) = 0"
    using ws_len_append_ascii [OF assms(2), of c cs r] by simp
  with Cons show ?case by simp
qed

lemma split_ws_from_last: "no_ws w \<Longrightarrow> split_ws_from cur w = (if cur @ w = [] then [] else [cur @ w])"
  by (induction w arbitrary: cur) auto

lemma split_whitespace_join [simp]:
  assumes "\<forall>w \<in> set ws. w \<noteq> [] \<and> no_ws w"
  shows "split_whitespace (join '' '' ws) = ws"
  using assms unfolding split_whitespace_def
proof (induction ws rule: induct_list012)
  case 1
  then show ?case by simp
next
  case (2 w)
  then show ?case by (simp add: split_ws_from_last)
next
  case (3 w v vs)
  have sp: "(of_char (CHR '' '') :: nat) < 128" by simp
  from 3 show ?case
    using split_ws_from_word [OF _ sp, of w "[]" "join '' '' (v # vs)"] by simp
qed

lemma split_ws_words:
  "w \<in> set (split_ws_from cur s) \<Longrightarrow> w \<noteq> []"
  by (induction cur s rule: split_ws_from.induct) (auto split: if_splits)

text \<open>Text that starts and ends with visible ASCII is its own \<open>trim\<close>.\<close>

lemma trim_start_id: "ws_len s = 0 \<Longrightarrow> trim_start s = s"
  by (subst trim_start.simps) simp

lemma trim_end_id:
  assumes "(of_char d :: nat) < 128" and "\<not> ws1 d"
  shows "trim_end (s @ [d]) = s @ [d]"
proof (induction s)
  case Nil
  from assms show ?case by (simp add: trim_start_id ws_len_def)
next
  case (Cons c cs)
  have "trim_start t \<noteq> []" if "t = u @ [d]" for t u
    using that
  proof (induction t arbitrary: u rule: trim_start.induct)
    case (1 t)
    show ?case
    proof (cases "ws_len t = 0")
      case True
      with "1.prems" show ?thesis by (simp add: trim_start_id)
    next
      case False
      from "1.prems" False have "ws_len t \<le> length u"
        using assms ws_len_append_ascii [of d "hd u" "tl u" "[]"]
        by (cases u) (auto simp: ws_len_def split: list.splits if_splits)
      with "1.prems" have "drop (ws_len t) t = drop (ws_len t) u @ [d]" by simp
      with "1.IH" [OF False] have "trim_start (drop (ws_len t) t) \<noteq> []" by blast
      with False show ?thesis by (subst trim_start.simps) simp
    qed
  qed
  then have "trim_start ((c # cs) @ [d]) \<noteq> []" by blast
  with Cons show ?case by simp
qed

section \<open>Lines\<close>

definition strip_cr :: "string \<Rightarrow> string" where
  "strip_cr s = (if s \<noteq> [] \<and> last s = CHR 0x0D then butlast s else s)"

fun lines_from :: "string \<Rightarrow> string \<Rightarrow> string list" where
  "lines_from cur [] = (if cur = [] then [] else [cur])"
| "lines_from cur (c # cs) =
     (if c = CHR 0x0A then strip_cr cur # lines_from [] cs else lines_from (cur @ [c]) cs)"

definition lines :: "string \<Rightarrow> string list" where
  "lines s = lines_from [] s"

lemma lines_from_line:
  "CHR 0x0A \<notin> set l \<Longrightarrow> lines_from cur (l @ CHR 0x0A # r) = strip_cr (cur @ l) # lines_from [] r"
  by (induction l arbitrary: cur) auto

lemma lines_cons [simp]:
  "CHR 0x0A \<notin> set l \<Longrightarrow> lines (l @ CHR 0x0A # r) = strip_cr l # lines r"
  by (simp add: lines_def lines_from_line)

text \<open>Text that \<open>trim\<close> and \<open>lines\<close> leave alone: it starts and ends with visible ASCII.\<close>

definition visible :: "char \<Rightarrow> bool" where
  "visible c \<longleftrightarrow> 33 \<le> (of_char c :: nat) \<and> (of_char c :: nat) \<le> 126"

definition tidy :: "string \<Rightarrow> bool" where
  "tidy v \<longleftrightarrow> v \<noteq> [] \<and> visible (hd v) \<and> visible (last v) \<and> CHR 0x0A \<notin> set v"

lemma visible_ws: "visible c \<Longrightarrow> ws_len (c # s) = 0"
  by (auto simp: visible_def ws_len_def ws1_def ws2_def ws3_def Let_def split: list.splits)

lemma no_ws_visible: "list_all visible w \<Longrightarrow> no_ws w"
  by (induction w) (auto simp: visible_ws)

lemma trim_tidy: "tidy v \<Longrightarrow> trim v = v"
proof -
  assume v: "tidy v"
  then obtain c cs where "v = c # cs" "visible c" by (cases v) (auto simp: tidy_def)
  then have "trim_start v = v" by (simp add: trim_start_id visible_ws)
  moreover from v obtain u d where "v = u @ [d]" "visible d"
    by (metis append_butlast_last_id tidy_def)
  then have "trim_end v = v"
    using trim_end_id [of d u] by (auto simp: visible_def ws1_def)
  ultimately show ?thesis by (simp add: trim_def)
qed

lemma trim_start_step: "ws_len s \<noteq> 0 \<Longrightarrow> trim_start s = trim_start (drop (ws_len s) s)"
  by (subst trim_start.simps) simp

lemma trim_space: "trim (CHR '' '' # s) = trim s"
  unfolding trim_def by (subst trim_start.simps) simp

lemma trim_Nil [simp]: "trim [] = []"
  by (simp add: trim_def trim_start_id)

lemma trim_visible_end: "v \<noteq> [] \<Longrightarrow> visible (hd v) \<Longrightarrow> visible (last v) \<Longrightarrow> CHR 0x0A \<notin> set v \<Longrightarrow> trim v = v"
  by (rule trim_tidy) (simp add: tidy_def)

lemma trim_end_space: "trim_end (v @ CHR '' '' # []) = trim_end v"
proof (induction v)
  case Nil
  have "trim_start [CHR '' ''] = []" by (subst trim_start.simps) (simp add: trim_start_id)
  then show ?case by simp
next
  case (Cons c cs)
  have "trim_start (t @ [CHR '' '']) = [] \<longleftrightarrow> trim_start t = []" for t
  proof (induction t rule: trim_start.induct)
    case (1 t)
    have sp: "trim_start [CHR '' ''] = []" by (subst trim_start.simps) (simp add: trim_start_id)
    show ?case
    proof (cases t)
      case Nil
      then show ?thesis by (simp add: sp trim_start_id)
    next
      case (Cons a u)
      have eq: "ws_len (t @ [CHR '' '']) = ws_len t"
        using ws_len_append_ascii [of "CHR '' ''" a u "[]"] Cons by simp
      show ?thesis
      proof (cases "ws_len t = 0")
        case True
        then show ?thesis using eq Cons by (simp add: trim_start_id)
      next
        case False
        have "ws_len t \<le> length t" by (auto simp: ws_len_def split: list.splits)
        then have "drop (ws_len t) (t @ [CHR '' '']) = drop (ws_len t) t @ [CHR '' '']" by simp
        with "1.IH" [OF False] False eq trim_start_step [of t] trim_start_step [of "t @ [CHR '' '']"]
        show ?thesis by simp
      qed
    qed
  qed
  from this [of "c # cs"] Cons show ?case by simp
qed

lemma strip_cr_visible: "v = [] \<or> visible (last v) \<Longrightarrow> strip_cr v = v"
  by (auto simp: strip_cr_def visible_def)

lemma lines_concat:
  assumes "\<forall>l \<in> set ls. CHR 0x0A \<notin> set l"
  shows "lines (concat (map (\<lambda>l. l @ [CHR 0x0A]) ls)) = map strip_cr ls"
  using assms by (induction ls) (simp_all add: lines_def lines_from_line)

section \<open>UTF-8\<close>

definition cont :: "byte \<Rightarrow> bool" where
  "cont b \<longleftrightarrow> 0x80 \<le> b \<and> b \<le> 0xBF"

text \<open>The byte sequences \<open>String::from_utf8\<close> accepts (Unicode table 3-7).\<close>

fun valid_utf8 :: "byte list \<Rightarrow> bool" where
  "valid_utf8 [] = True"
| "valid_utf8 (a # r) =
     (if a < 0x80 then valid_utf8 r
      else if 0xC2 \<le> a \<and> a \<le> 0xDF
        then (case r of b # r' \<Rightarrow> cont b \<and> valid_utf8 r' | _ \<Rightarrow> False)
      else if 0xE0 \<le> a \<and> a \<le> 0xEF
        then (case r of b # c # r' \<Rightarrow>
               cont b \<and> cont c \<and> (a = 0xE0 \<longrightarrow> 0xA0 \<le> b) \<and> (a = 0xED \<longrightarrow> b \<le> 0x9F) \<and> valid_utf8 r'
             | _ \<Rightarrow> False)
      else if 0xF0 \<le> a \<and> a \<le> 0xF4
        then (case r of b # c # d # r' \<Rightarrow>
               cont b \<and> cont c \<and> cont d \<and> (a = 0xF0 \<longrightarrow> 0x90 \<le> b) \<and> (a = 0xF4 \<longrightarrow> b \<le> 0x8F)
               \<and> valid_utf8 r'
             | _ \<Rightarrow> False)
      else False)"

text \<open>A Rust string: a string whose bytes are valid UTF-8.\<close>

definition is_str :: "string \<Rightarrow> bool" where
  "is_str s \<longleftrightarrow> valid_utf8 (as_bytes s)"

text \<open>The code points of a valid string, which \<open>chars()\<close> yields.\<close>

fun code_points :: "byte list \<Rightarrow> nat list" where
  "code_points [] = []"
| "code_points (a # r) =
     (if a < 0x80 then unat a # code_points r
      else if a < 0xE0
        then (case r of b # r' \<Rightarrow> ((unat a mod 32) * 64 + (unat b mod 64)) # code_points r' | _ \<Rightarrow> [])
      else if a < 0xF0
        then (case r of b # c # r' \<Rightarrow>
               (((unat a mod 16) * 64 + (unat b mod 64)) * 64 + (unat c mod 64)) # code_points r' | _ \<Rightarrow> [])
      else (case r of b # c # d # r' \<Rightarrow>
             ((((unat a mod 8) * 64 + (unat b mod 64)) * 64 + (unat c mod 64)) * 64
               + (unat d mod 64)) # code_points r' | _ \<Rightarrow> []))"

definition chars :: "string \<Rightarrow> nat list" where
  "chars s = code_points (as_bytes s)"

definition is_ascii :: "string \<Rightarrow> bool" where
  "is_ascii s \<longleftrightarrow> list_all (\<lambda>c. (of_char c :: nat) < 128) s"

lemma byte_of_less_128: "byte_of c < 128 \<longleftrightarrow> (of_char c :: nat) < 128"
  by (simp add: word_less_nat_alt unat_byte_of)

lemma chars_ascii: "is_ascii s \<Longrightarrow> chars s = map of_char s"
  by (induction s) (auto simp: is_ascii_def chars_def as_bytes_def byte_of_less_128 unat_byte_of)

lemma is_str_ascii [simp]: "is_ascii s \<Longrightarrow> is_str s"
  by (induction s) (auto simp: is_ascii_def is_str_def as_bytes_def byte_of_less_128)

definition from_utf8 :: "byte list \<Rightarrow> string option" where
  "from_utf8 bs = (if valid_utf8 bs then Some (of_bytes bs) else None)"

lemma from_utf8_as_bytes [simp]: "is_str s \<Longrightarrow> from_utf8 (as_bytes s) = Some s"
  by (simp add: from_utf8_def is_str_def)

lemma from_utf8_Some: "from_utf8 bs = Some s \<longleftrightarrow> is_str s \<and> bs = as_bytes s"
  by (auto simp: from_utf8_def is_str_def)

end
