(* ===== verification/Errors.thy ===== *)
theory Errors
  imports Rust_Strings
begin

text \<open>
  The error type of \<open>error.rs\<close>. The payloads that other crates define (\<open>rusqlite::Error\<close>,
  \<open>anyhow::Error\<close>, \<open>std::io::Error\<close>) are their display text, an I/O error also its kind,
  which the retry classification reads. A \<open>Result\<close> of the code is a \<open>result\<close>.
\<close>

datatype io_kind =
  ConnectionReset | ConnectionAborted | TimedOut | Interrupted | WouldBlock
| UnexpectedEof | OtherKind

datatype error =
  Database string
| Io io_kind string
| Iroh string
| HashNotFound string
| StorePathNotFound string
| InvalidStorePath string
| Nar string
| Protocol string
| Signing string
| Gossip string
| Connection string
| Build string
| Timeout string
| Remote string
| JobNotFound u64
| InvalidBuilder u64
| Internal string
| HttpCache string

type_synonym 'a result = "error fault + 'a"

abbreviation throw :: "error \<Rightarrow> 'a result" where
  "throw e \<equiv> Inl (Err e)"

abbreviation panic :: "string \<Rightarrow> 'a result" where
  "panic m \<equiv> Inl (Panic m)"

text \<open>The display text each variant's \<open>#[error]\<close> attribute gives.\<close>

fun error_to_string :: "error \<Rightarrow> string" where
  "error_to_string (Database m) = ''database error: '' @ m"
| "error_to_string (Io k m) = ''io error: '' @ m"
| "error_to_string (Iroh m) = ''iroh error: '' @ m"
| "error_to_string (HashNotFound m) = ''hash not found: '' @ m"
| "error_to_string (StorePathNotFound m) = ''store path not found: '' @ m"
| "error_to_string (InvalidStorePath m) = ''invalid store path: '' @ m"
| "error_to_string (Nar m) = ''NAR error: '' @ m"
| "error_to_string (Protocol m) = ''protocol error: '' @ m"
| "error_to_string (Signing m) = ''signing error: '' @ m"
| "error_to_string (Gossip m) = ''gossip error: '' @ m"
| "error_to_string (Connection m) = ''connection failed: '' @ m"
| "error_to_string (Build m) = ''build failed: '' @ m"
| "error_to_string (Timeout m) = ''operation timed out: '' @ m"
| "error_to_string (Remote m) = ''remote error: '' @ m"
| "error_to_string (JobNotFound n) = ''job not found: '' @ show_nat (unat n)"
| "error_to_string (InvalidBuilder n) = ''invalid builder for job '' @ show_nat (unat n)"
| "error_to_string (Internal m) = ''internal error: '' @ m"
| "error_to_string (HttpCache m) = ''http cache error: '' @ m"

fun suggestion :: "error \<Rightarrow> string option" where
  "suggestion (Gossip m) = Some ''Ensure --network flag is set to enable gossip discovery''"
| "suggestion (Connection m) = Some ''Check that the peer is online and the endpoint ID is correct''"
| "suggestion (HashNotFound m) =
     Some ''Use 'iroh-nix query <hash>' to find providers, or 'iroh-nix add' to cache locally''"
| "suggestion (StorePathNotFound m) =
     Some ''Run 'nix-store --realise <path>' to ensure the path exists locally''"
| "suggestion (InvalidStorePath m) = Some ''Store paths should match /nix/store/<hash>-<name>''"
| "suggestion (Timeout m) = Some ''Try increasing timeout or check network connectivity''"
| "suggestion (Database m) = Some ''Try removing the data directory and restarting the daemon''"
| "suggestion (Build m) = Some ''Check 'nix log <drv>' for detailed build output''"
| "suggestion (HttpCache m) = Some ''Check substituter URLs and network connectivity''"
| "suggestion _ = None"

fun is_transient :: "error \<Rightarrow> bool" where
  "is_transient (Connection _) = True"
| "is_transient (Timeout _) = True"
| "is_transient (Remote _) = True"
| "is_transient (HttpCache _) = True"
| "is_transient _ = False"

definition newline :: string where
  "newline = [CHR 0x0A]"

definition display_with_suggestion :: "error \<Rightarrow> string" where
  "display_with_suggestion e =
     (case suggestion e of None \<Rightarrow> error_to_string e
      | Some h \<Rightarrow> error_to_string e @ newline @ ''    Hint: '' @ h)"

text \<open>
  \<open>MutexExt::lock_or_err\<close>: a mutex is its content and whether a thread has panicked while
  holding it.
\<close>

definition lock_or_err :: "bool \<Rightarrow> 'a \<Rightarrow> 'a result" where
  "lock_or_err poisoned x = (if poisoned then throw (Internal ''mutex poisoned'') else Inr x)"

lemma lock_or_err_simps [simp]:
  "lock_or_err False x = Inr x"
  "lock_or_err True x = throw (Internal ''mutex poisoned'')"
  by (simp_all add: lock_or_err_def)

lemma display_with_suggestion_prefix: "prefix (error_to_string e) (display_with_suggestion e)"
  by (auto simp: display_with_suggestion_def prefix_def split: option.split)

end
