(* ===== verification/Hash_Index.thy ===== *)
theory Hash_Index
  imports Errors
begin

text \<open>
  The hash index of \<open>hash_index.rs\<close>: one SQLite table with three unique columns. A table is the
  list of its rows in rowid order; \<open>INSERT OR REPLACE\<close> deletes every row that agrees with the
  new one in a unique column and appends the new row. The argument \<open>sql\<close> is the error SQLite
  reports for a call, if any. The locale \<open>entry_store\<close> is what users of the index rely on.
\<close>

section \<open>Entries and rows\<close>

record hash_entry =
  he_blake3 :: hash32
  he_sha256 :: hash32
  he_store_path :: string
  he_nar_size :: u64
  he_references :: "string list"
  he_deriver :: "string option"

record index_row =
  ir_blake3 :: "byte list"
  ir_sha256 :: "byte list"
  ir_store_path :: string
  ir_nar_size :: int
  ir_store_hash :: "string option"
  ir_references :: string
  ir_deriver :: "string option"

type_synonym index_table = "index_row list"

definition store_prefix :: string where
  "store_prefix = ''/nix/store/''"

definition blake3_from_slice :: "byte list \<Rightarrow> hash32 result" where
  "blake3_from_slice bs = (if length bs = 32 then Inr bs else throw (Protocol ''invalid blake3 hash length''))"

definition sha256_from_slice :: "byte list \<Rightarrow> hash32 result" where
  "sha256_from_slice bs = (if length bs = 32 then Inr bs else throw (Protocol ''invalid sha256 hash length''))"

definition store_path_basename :: "string \<Rightarrow> string option" where
  "store_path_basename path = strip_prefix store_prefix path"

definition references_to_basenames :: "string list \<Rightarrow> string list" where
  "references_to_basenames refs = List.map_filter store_path_basename refs"

definition basenames_to_references :: "string \<Rightarrow> string list" where
  "basenames_to_references s = map (\<lambda>w. store_prefix @ w) (filter (\<lambda>w. w \<noteq> []) (split_whitespace s))"

definition extract_store_hash :: "string \<Rightarrow> string option" where
  "extract_store_hash path = map_option (before_char CHR ''-'') (strip_prefix store_prefix path)"

text \<open>\<open>as i64\<close> and \<open>as u64\<close> keep the bits.\<close>

definition row_of_entry :: "hash_entry \<Rightarrow> index_row" where
  "row_of_entry e = \<lparr>ir_blake3 = he_blake3 e, ir_sha256 = he_sha256 e, ir_store_path = he_store_path e,
     ir_nar_size = sint (he_nar_size e), ir_store_hash = extract_store_hash (he_store_path e),
     ir_references = join '' '' (references_to_basenames (he_references e)),
     ir_deriver = Option.bind (he_deriver e) store_path_basename\<rparr>"

definition tuple_to_entry :: "index_row \<Rightarrow> hash_entry result" where
  "tuple_to_entry r =
     rbind (blake3_from_slice (ir_blake3 r)) (\<lambda>b3.
     rbind (sha256_from_slice (ir_sha256 r)) (\<lambda>sha.
     Inr \<lparr>he_blake3 = b3, he_sha256 = sha, he_store_path = ir_store_path r,
          he_nar_size = word_of_int (ir_nar_size r),
          he_references = basenames_to_references (ir_references r),
          he_deriver = map_option (\<lambda>d. store_prefix @ d) (ir_deriver r)\<rparr>))"

definition optional_tuple_to_entry :: "index_row option \<Rightarrow> hash_entry option result" where
  "optional_tuple_to_entry x = (case x of
     Some r \<Rightarrow> rbind (tuple_to_entry r) (\<lambda>e. Inr (Some e))
   | None \<Rightarrow> Inr None)"

section \<open>Operations\<close>

definition with_sql :: "string option \<Rightarrow> 'a result \<Rightarrow> 'a result" where
  "with_sql sql x = (case sql of Some e \<Rightarrow> throw (Database e) | None \<Rightarrow> x)"

definition conflicts :: "index_row \<Rightarrow> index_row \<Rightarrow> bool" where
  "conflicts new r \<longleftrightarrow> ir_blake3 r = ir_blake3 new \<or> ir_sha256 r = ir_sha256 new \<or>
     ir_store_path r = ir_store_path new"

definition insert_row :: "index_row \<Rightarrow> index_table \<Rightarrow> index_table" where
  "insert_row new t = filter (\<lambda>r. \<not> conflicts new r) t @ [new]"

definition index_insert :: "string option \<Rightarrow> hash_entry \<Rightarrow> index_table \<Rightarrow> unit result \<times> index_table" where
  "index_insert sql e t = (case sql of
     Some err \<Rightarrow> (throw (Database err), t)
   | None \<Rightarrow> (Inr (), insert_row (row_of_entry e) t))"

definition get_by_blake3 :: "string option \<Rightarrow> hash32 \<Rightarrow> index_table \<Rightarrow> hash_entry option result" where
  "get_by_blake3 sql h t = with_sql sql (optional_tuple_to_entry (find (\<lambda>r. ir_blake3 r = h) t))"

definition get_by_sha256 :: "string option \<Rightarrow> hash32 \<Rightarrow> index_table \<Rightarrow> hash_entry option result" where
  "get_by_sha256 sql h t = with_sql sql (optional_tuple_to_entry (find (\<lambda>r. ir_sha256 r = h) t))"

definition get_by_store_path :: "string option \<Rightarrow> string \<Rightarrow> index_table \<Rightarrow> hash_entry option result" where
  "get_by_store_path sql p t = with_sql sql (optional_tuple_to_entry (find (\<lambda>r. ir_store_path r = p) t))"

definition get_by_store_hash :: "string option \<Rightarrow> string \<Rightarrow> index_table \<Rightarrow> hash_entry option result" where
  "get_by_store_hash sql h t = with_sql sql (optional_tuple_to_entry (find (\<lambda>r. ir_store_hash r = Some h) t))"

definition delete_by_blake3 :: "string option \<Rightarrow> hash32 \<Rightarrow> index_table \<Rightarrow> bool result \<times> index_table" where
  "delete_by_blake3 sql h t = (case sql of
     Some err \<Rightarrow> (throw (Database err), t)
   | None \<Rightarrow> (Inr (list_ex (\<lambda>r. ir_blake3 r = h) t), filter (\<lambda>r. ir_blake3 r \<noteq> h) t))"

fun entries_of :: "index_table \<Rightarrow> hash_entry list result" where
  "entries_of [] = Inr []"
| "entries_of (r # t) = rbind (tuple_to_entry r) (\<lambda>e. rbind (entries_of t) (\<lambda>es. Inr (e # es)))"

definition list_all_entries :: "string option \<Rightarrow> index_table \<Rightarrow> hash_entry list result" where
  "list_all_entries sql t = with_sql sql (entries_of t)"

definition index_count :: "string option \<Rightarrow> index_table \<Rightarrow> u64 result" where
  "index_count sql t = with_sql sql (Inr (of_nat (length t)))"

section \<open>The schema and its migration\<close>

text \<open>
  A database file: which of the later columns its table has, and the rows. In a table without
  a column the row's field is not stored and reads as NULL or the default.
\<close>

record index_db =
  db_has_store_hash :: bool
  db_has_references :: bool
  db_rows :: index_table

definition backfill :: "index_row \<Rightarrow> index_row" where
  "backfill r = (if ir_store_hash r = None
     then (case extract_store_hash (ir_store_path r) of
             Some h \<Rightarrow> r\<lparr>ir_store_hash := Some h\<rparr> | None \<Rightarrow> r)
     else r)"

definition migrate :: "index_db \<Rightarrow> index_db" where
  "migrate db =
     (let db1 = (if db_has_store_hash db then db
                 else db\<lparr>db_has_store_hash := True,
                         db_rows := map (\<lambda>r. backfill (r\<lparr>ir_store_hash := None\<rparr>)) (db_rows db)\<rparr>)
      in if db_has_references db1 then db1
         else db1\<lparr>db_has_references := True,
                  db_rows := map (\<lambda>r. r\<lparr>ir_references := [], ir_deriver := None\<rparr>) (db_rows db1)\<rparr>)"

text \<open>\<open>CREATE TABLE IF NOT EXISTS\<close> makes a table of the first schema when there is none.\<close>

definition init_schema :: "index_db option \<Rightarrow> index_db" where
  "init_schema db = migrate (case db of
     None \<Rightarrow> \<lparr>db_has_store_hash = False, db_has_references = False, db_rows = []\<rparr>
   | Some d \<Rightarrow> d)"

section \<open>What a row gives back\<close>

definition sized_entry :: "hash_entry \<Rightarrow> bool" where
  "sized_entry e \<longleftrightarrow> length (he_blake3 e) = 32 \<and> length (he_sha256 e) = 32"

text \<open>
  The stored form of an entry: references outside the store are dropped and the others are
  split at white space; a deriver outside the store is dropped.
\<close>

definition stored :: "hash_entry \<Rightarrow> hash_entry" where
  "stored e = e\<lparr>he_references := basenames_to_references (join '' '' (references_to_basenames (he_references e))),
     he_deriver := (case he_deriver e of Some d \<Rightarrow> if prefix store_prefix d then Some d else None | None \<Rightarrow> None)\<rparr>"

text \<open>Paths that the format keeps: in the store, with a base name without white space.\<close>

definition store_ref :: "string \<Rightarrow> bool" where
  "store_ref p \<longleftrightarrow> (case strip_prefix store_prefix p of Some w \<Rightarrow> w \<noteq> [] \<and> no_ws w | None \<Rightarrow> False)"

definition plain_entry :: "hash_entry \<Rightarrow> bool" where
  "plain_entry e \<longleftrightarrow> list_all store_ref (he_references e) \<and>
     (case he_deriver e of Some d \<Rightarrow> prefix store_prefix d | None \<Rightarrow> True)"

lemma store_refE:
  assumes "store_ref p"
  obtains w where "p = store_prefix @ w" "w \<noteq> []" "no_ws w" "store_path_basename p = Some w"
  using assms by (auto simp: store_ref_def store_path_basename_def strip_prefix_Some_iff split: option.splits)

lemma basenames_split:
  assumes "list_all store_ref refs"
  shows "map (\<lambda>w. store_prefix @ w) (references_to_basenames refs) = refs"
    and "\<forall>w \<in> set (references_to_basenames refs). w \<noteq> [] \<and> no_ws w"
  using assms by (induction refs) (auto simp: references_to_basenames_def map_filter_simps elim!: store_refE)

lemma references_roundtrip:
  assumes "list_all store_ref refs"
  shows "basenames_to_references (join '' '' (references_to_basenames refs)) = refs"
proof -
  have "filter (\<lambda>w. w \<noteq> []) (references_to_basenames refs) = references_to_basenames refs"
    using basenames_split(2) [OF assms] by (simp add: filter_id_conv)
  then show ?thesis
    using basenames_split [OF assms] by (simp add: basenames_to_references_def)
qed

lemma stored_plain: "plain_entry e \<Longrightarrow> stored e = e"
  by (cases e) (auto simp: stored_def plain_entry_def references_roundtrip split: option.splits)

lemma tuple_to_entry_row [simp]:
  "sized_entry e \<Longrightarrow> tuple_to_entry (row_of_entry e) = Inr (stored e)"
  by (auto simp: tuple_to_entry_def row_of_entry_def sized_entry_def blake3_from_slice_def
      sha256_from_slice_def stored_def store_path_basename_def strip_prefix_def prefix_def
      split: option.split)

section \<open>The table invariant\<close>

definition row_ok :: "index_row \<Rightarrow> bool" where
  "row_ok r \<longleftrightarrow> length (ir_blake3 r) = 32 \<and> length (ir_sha256 r) = 32 \<and>
     ir_store_hash r = extract_store_hash (ir_store_path r)"

definition table_ok :: "index_table \<Rightarrow> bool" where
  "table_ok t \<longleftrightarrow> distinct (map ir_blake3 t) \<and> distinct (map ir_sha256 t) \<and>
     distinct (map ir_store_path t) \<and> list_all row_ok t"

lemma table_ok_Nil [simp]: "table_ok []"
  by (simp add: table_ok_def)

lemma table_ok_filter: "table_ok t \<Longrightarrow> table_ok (filter P t)"
  by (auto simp: table_ok_def distinct_map_filter list_all_iff)

lemma table_ok_insert_row: "table_ok t \<Longrightarrow> row_ok new \<Longrightarrow> table_ok (insert_row new t)"
  by (auto simp: table_ok_def insert_row_def distinct_map_filter list_all_iff conflicts_def)

lemma row_ok_entry [simp]: "row_ok (row_of_entry e) \<longleftrightarrow> sized_entry e"
  by (simp add: row_ok_def row_of_entry_def sized_entry_def)

lemma table_ok_insert: "table_ok t \<Longrightarrow> sized_entry e \<Longrightarrow> table_ok (snd (index_insert sql e t))"
  by (simp add: index_insert_def table_ok_insert_row split: option.split)

lemma find_key_insert:
  assumes "\<And>r. f r = f new \<Longrightarrow> conflicts new r"
  shows "find (\<lambda>r. f r = k) (insert_row new t) =
    (if f new = k then Some new else find (\<lambda>r. f r = k) (filter (\<lambda>r. \<not> conflicts new r) t))"
proof -
  have "find (\<lambda>r. f r = k) (filter (\<lambda>r. \<not> conflicts new r) t @ [new]) =
      (case find (\<lambda>r. f r = k) (filter (\<lambda>r. \<not> conflicts new r) t) of
         Some r \<Rightarrow> Some r | None \<Rightarrow> if f new = k then Some new else None)"
    by (induction t) auto
  moreover have "find (\<lambda>r. f r = k) (filter (\<lambda>r. \<not> conflicts new r) t) = None" if "f new = k"
    using that assms by (auto simp: find_None_iff)
  ultimately show ?thesis
    by (auto simp: insert_row_def split: option.split)
qed

lemma find_filter_unique:
  assumes "distinct (map f t)" "find (\<lambda>r. f r = k) t = x"
  shows "find (\<lambda>r. f r = k) (filter P t) = (case x of Some r \<Rightarrow> if P r then Some r else None | None \<Rightarrow> None)"
  using assms
proof (induction t arbitrary: x)
  case (Cons r t)
  show ?case
  proof (cases "f r = k")
    case True
    with Cons.prems(1) have "find (\<lambda>r. f r = k) (filter P t) = None"
      by (auto simp: find_None_iff image_iff)
    with True Cons.prems(2) show ?thesis by auto
  qed (use Cons in auto)
qed auto

section \<open>The index as a store of entries\<close>

text \<open>What the users of the index rely on, in terms of the entries it lists.\<close>

locale entry_store =
  fixes inv :: "'db \<Rightarrow> bool"
    and entries :: "'db \<Rightarrow> hash_entry list"
    and del :: "hash32 \<Rightarrow> 'db \<Rightarrow> 'db"
  assumes keys_unique: "inv db \<Longrightarrow> distinct (map he_blake3 (entries db))"
    and del_inv: "inv db \<Longrightarrow> inv (del h db)"
    and del_entries: "inv db \<Longrightarrow> entries (del h db) = filter (\<lambda>e. he_blake3 e \<noteq> h) (entries db)"
begin

lemma fold_del:
  "inv db \<Longrightarrow> inv (fold del hs db) \<and>
     entries (fold del hs db) = filter (\<lambda>e. he_blake3 e \<notin> set hs) (entries db)"
proof (induction hs arbitrary: db)
  case (Cons h hs)
  then show ?case
    using Cons.IH [OF del_inv [OF Cons.prems, of h]] del_entries [OF Cons.prems, of h]
    by (auto simp: conj_commute intro!: filter_cong)
qed simp

text \<open>Deleting the keys of the entries that fail a test keeps exactly those that pass it.\<close>

lemma prune_entries:
  assumes "inv db"
  shows "entries (fold del (map he_blake3 (filter (\<lambda>e. \<not> P e) (entries db))) db) = filter P (entries db)"
proof -
  have "he_blake3 e \<notin> he_blake3 ` set (filter (\<lambda>e. \<not> P e) (entries db)) \<longleftrightarrow> P e"
    if "e \<in> set (entries db)" for e
    using that keys_unique [OF assms] by (auto simp: distinct_map inj_on_def)
  then show ?thesis
    using fold_del [OF assms] by (auto intro!: filter_cong)
qed

end

definition row_entry :: "index_row \<Rightarrow> hash_entry" where
  "row_entry r = \<lparr>he_blake3 = ir_blake3 r, he_sha256 = ir_sha256 r, he_store_path = ir_store_path r,
     he_nar_size = word_of_int (ir_nar_size r), he_references = basenames_to_references (ir_references r),
     he_deriver = map_option (\<lambda>d. store_prefix @ d) (ir_deriver r)\<rparr>"

lemma tuple_to_entry_ok: "row_ok r \<Longrightarrow> tuple_to_entry r = Inr (row_entry r)"
  by (simp add: tuple_to_entry_def row_ok_def row_entry_def blake3_from_slice_def sha256_from_slice_def)

lemma entries_of_ok: "list_all row_ok t \<Longrightarrow> entries_of t = Inr (map row_entry t)"
  by (induction t) (auto simp: tuple_to_entry_ok)

lemma row_entry_blake3 [simp]: "he_blake3 (row_entry r) = ir_blake3 r"
  "he_store_path (row_entry r) = ir_store_path r"
  by (simp_all add: row_entry_def)

interpretation index_store: entry_store table_ok "map row_entry" "\<lambda>h t. snd (delete_by_blake3 None h t)"
proof unfold_locales
  show "distinct (map he_blake3 (map row_entry t))" if "table_ok t" for t
    using that by (simp add: table_ok_def comp_def)
qed (simp_all add: delete_by_blake3_def table_ok_filter filter_map comp_def)

section \<open>Properties of the index\<close>

lemma optional_found: "row_ok r \<Longrightarrow> optional_tuple_to_entry (Some r) = Inr (Some (row_entry r))"
  by (simp add: optional_tuple_to_entry_def tuple_to_entry_ok)

lemma row_entry_stored: "sized_entry e \<Longrightarrow> row_entry (row_of_entry e) = stored e"
  using tuple_to_entry_row [of e] tuple_to_entry_ok [of "row_of_entry e"] by simp

text \<open>A lookup by any key of an inserted entry.\<close>

lemma insert_lookup:
  assumes "table_ok t" "sized_entry e" "index_insert None e t = (res, t')"
  shows "res = Inr () \<and> table_ok t' \<and>
    get_by_blake3 None (he_blake3 e) t' = Inr (Some (stored e)) \<and>
    get_by_sha256 None (he_sha256 e) t' = Inr (Some (stored e)) \<and>
    get_by_store_path None (he_store_path e) t' = Inr (Some (stored e)) \<and>
    (if plain_entry e then stored e = e else True)"
proof -
  let ?r = "row_of_entry e"
  have t': "t' = insert_row ?r t" "res = Inr ()" using assms(3) by (auto simp: index_insert_def)
  have found: "optional_tuple_to_entry (Some ?r) = Inr (Some (stored e))"
    using assms(2) by (simp add: optional_found row_entry_stored)
  have keys: "ir_blake3 ?r = he_blake3 e" "ir_sha256 ?r = he_sha256 e" "ir_store_path ?r = he_store_path e"
    by (simp_all add: row_of_entry_def)
  have "find (\<lambda>r. ir_blake3 r = he_blake3 e) t' = Some ?r" "find (\<lambda>r. ir_sha256 r = he_sha256 e) t' = Some ?r"
    "find (\<lambda>r. ir_store_path r = he_store_path e) t' = Some ?r"
    unfolding t' by (subst find_key_insert; simp add: conflicts_def keys)+
  with found stored_plain [of e] t' table_ok_insert_row [OF assms(1), of ?r] assms(2) show ?thesis
    by (simp add: get_by_blake3_def get_by_sha256_def get_by_store_path_def with_sql_def)
qed

text \<open>
  After an insertion the entry is found under its BLAKE3 hash, its SHA256 hash and its
  store path, in its stored form, which is the entry itself (its size up to 2^64 - 1 included)
  when its references and deriver are store paths without white space; the three columns stay
  unique and every row keeps the store hash of its own path.
\<close>

theorem index_insert_lookup:
  assumes "table_ok t" "sized_entry e" "index_insert None e t = (res, t')"
  shows "res = Inr () \<and> table_ok t' \<and>
    get_by_blake3 None (he_blake3 e) t' = Inr (Some (stored e)) \<and>
    get_by_sha256 None (he_sha256 e) t' = Inr (Some (stored e)) \<and>
    get_by_store_path None (he_store_path e) t' = Inr (Some (stored e)) \<and>
    (if plain_entry e then stored e = e else True)"
  by (rule insert_lookup [OF assms])

definition sample_entry :: "byte \<Rightarrow> string \<Rightarrow> hash_entry" where
  "sample_entry b p = \<lparr>he_blake3 = replicate 32 b, he_sha256 = replicate 32 b, he_store_path = store_prefix @ p,
     he_nar_size = - 1, he_references = [store_prefix @ ''r1'', store_prefix @ ''r2''],
     he_deriver = Some (store_prefix @ ''d.drv'')\<rparr>"

lemma sample_entry_ok: "sized_entry (sample_entry b p)" "plain_entry (sample_entry b p)"
  by (simp_all add: sized_entry_def sample_entry_def plain_entry_def store_ref_def ws_len_def ws1_def
      ws2_def)

theorem index_insert_lookup_witness:
  "get_by_sha256 None (replicate 32 1) (snd (index_insert None (sample_entry 1 ''a-b'') [])) =
     Inr (Some (sample_entry 1 ''a-b''))"
proof -
  have key: "he_sha256 (sample_entry 1 ''a-b'') = replicate 32 1" by (simp add: sample_entry_def)
  show ?thesis
    using index_insert_lookup [OF table_ok_Nil sample_entry_ok(1), of 1 "''a-b''" "Inr ()"
        "snd (index_insert None (sample_entry 1 ''a-b'') [])"] sample_entry_ok(2)
    by (simp add: key index_insert_def)
qed

text \<open>
  An insertion removes from the index exactly the entries that share the new entry's BLAKE3
  hash, SHA256 hash or store path: the lookup of any other BLAKE3 hash gives what it gave
  before, or nothing when the entry it gave shares the SHA256 hash or the path.
\<close>

theorem index_insert_others:
  assumes "table_ok t" "h \<noteq> he_blake3 e"
  shows "get_by_blake3 None h (snd (index_insert None e t)) =
    (case get_by_blake3 None h t of
       Inr (Some e') \<Rightarrow> Inr (if he_sha256 e' = he_sha256 e \<or> he_store_path e' = he_store_path e
                           then None else Some e')
     | res \<Rightarrow> res)"
proof -
  let ?r = "row_of_entry e"
  have rows: "row_ok r" if "find (\<lambda>r. ir_blake3 r = h) t = Some r" for r
    using that assms(1) by (auto simp: table_ok_def list_all_iff find_Some_iff)
  have "find (\<lambda>r. ir_blake3 r = h) (insert_row ?r t) =
      (case find (\<lambda>r. ir_blake3 r = h) t of Some r \<Rightarrow> if \<not> conflicts ?r r then Some r else None | None \<Rightarrow> None)"
    using assms find_filter_unique [of ir_blake3 t h _ "\<lambda>r. \<not> conflicts ?r r"]
    by (subst find_key_insert) (auto simp: conflicts_def row_of_entry_def table_ok_def)
  moreover have "conflicts ?r r \<longleftrightarrow> he_sha256 (row_entry r) = he_sha256 e \<or> he_store_path (row_entry r) = he_store_path e"
    if "find (\<lambda>r. ir_blake3 r = h) t = Some r" for r
    using that assms(2) by (auto simp: conflicts_def row_of_entry_def row_entry_def find_Some_iff)
  ultimately show ?thesis
    by (cases "find (\<lambda>r. ir_blake3 r = h) t")
       (auto simp: get_by_blake3_def with_sql_def index_insert_def optional_found rows,
        simp_all add: optional_tuple_to_entry_def)
qed

theorem index_insert_others_witness:
  "get_by_blake3 None (replicate 32 1) (snd (index_insert None (sample_entry 2 ''a'')
     (snd (index_insert None (sample_entry 1 ''a'') [])))) = Inr None"
proof -
  let ?t = "snd (index_insert None (sample_entry 1 ''a'') [])"
  have t: "table_ok ?t" by (rule table_ok_insert [OF table_ok_Nil sample_entry_ok(1)])
  have h: "replicate 32 1 \<noteq> he_blake3 (sample_entry 2 ''a'')" by (simp add: sample_entry_def)
  have "get_by_blake3 None (replicate 32 1) ?t = Inr (Some (stored (sample_entry 1 ''a'')))"
    using insert_lookup [OF table_ok_Nil sample_entry_ok(1), of 1 "''a''" "Inr ()" ?t]
    by (simp add: index_insert_def) (simp add: sample_entry_def)
  then show ?thesis
    using index_insert_others [OF t h] by (simp add: stored_def sample_entry_def)
qed

text \<open>
  The migration keeps the rows and their keys, gives every row of a table without the
  column the store hash of its path, and does nothing the second time.
\<close>

theorem migrate_idempotent:
  "migrate (migrate db) = migrate db \<and>
   map (\<lambda>r. (ir_blake3 r, ir_sha256 r, ir_store_path r, ir_nar_size r)) (db_rows (migrate db)) =
     map (\<lambda>r. (ir_blake3 r, ir_sha256 r, ir_store_path r, ir_nar_size r)) (db_rows db) \<and>
   (db_has_store_hash db \<or>
    list_all (\<lambda>r. ir_store_hash r = extract_store_hash (ir_store_path r)) (db_rows (migrate db)))"
  by (auto simp: migrate_def backfill_def Let_def list_all_iff split: option.splits)

section \<open>Everything the index returns is well typed\<close>

datatype index_op = InsertOp "string option" hash_entry | DeleteOp "string option" hash32

primrec index_do :: "index_op \<Rightarrow> index_table \<Rightarrow> index_table" where
  "index_do (InsertOp sql e) t = snd (index_insert sql e t)"
| "index_do (DeleteOp sql h) t = snd (delete_by_blake3 sql h t)"

primrec op_sized :: "index_op \<Rightarrow> bool" where
  "op_sized (InsertOp sql e) = sized_entry e"
| "op_sized (DeleteOp sql h) = True"

lemma index_do_ok: "table_ok t \<Longrightarrow> op_sized a \<Longrightarrow> table_ok (index_do a t)"
  by (cases a) (auto simp: table_ok_insert delete_by_blake3_def table_ok_filter split: option.split)

lemma index_run_ok: "table_ok t \<Longrightarrow> list_all op_sized ops \<Longrightarrow> table_ok (fold index_do ops t)"
  by (induction ops arbitrary: t) (simp_all add: index_do_ok)

lemma find_row_entry:
  assumes "list_all row_ok t" "\<And>r. row_ok r \<Longrightarrow> f r = k \<longleftrightarrow> g (row_entry r)"
  shows "optional_tuple_to_entry (find (\<lambda>r. f r = k) t) = Inr (find g (map row_entry t))"
  using assms
  by (induction t) (simp_all add: optional_tuple_to_entry_def tuple_to_entry_ok)

text \<open>
  C40: whatever entries with 32-byte hashes are inserted and whatever is deleted, also when some of
  these statements fail, no lookup meets a row it cannot decode: every lookup is the search of its
  key in the listed entries, which have 32-byte hashes and distinct keys.
\<close>

theorem index_typed:
  assumes "list_all op_sized ops"
  shows "\<exists>es. list_all_entries None (fold index_do ops []) = Inr es \<and> list_all sized_entry es \<and>
    distinct (map he_blake3 es) \<and> distinct (map he_sha256 es) \<and> distinct (map he_store_path es) \<and>
    get_by_blake3 None h (fold index_do ops []) = Inr (find (\<lambda>e. he_blake3 e = h) es) \<and>
    get_by_sha256 None h (fold index_do ops []) = Inr (find (\<lambda>e. he_sha256 e = h) es) \<and>
    get_by_store_path None p (fold index_do ops []) = Inr (find (\<lambda>e. he_store_path e = p) es) \<and>
    get_by_store_hash None p (fold index_do ops []) = Inr (find (\<lambda>e. extract_store_hash (he_store_path e) = Some p) es) \<and>
    index_count None (fold index_do ops []) = Inr (of_nat (length es))"
proof -
  let ?t = "fold index_do ops []" let ?es = "map row_entry ?t"
  have t: "table_ok ?t" using index_run_ok [OF table_ok_Nil assms] .
  then have rows: "list_all row_ok ?t" by (simp add: table_ok_def)
  have sha: "he_sha256 (row_entry r) = ir_sha256 r" for r by (simp add: row_entry_def)
  have "list_all sized_entry ?es" using rows by (auto simp: list_all_iff row_ok_def sized_entry_def sha)
  moreover have "distinct (map he_blake3 ?es)" "distinct (map he_sha256 ?es)" "distinct (map he_store_path ?es)"
    using t by (simp_all add: table_ok_def comp_def sha)
  moreover have "optional_tuple_to_entry (find (\<lambda>r. ir_store_hash r = Some p) ?t) =
      Inr (find (\<lambda>e. extract_store_hash (he_store_path e) = Some p) ?es)"
    by (rule find_row_entry [OF rows]) (simp add: row_ok_def)
  ultimately show ?thesis
    using rows by (intro exI [of _ ?es])
      (simp add: list_all_entries_def entries_of_ok get_by_blake3_def get_by_sha256_def get_by_store_path_def
        get_by_store_hash_def index_count_def with_sql_def find_row_entry sha)
qed

theorem index_typed_witness:
  "\<exists>es. list_all_entries None (fold index_do [InsertOp None (sample_entry 1 ''a''), InsertOp None (sample_entry 2 ''b''),
        DeleteOp None (replicate 32 1)] []) = Inr es \<and> list_all sized_entry es"
  using index_typed [of "[InsertOp None (sample_entry 1 ''a''), InsertOp None (sample_entry 2 ''b''), DeleteOp None (replicate 32 1)]"]
  by (auto simp: sample_entry_ok)

end
