(* ===== verification/Gc.thy ===== *)
theory Gc
  imports Hash_Index
begin

text \<open>
  The stale-index cleanup of \<open>gc.rs\<close>: it lists the entries and then deletes, one lock of the
  mutex at a time, those whose store path no longer exists. \<open>exists\<close> tells which paths exist,
  \<open>poisoned\<close> whether the mutex is poisoned, \<open>sql k\<close> is the error of the \<open>k\<close>-th database call,
  and \<open>others k\<close> is what other tasks do to the index before the \<open>k\<close>-th lock.
\<close>

fun prune_loop :: "(string \<Rightarrow> bool) \<Rightarrow> bool \<Rightarrow> (nat \<Rightarrow> string option) \<Rightarrow> (nat \<Rightarrow> index_table \<Rightarrow> index_table) \<Rightarrow>
    nat \<Rightarrow> hash_entry list \<Rightarrow> index_table \<Rightarrow> nat \<times> index_table" where
  "prune_loop exists poisoned sql others k [] t = (0, t)"
| "prune_loop exists poisoned sql others k (e # es) t =
     (if exists (he_store_path e) then prune_loop exists poisoned sql others k es t
      else
        (let t1 = others k t;
             (res, t2) = (case lock_or_err poisoned () of
                Inl err \<Rightarrow> (Inl err, t1)
              | Inr _ \<Rightarrow> delete_by_blake3 (sql k) (he_blake3 e) t1);
             (removed, t3) = prune_loop exists poisoned sql others (k + 1) es t2
         in ((if is_ok res then 1 else 0) + removed, t3)))"

definition run_stale_cleanup :: "(string \<Rightarrow> bool) \<Rightarrow> bool \<Rightarrow> (nat \<Rightarrow> string option) \<Rightarrow>
    (nat \<Rightarrow> index_table \<Rightarrow> index_table) \<Rightarrow> index_table \<Rightarrow> nat \<times> index_table" where
  "run_stale_cleanup exists poisoned sql others t =
     (let t0 = others 0 t
      in case rbind (lock_or_err poisoned ()) (\<lambda>_. list_all_entries (sql 0) t0) of
           Inl _ \<Rightarrow> (0, t0)
         | Inr entries \<Rightarrow> prune_loop exists poisoned sql others 1 entries t0)"

text \<open>
  The loop around it, over the choices of its \<open>select!\<close>: each tick runs a cleanup on the index as
  the other tasks have left it, and the first cancellation ends the loop. The result is the index
  and whether the loop has returned.
\<close>

datatype cleanup_turn =
  Cancelled
| CleanupTick "string \<Rightarrow> bool" bool "nat \<Rightarrow> string option" "nat \<Rightarrow> index_table \<Rightarrow> index_table"

fun run_stale_cleanup_loop :: "cleanup_turn list \<Rightarrow> index_table \<Rightarrow> index_table \<times> bool" where
  "run_stale_cleanup_loop [] t = (t, False)"
| "run_stale_cleanup_loop (Cancelled # turns) t = (t, True)"
| "run_stale_cleanup_loop (CleanupTick exists poisoned sql others # turns) t =
     run_stale_cleanup_loop turns (snd (run_stale_cleanup exists poisoned sql others t))"

lemma prune_loop_alone:
  "prune_loop exists False (\<lambda>_. None) (\<lambda>_ t. t) k es t =
     (length (filter (\<lambda>e. \<not> exists (he_store_path e)) es),
      fold (\<lambda>h t. snd (delete_by_blake3 None h t))
        (map he_blake3 (filter (\<lambda>e. \<not> exists (he_store_path e)) es)) t)"
  by (induction es arbitrary: k t)
     (auto simp: delete_by_blake3_def Let_def split: prod.splits)

section \<open>Properties of the cleanup\<close>

lemma cleanup_alone:
  assumes "table_ok t" "run_stale_cleanup exists False (\<lambda>_. None) (\<lambda>_ t. t) t = (removed, t')"
  shows "map row_entry t' = filter (\<lambda>e. exists (he_store_path e)) (map row_entry t) \<and>
    table_ok t' \<and> removed = length t - length t' \<and> length t' \<le> length t"
proof -
  let ?P = "\<lambda>e. exists (he_store_path e)"
  have rows: "list_all row_ok t" using assms(1) by (simp add: table_ok_def)
  then have r: "removed = length (filter (\<lambda>e. \<not> ?P e) (map row_entry t))"
    and t': "t' = fold (\<lambda>h t. snd (delete_by_blake3 None h t))
      (map he_blake3 (filter (\<lambda>e. \<not> ?P e) (map row_entry t))) t"
    using assms(2) by (simp_all add: run_stale_cleanup_def list_all_entries_def with_sql_def entries_of_ok
      prune_loop_alone)
  have kept: "map row_entry t' = filter ?P (map row_entry t)"
    unfolding t' by (rule index_store.prune_entries [OF assms(1)])
  have "length (map row_entry t') = length (filter ?P (map row_entry t))"
    using kept by simp
  moreover have "length (filter ?P (map row_entry t)) + length (filter (\<lambda>e. \<not> ?P e) (map row_entry t)) = length t"
    using sum_length_filter_compl [of ?P "map row_entry t"] by simp
  ultimately have "removed = length t - length t'" "length t' \<le> length t"
    using r by simp_all
  moreover have "table_ok t'"
    unfolding t' using index_store.fold_del [OF assms(1)] by blast
  ultimately show ?thesis using kept by blast
qed

text \<open>
  A cleanup that no other task interferes with removes exactly the entries whose store path
  no longer exists, keeps all others in their order and returns the number it removed.
\<close>

theorem cleanup_exact:
  assumes "table_ok t" "run_stale_cleanup exists False (\<lambda>_. None) (\<lambda>_ t. t) t = (removed, t')"
  shows "map row_entry t' = filter (\<lambda>e. exists (he_store_path e)) (map row_entry t) \<and>
    table_ok t' \<and> removed = length t - length t' \<and> length t' \<le> length t"
  by (rule cleanup_alone [OF assms])

text \<open>
  A cleanup loop that is alone with the index keeps the entries whose path existed at every tick
  before the cancellation, whatever ticks are still due after it.
\<close>

definition quiet_tick :: "(string \<Rightarrow> bool) \<Rightarrow> cleanup_turn" where
  "quiet_tick exists = CleanupTick exists False (\<lambda>_. None) (\<lambda>_ t. t)"

lemma cleanup_loop_exact:
  assumes "table_ok t"
  shows "\<exists>t'. run_stale_cleanup_loop (map quiet_tick ticks @ Cancelled # later) t = (t', True) \<and> table_ok t' \<and>
    map row_entry t' = filter (\<lambda>e. list_all (\<lambda>exists. exists (he_store_path e)) ticks) (map row_entry t)"
  using assms
proof (induction ticks arbitrary: t)
  case (Cons exists ticks)
  obtain n t1 where r: "run_stale_cleanup exists False (\<lambda>_. None) (\<lambda>_ t. t) t = (n, t1)" by fastforce
  note 1 = cleanup_alone [OF Cons.prems r]
  obtain t' where "run_stale_cleanup_loop (map quiet_tick ticks @ Cancelled # later) t1 = (t', True)" "table_ok t'"
    "map row_entry t' = filter (\<lambda>e. list_all (\<lambda>exists. exists (he_store_path e)) ticks) (map row_entry t1)"
    using Cons.IH 1 by blast
  moreover from this(3) have "map row_entry t' =
      filter (\<lambda>e. list_all (\<lambda>exists. exists (he_store_path e)) (exists # ticks)) (map row_entry t)"
    using 1 by (simp add: conj_commute)
  moreover have "run_stale_cleanup_loop (map quiet_tick (exists # ticks) @ Cancelled # later) t =
      run_stale_cleanup_loop (map quiet_tick ticks @ Cancelled # later) t1"
    using r by (simp add: quiet_tick_def)
  ultimately show ?case by (simp del: list.pred_inject)
qed simp

definition two_rows :: index_table where
  "two_rows = snd (index_insert None (sample_entry 2 ''gone'') (snd (index_insert None (sample_entry 1 ''a'') [])))"

lemma two_rows_ok: "table_ok two_rows"
  unfolding two_rows_def by (intro table_ok_insert sample_entry_ok table_ok_Nil)

theorem cleanup_exact_witness:
  "map row_entry (snd (run_stale_cleanup (\<lambda>p. p = store_prefix @ ''a'') False (\<lambda>_. None) (\<lambda>_ t. t) two_rows)) =
     filter (\<lambda>e. he_store_path e = store_prefix @ ''a'') (map row_entry two_rows)"
  using cleanup_exact [OF two_rows_ok surjective_pairing] by blast

text \<open>
  The list is taken under one lock and each deletion under another, and a deletion names
  only the BLAKE3 hash. When another task re-indexes the same content under a path that exists
  between the two, the cleanup deletes that fresh entry.
\<close>

theorem cleanup_race:
  "\<exists>exists others t e. table_ok t \<and> table_ok (others 1 t) \<and> exists (he_store_path e) \<and>
     get_by_blake3 None (he_blake3 e) (others 1 (others 0 t)) = Inr (Some e) \<and>
     run_stale_cleanup exists False (\<lambda>_. None) others t = (1, [])"
proof -
  let ?e = "sample_entry 1 ''new''" and ?old = "sample_entry 1 ''old''"
  let ?exists = "\<lambda>p. p = he_store_path ?e"
  let ?others = "\<lambda>k t. if k = (1 :: nat) then snd (index_insert None ?e t) else t"
  let ?t = "snd (index_insert None ?old [])"
  have old: "table_ok ?t" by (rule table_ok_insert [OF table_ok_Nil sample_entry_ok(1)])
  have ok1: "table_ok (?others 1 ?t)" by (simp add: table_ok_insert old sample_entry_ok)
  have fresh: "get_by_blake3 None (he_blake3 ?e) (?others 1 (?others 0 ?t)) = Inr (Some ?e)"
    using insert_lookup [OF old sample_entry_ok(1) surjective_pairing, of 1 "''new''"] sample_entry_ok(2)
    by simp
  have t: "?t = [row_of_entry ?old]" by (simp add: index_insert_def insert_row_def)
  have new: "snd (index_insert None ?e ?t) = [row_of_entry ?e]"
    by (simp add: index_insert_def insert_row_def conflicts_def row_of_entry_def sample_entry_def)
  have b: "ir_blake3 (row_of_entry ?e) = he_blake3 (stored ?old)"
    by (simp add: row_of_entry_def sample_entry_def stored_def)
  have "entries_of [row_of_entry ?old] = Inr [stored ?old]" by (simp add: sample_entry_ok)
  moreover have "he_store_path (stored ?old) \<noteq> he_store_path ?e"
    by (simp add: stored_def sample_entry_def)
  ultimately have run: "run_stale_cleanup ?exists False (\<lambda>_. None) ?others ?t = (1, [])"
    using new b by (simp add: run_stale_cleanup_def Let_def list_all_entries_def with_sql_def
      delete_by_blake3_def t)
  show ?thesis
    by (rule exI [of _ ?exists], rule exI [of _ ?others], rule exI [of _ ?t], rule exI [of _ ?e])
       (intro conjI old ok1 fresh run refl)
qed

end
