(* ===== verification/Byte_IO.thy ===== *)
theory Byte_IO
  imports Errors
begin

text \<open>
  Byte streams. A reader is the bytes it still delivers and the I/O error it reports once
  they are used up (\<open>UnexpectedEof\<close> at the end of a file or a closed pipe); a writer is any
  state with a \<open>write_all\<close>. The two interfaces the components rely on are locales: a codec,
  whose reader undoes its writer and rejects truncated input, and a sink, which appends
  what it is given.
\<close>

section \<open>Readers\<close>

type_synonym io_error = "io_kind \<times> string"

record reader =
  avail :: "byte list"
  ending :: io_error

definition eof_error :: io_error where
  "eof_error = (UnexpectedEof, ''failed to fill whole buffer'')"

definition cursor :: "byte list \<Rightarrow> reader" where
  "cursor bs = \<lparr>avail = bs, ending = eof_error\<rparr>"

definition feed :: "byte list \<Rightarrow> reader \<Rightarrow> reader" where
  "feed bs r = r\<lparr>avail := bs @ avail r\<rparr>"

definition read_exact :: "nat \<Rightarrow> reader \<Rightarrow> io_error + (byte list \<times> reader)" where
  "read_exact n r =
     (if n \<le> length (avail r) then Inr (take n (avail r), r\<lparr>avail := drop n (avail r)\<rparr>)
      else Inl (ending r))"

text \<open>The \<open>?\<close> operator on an I/O result: \<open>From<io::Error>\<close> makes it \<open>Error::Io\<close>.\<close>

definition io_result :: "io_error + 'a \<Rightarrow> 'a result" where
  "io_result m = (case m of Inl (k, e) \<Rightarrow> throw (Io k e) | Inr x \<Rightarrow> Inr x)"

definition isize_max :: nat where
  "isize_max = 2 ^ 63 - 1"

text \<open>\<open>vec![0u8; len]\<close> panics when the length exceeds \<open>isize::MAX\<close>.\<close>

definition alloc :: "nat \<Rightarrow> unit result" where
  "alloc n = (if n \<le> isize_max then Inr () else panic ''capacity overflow'')"

fun read_n :: "(reader \<Rightarrow> 'e + ('a \<times> reader)) \<Rightarrow> nat \<Rightarrow> reader \<Rightarrow> 'e + ('a list \<times> reader)" where
  "read_n rd 0 r = Inr ([], r)"
| "read_n rd (Suc n) r =
     rbind (rd r) (\<lambda>(x, r'). rbind (read_n rd n r') (\<lambda>(xs, r''). Inr (x # xs, r'')))"

lemma feed_append [simp]: "feed (a @ b) r = feed a (feed b r)"
  by (simp add: feed_def)

lemma feed_Nil [simp]: "feed [] r = r"
  by (simp add: feed_def)

lemma avail_feed [simp]: "avail (feed bs r) = bs @ avail r"
  by (simp add: feed_def)

lemma cursor_feed: "cursor (a @ b) = feed a (cursor b)"
  by (simp add: cursor_def feed_def)

lemma feed_cursor: "feed a (cursor b) = cursor (a @ b)"
  by (simp add: cursor_feed)

lemma avail_cursor [simp]: "avail (cursor bs) = bs"
  by (simp add: cursor_def)

lemma cursor_inject [simp]: "cursor a = cursor b \<longleftrightarrow> a = b"
  by (simp add: cursor_def)

lemma read_exact_feed [codec_simps]:
  "length bs = n \<Longrightarrow> read_exact n (feed bs r) = Inr (bs, r)"
  by (simp add: read_exact_def feed_def)

lemma read_exact_short [codec_simps]:
  "length (avail r) < n \<Longrightarrow> read_exact n r = Inl (ending r)"
  by (simp add: read_exact_def)

lemma read_exact_Inr:
  "read_exact n r = Inr (bs, r') \<longleftrightarrow> length bs = n \<and> r = feed bs r'"
  by (auto simp: read_exact_def feed_def)

lemma io_result_Inr [simp]: "io_result m = Inr x \<longleftrightarrow> m = Inr x"
  by (auto simp: io_result_def split: sum.splits)

lemma io_result_simps [simp]:
  "io_result (Inr x) = Inr x" "io_result (Inl (k, e)) = throw (Io k e)"
  by (simp_all add: io_result_def)

lemma alloc_Inr [simp]: "alloc n = Inr u \<longleftrightarrow> n \<le> isize_max"
  by (simp add: alloc_def)

lemma alloc_ok [simp]: "n \<le> isize_max \<Longrightarrow> alloc n = Inr ()"
  by simp

section \<open>The codec interface\<close>

locale byte_codec =
  fixes enc :: "'a \<Rightarrow> byte list"
    and dec :: "reader \<Rightarrow> 'e + ('a \<times> reader)"
    and ok :: "'a \<Rightarrow> bool"
  assumes dec_enc: "ok x \<Longrightarrow> dec (feed (enc x) r) = Inr (x, r)"
begin

lemma dec_cursor: "ok x \<Longrightarrow> dec (cursor (enc x @ bs)) = Inr (x, cursor bs)"
  by (simp add: cursor_feed dec_enc)

lemma read_n_enc:
  "\<forall>x \<in> set xs. ok x \<Longrightarrow>
     read_n dec (length xs) (feed (concat (map enc xs)) r) = Inr (xs, r)"
  by (induction xs) (auto simp: dec_enc)

text \<open>Encodings of valid values are prefix-free: equal streams hold equal values.\<close>

lemma enc_append_inject:
  assumes "ok x" "ok y" "enc x @ s = enc y @ t"
  shows "x = y \<and> s = t"
proof -
  have "Inr (x, cursor s) = (Inr (y, cursor t) :: 'e + ('a \<times> reader))"
    by (rule trans [OF dec_cursor [OF assms(1), of s, symmetric]])
       (unfold assms(3), rule dec_cursor [OF assms(2)])
  then show ?thesis by simp
qed

end

text \<open>A codec whose reader also refuses every proper prefix of an encoding.\<close>

locale strict_codec = byte_codec +
  assumes dec_short: "ok x \<Longrightarrow> strict_prefix (avail r) (enc x) \<Longrightarrow> \<not> is_ok (dec r)"
begin

lemma read_n_short:
  "\<forall>x \<in> set xs. ok x \<Longrightarrow> strict_prefix (avail r) (concat (map enc xs)) \<Longrightarrow>
     \<not> is_ok (read_n dec (length xs) r)"
proof (induction xs arbitrary: r)
  case Nil
  then show ?case by simp
next
  case (Cons x xs)
  then have okx: "ok x" by simp
  show ?case
  proof (cases "prefix (enc x) (avail r)")
    case True
    then obtain z where z: "avail r = enc x @ z" by (auto simp: prefix_def)
    let ?r = "r\<lparr>avail := z\<rparr>"
    have "feed (enc x) ?r = r" by (cases r) (use z in \<open>simp add: feed_def\<close>)
    note r = this [symmetric]
    have "strict_prefix (avail ?r) (concat (map enc xs))"
      using Cons.prems(2) z by (auto simp: strict_prefix_def)
    then have "\<not> is_ok (read_n dec (length xs) ?r)"
      using Cons.IH [of ?r] Cons.prems(1) by simp
    then show ?thesis
      using dec_enc [OF okx, of ?r] by (auto simp: is_ok_iff simp flip: r)
  next
    case False
    have "strict_prefix (avail r) (enc x)"
      using Cons.prems(2) False by (auto simp: strict_prefix_def prefix_append)
    then show ?thesis
      using dec_short [OF okx] by (auto simp: is_ok_iff)
  qed
qed

end

section \<open>Writers\<close>

type_synonym 'w put = "'w \<Rightarrow> byte list \<Rightarrow> io_error + 'w"

text \<open>\<open>Write for Vec<u8>\<close>: appends and never fails.\<close>

definition vec_put :: "byte list put" where
  "vec_put w bs = Inr (w @ bs)"

locale byte_sink =
  fixes put :: "'w put" and contents :: "'w \<Rightarrow> byte list"
  assumes put_contents: "put w bs = Inr w' \<Longrightarrow> contents w' = contents w @ bs"

interpretation vec: byte_sink vec_put "\<lambda>w. w"
  by unfold_locales (simp add: vec_put_def)

section \<open>Streams to a peer\<close>

text \<open>
  A stream that may break: the bytes the other side has received, the point past which it stops
  accepting with its error, and whether the stream was finished.
\<close>

record send_stream =
  ss_sent :: "byte list"
  ss_limit :: "(nat \<times> string) option"
  ss_finished :: bool

definition open_stream :: send_stream where
  "open_stream = \<lparr>ss_sent = [], ss_limit = None, ss_finished = False\<rparr>"

text \<open>\<open>write_all\<close>: past the limit, what still fits arrives and the call fails.\<close>

definition stream_write :: "byte list \<Rightarrow> send_stream \<Rightarrow> (string + unit) \<times> send_stream" where
  "stream_write bs s =
     (case ss_limit s of
        None \<Rightarrow> (Inr (), s\<lparr>ss_sent := ss_sent s @ bs\<rparr>)
      | Some (k, e) \<Rightarrow>
          if length (ss_sent s) + length bs \<le> k then (Inr (), s\<lparr>ss_sent := ss_sent s @ bs\<rparr>)
          else (Inl e, s\<lparr>ss_sent := ss_sent s @ take (k - length (ss_sent s)) bs\<rparr>))"

text \<open>The sequencing of steps that thread a state and stop at the first failure.\<close>

definition st_bind :: "'a result \<times> 's \<Rightarrow> ('a \<Rightarrow> 's \<Rightarrow> 'b result \<times> 's) \<Rightarrow> 'b result \<times> 's" where
  "st_bind m f = (case m of (Inl e, s) \<Rightarrow> (Inl e, s) | (Inr x, s) \<Rightarrow> f x s)"

lemma st_bind_Inr [simp]: "st_bind (Inr x, s) f = f x s"
  by (simp add: st_bind_def)

end
