(* ===== verification/Nix_Protocol.thy ===== *)
theory Nix_Protocol
  imports Byte_IO
begin

text \<open>
  The CommonProto wire format of \<open>nix_protocol.rs\<close>: little-endian integers, strings padded to
  eight bytes and sets of strings. Each format is a strict codec. The argument \<open>ue\<close> is the library's text
  for a UTF-8 error.
\<close>

definition padding :: "nat \<Rightarrow> nat" where
  "padding len = (8 - len mod 8) mod 8"

definition eof_as :: "string \<Rightarrow> io_error + 'a \<Rightarrow> 'a result" where
  "eof_as m x = (case x of
      Inl (k, e) \<Rightarrow> if k = UnexpectedEof then throw (Protocol m) else throw (Io k e)
    | Inr y \<Rightarrow> Inr y)"

definition read_u32 :: "reader \<Rightarrow> (u32 \<times> reader) result" where
  "read_u32 r = rbind (eof_as ''unexpected EOF reading u32'' (read_exact 4 r))
     (\<lambda>(buf, r'). Inr (u32_of_le buf, r'))"

definition read_u64 :: "reader \<Rightarrow> (u64 \<times> reader) result" where
  "read_u64 r = rbind (eof_as ''unexpected EOF reading u64'' (read_exact 8 r))
     (\<lambda>(buf, r'). Inr (u64_of_le buf, r'))"

definition read_string :: "(byte list \<Rightarrow> string) \<Rightarrow> reader \<Rightarrow> (string \<times> reader) result" where
  "read_string ue r =
     rbind (read_u64 r) (\<lambda>(n, r1). let len = unat n in
     rbind (alloc len) (\<lambda>_.
     rbind (io_result (read_exact len r1)) (\<lambda>(buf, r2).
     rbind (if padding len > 0 then rbind (io_result (read_exact (padding len) r2)) (\<lambda>(_, r3). Inr r3)
            else Inr r2) (\<lambda>r3.
     case from_utf8 buf of
       None \<Rightarrow> throw (Protocol (''invalid UTF-8 in string: '' @ ue buf))
     | Some s \<Rightarrow> Inr (s, r3)))))"

text \<open>\<open>Vec::with_capacity\<close> of \<open>count\<close> strings, 24 bytes each.\<close>

definition read_string_set :: "(byte list \<Rightarrow> string) \<Rightarrow> reader \<Rightarrow> (string list \<times> reader) result" where
  "read_string_set ue r =
     rbind (read_u64 r) (\<lambda>(n, r1). let count = unat n in
     rbind (alloc (24 * count)) (\<lambda>_. read_n (read_string ue) count r1))"

definition write_u32 :: "'w put \<Rightarrow> 'w \<Rightarrow> u32 \<Rightarrow> 'w result" where
  "write_u32 put w v = io_result (put w (u32_le v))"

definition write_u64 :: "'w put \<Rightarrow> 'w \<Rightarrow> u64 \<Rightarrow> 'w result" where
  "write_u64 put w v = io_result (put w (u64_le v))"

definition write_string :: "'w put \<Rightarrow> 'w \<Rightarrow> string \<Rightarrow> 'w result" where
  "write_string put w s =
     (let bytes = as_bytes s in
     rbind (write_u64 put w (of_nat (length bytes))) (\<lambda>w1.
     rbind (io_result (put w1 bytes)) (\<lambda>w2.
     if padding (length bytes) > 0 then io_result (put w2 (replicate (padding (length bytes)) 0))
     else Inr w2)))"

fun write_strings :: "'w put \<Rightarrow> 'w \<Rightarrow> string list \<Rightarrow> 'w result" where
  "write_strings put w [] = Inr w"
| "write_strings put w (s # ss) = rbind (write_string put w s) (\<lambda>w'. write_strings put w' ss)"

definition write_string_set :: "'w put \<Rightarrow> 'w \<Rightarrow> string list \<Rightarrow> 'w result" where
  "write_string_set put w ss =
     rbind (write_u64 put w (of_nat (length ss))) (\<lambda>w'. write_strings put w' ss)"

section \<open>The formats\<close>

definition padded :: "byte list \<Rightarrow> byte list" where
  "padded bs = u64_le (of_nat (length bs)) @ bs @ replicate (padding (length bs)) 0"

definition string_enc :: "string \<Rightarrow> byte list" where
  "string_enc s = padded (as_bytes s)"

definition string_set_enc :: "string list \<Rightarrow> byte list" where
  "string_set_enc ss = u64_le (of_nat (length ss)) @ concat (map string_enc ss)"

lemma padding_aligned: "(len + padding len) mod 8 = 0"
proof -
  have "len mod 8 < 8" by simp
  then have "len + (8 - len mod 8) = 8 * (len div 8) + 8"
    using mult_div_mod_eq [of 8 len] by linarith
  then have "(len + (8 - len mod 8)) mod 8 = 0"
    by (metis mod_add_self2 mod_mult_self1_is_0)
  then show ?thesis by (simp add: padding_def mod_add_right_eq)
qed

lemma length_padded: "length (padded bs) = 8 + (length bs + padding (length bs))"
  by (simp add: padded_def)

text \<open>What any sink receives when a write succeeds.\<close>

context byte_sink begin

lemma write_u64_contents: "write_u64 put w v = Inr w' \<Longrightarrow> contents w' = contents w @ u64_le v"
  by (auto simp: write_u64_def dest: put_contents)

lemma write_u32_contents: "write_u32 put w v = Inr w' \<Longrightarrow> contents w' = contents w @ u32_le v"
  by (auto simp: write_u32_def dest: put_contents)

lemma write_string_contents:
  "write_string put w s = Inr w' \<Longrightarrow> contents w' = contents w @ string_enc s"
  by (auto simp: write_string_def string_enc_def padded_def Let_def
      dest!: put_contents write_u64_contents split: if_splits)

lemma write_strings_contents:
  "write_strings put w ss = Inr w' \<Longrightarrow> contents w' = contents w @ concat (map string_enc ss)"
  by (induction ss arbitrary: w) (auto dest: write_string_contents)

lemma write_string_set_contents:
  "write_string_set put w ss = Inr w' \<Longrightarrow> contents w' = contents w @ string_set_enc ss"
  by (auto simp: write_string_set_def string_set_enc_def dest!: write_u64_contents write_strings_contents)

end

text \<open>Writing to a vector succeeds.\<close>

lemma write_string_vec: "write_string vec_put w s = Inr (w @ string_enc s)"
  by (simp add: write_string_def write_u64_def vec_put_def string_enc_def padded_def Let_def)

lemma write_strings_vec: "write_strings vec_put w ss = Inr (w @ concat (map string_enc ss))"
  by (induction ss arbitrary: w) (simp_all add: write_string_vec)

lemma write_string_set_vec: "write_string_set vec_put w ss = Inr (w @ string_set_enc ss)"
  by (simp add: write_string_set_def write_strings_vec write_u64_def vec_put_def string_set_enc_def)

section \<open>Reading what was written\<close>

lemma eof_as_Inr [simp]: "eof_as m x = Inr y \<longleftrightarrow> x = Inr y"
  by (auto simp: eof_as_def split: sum.splits if_splits)

lemma eof_as_ok [codec_simps]: "eof_as m (Inr y) = Inr y"
  by (simp add: eof_as_def)

lemma read_u32_feed [codec_simps]: "read_u32 (feed (u32_le v) r) = Inr (v, r)"
  by (simp add: read_u32_def codec_simps)

lemma read_u64_feed [codec_simps]: "read_u64 (feed (u64_le v) r) = Inr (v, r)"
  by (simp add: read_u64_def codec_simps)

definition string_ok :: "string \<Rightarrow> bool" where
  "string_ok s \<longleftrightarrow> is_str s \<and> length s \<le> isize_max"

lemma string_ok_len: "string_ok s \<Longrightarrow> unat (of_nat (length s) :: u64) = length s"
  by (rule unat_of_nat_u64) (simp add: string_ok_def isize_max_def)

lemma read_string_feed [codec_simps]:
  assumes "string_ok s"
  shows "read_string ue (feed (string_enc s) r) = Inr (s, r)"
proof -
  have len: "unat (of_nat (length s) :: u64) = length s"
    using assms by (rule string_ok_len)
  have le: "length s \<le> isize_max" and utf: "is_str s"
    using assms by (simp_all add: string_ok_def)
  have r: "feed (string_enc s) r = feed (u64_le (of_nat (length s)))
      (feed (as_bytes s) (feed (replicate (padding (length s)) 0) r))"
    by (simp add: string_enc_def padded_def)
  show ?thesis
    unfolding r read_string_def
    by (simp add: codec_simps len le utf Let_def)
qed

lemma read_u64_short: "length (avail r) < 8 \<Longrightarrow> \<not> is_ok (read_u64 r)"
  by (auto simp: is_ok_iff read_u64_def codec_simps)

lemma read_u32_short: "length (avail r) < 4 \<Longrightarrow> \<not> is_ok (read_u32 r)"
  by (auto simp: is_ok_iff read_u32_def codec_simps)

lemma read_u64_Inr: "read_u64 r = Inr (v, r') \<longleftrightarrow> r = feed (u64_le v) r'"
proof
  assume "read_u64 r = Inr (v, r')"
  then obtain bs where "r = feed bs r'" "v = u64_of_le bs" "length bs = 8"
    by (auto simp: read_u64_def read_exact_Inr)
  moreover have "u64_le (u64_of_le bs) = bs" if "length bs = 8" for bs
  proof (rule nth_equalityI)
    fix i assume "i < length (u64_le (u64_of_le bs))"
    then have i: "i < 8" by simp
    show "u64_le (u64_of_le bs) ! i = bs ! i"
      using i that
      by (auto intro!: bit_word_eqI simp: u64_le_def u64_of_le_def le_bytes_def bit_ucast_iff
          bit_drop_bit_eq bit_of_le)
  qed (simp add: that)
  ultimately show "r = feed (u64_le v) r'" by simp
qed (simp add: codec_simps)

text \<open>
  A string's reader consumes exactly an encoding, up to the padding bytes, whose values it
  ignores.
\<close>

lemma read_string_Inr:
  assumes "read_string ue r = Inr (s, r')"
  shows "\<exists>pad. length pad = padding (length s) \<and> is_str s \<and> length s \<le> isize_max
      \<and> r = feed (u64_le (of_nat (length s)) @ as_bytes s @ pad) r'"
proof -
  from assms obtain n r1 buf r2 where
    1: "read_u64 r = Inr (n, r1)" "unat n \<le> isize_max" "read_exact (unat n) r1 = Inr (buf, r2)"
       "from_utf8 buf = Some s"
    and 2: "(if padding (unat n) > 0 then rbind (io_result (read_exact (padding (unat n)) r2)) (\<lambda>(_, r3). Inr r3)
            else Inr r2) = (Inr r' :: reader result)"
    by (auto simp: read_string_def Let_def split: option.splits)
  then have buf: "buf = as_bytes s" "is_str s" and len: "unat n = length s"
    and r: "r = feed (u64_le n) (feed buf r2)"
    by (auto simp: read_u64_Inr read_exact_Inr from_utf8_Some)
  have n: "n = of_nat (length s)" by (simp flip: len)
  from 2 obtain pad where "length pad = padding (length s)" "r2 = feed pad r'"
    by (auto simp: len read_exact_Inr split: if_splits intro: that [of "[]"])
  then show ?thesis
    using buf r n len 1(2) by auto
qed

section \<open>The formats are strict codecs\<close>

lemma prefix_u64:
  assumes "strict_prefix (avail r) (u64_le v @ bs)"
  shows "\<not> is_ok (read_u64 r) \<or> (\<exists>r'. read_u64 r = Inr (v, r') \<and> strict_prefix (avail r') bs)"
proof (cases "length (avail r) < 8")
  case True
  then show ?thesis by (simp add: read_u64_short)
next
  case False
  with assms obtain z where z: "avail r = u64_le v @ z"
    by (metis length_int_bytes(2) not_less prefix_length_prefix prefix_def prefix_order.less_imp_le
        append_prefixD prefix_order.order_refl)
  then have "feed (u64_le v) (r\<lparr>avail := z\<rparr>) = r"
    by (cases r) (simp add: feed_def)
  then have "read_u64 r = Inr (v, r\<lparr>avail := z\<rparr>)"
    by (metis read_u64_feed)
  with assms z show ?thesis by (auto simp: strict_prefix_def)
qed

lemma read_string_short:
  assumes "string_ok s" "strict_prefix (avail r) (string_enc s)"
  shows "\<not> is_ok (read_string ue r)"
proof
  assume "is_ok (read_string ue r)"
  then obtain s' r' where "read_string ue r = Inr (s', r')" by (auto simp: is_ok_iff)
  then obtain pad where pad: "length pad = padding (length s')" "length s' \<le> isize_max"
    and r: "avail r = u64_le (of_nat (length s')) @ as_bytes s' @ pad @ avail r'"
    by (auto dest!: read_string_Inr)
  have pre: "prefix (avail r) (string_enc s)" and len: "length (avail r) < length (string_enc s)"
    using assms(2) prefix_length_less by (auto simp: strict_prefix_def)
  from pre r have "u64_le (of_nat (length s') :: u64) = u64_le (of_nat (length s))"
    by (auto simp: prefix_def string_enc_def padded_def)
  then have "unat (of_nat (length s') :: u64) = unat (of_nat (length s) :: u64)" by simp
  then have "length s' = length s"
    using string_ok_len [OF assms(1)] pad(2) by (simp add: unat_of_nat_u64 isize_max_def)
  with len pad(1) show False by (simp add: r string_enc_def length_padded)
qed

interpretation u32c: strict_codec u32_le read_u32 "\<lambda>_. True"
  by unfold_locales
     (auto simp: codec_simps intro!: read_u32_short dest: prefix_length_less)

interpretation u64c: strict_codec u64_le read_u64 "\<lambda>_. True"
  by unfold_locales
     (auto simp: codec_simps intro!: read_u64_short dest: prefix_length_less)

interpretation strc: strict_codec string_enc "read_string ue" string_ok
  by unfold_locales (simp_all add: codec_simps read_string_short)

definition string_set_ok :: "string list \<Rightarrow> bool" where
  "string_set_ok ss \<longleftrightarrow> list_all string_ok ss \<and> 24 * length ss \<le> isize_max"

lemma string_set_ok_len: "string_set_ok ss \<Longrightarrow> unat (of_nat (length ss) :: u64) = length ss"
  by (rule unat_of_nat_u64) (simp add: string_set_ok_def isize_max_def)

lemma read_string_set_feed [codec_simps]:
  assumes "string_set_ok ss"
  shows "read_string_set ue (feed (string_set_enc ss) r) = Inr (ss, r)"
  using assms string_set_ok_len [OF assms] strc.read_n_enc [of ss ue r]
  by (simp add: read_string_set_def string_set_enc_def codec_simps Let_def string_set_ok_def
      list_all_iff)

lemma read_string_set_short:
  assumes "string_set_ok ss" "strict_prefix (avail r) (string_set_enc ss)"
  shows "\<not> is_ok (read_string_set ue r)"
  using prefix_u64 [OF assms(2) [unfolded string_set_enc_def]]
    strc.read_n_short [of ss _ ue] string_set_ok_len [OF assms(1)] assms(1)
  by (auto simp: read_string_set_def string_set_ok_def list_all_iff Let_def is_ok_iff)

interpretation setc: strict_codec string_set_enc "read_string_set ue" string_set_ok
  by unfold_locales (simp_all add: codec_simps read_string_set_short)

end
