(* ===== verification/Protocol.thy ===== *)
theory Protocol
  imports Byte_IO
begin

text \<open>
  The messages of \<open>protocol.rs\<close> and the length-prefixed frames that carry them. Messages are
  encoded by the postcard library, which appears as a pair of functions \<open>to_bytes\<close> and
  \<open>from_bytes\<close>; the frame of a message is its length as four big-endian bytes, then the bytes.
\<close>

section \<open>Messages\<close>

datatype nar_request = ByBlake3 hash32 | ByStorePath string

definition nar_request_new :: "hash32 \<Rightarrow> nar_request" where
  "nar_request_new h = ByBlake3 h"

definition by_store_path :: "string \<Rightarrow> nar_request" where
  "by_store_path p = ByStorePath p"

fun request_blake3 :: "nar_request \<Rightarrow> hash32 option" where
  "request_blake3 (ByBlake3 h) = Some h"
| "request_blake3 (ByStorePath _) = None"

fun request_store_path :: "nar_request \<Rightarrow> string option" where
  "request_store_path (ByBlake3 _) = None"
| "request_store_path (ByStorePath p) = Some p"

record nar_response_header =
  nh_size :: u64
  nh_sha256 :: hash32
  nh_store_path :: string

definition nar_response_header_new :: "u64 \<Rightarrow> hash32 \<Rightarrow> string \<Rightarrow> nar_response_header" where
  "nar_response_header_new sz sha256 store_path =
     \<lparr>nh_size = sz, nh_sha256 = sha256, nh_store_path = store_path\<rparr>"

record nar_info_response =
  ni_store_path :: string
  ni_nar_hash :: hash32
  ni_nar_sha256 :: hash32
  ni_nar_size :: u64
  ni_references :: "string list"
  ni_deriver :: "string option"
  ni_signatures :: "string list"

datatype rpc_request =
  QueryNarInfo string
| QueryAvailable "string list"
| QueryClosure string
| AnnounceAvailable string hash32 u64
| Ping

datatype rpc_response =
  NarInfo "nar_info_response option"
| Available "string list"
| Closure "string list"
| AnnounceAck
| Pong
| RpcError string

record build_output_proto =
  op_store_path :: string
  op_blake3 :: hash32
  op_sha256 :: hash32
  op_nar_size :: u64

record input_path_proto =
  pp_store_path :: string
  pp_blake3 :: hash32

datatype build_queue_request =
  Pull "string list" bool
| Heartbeat u64 string
| BuildLog u64 "byte list" byte
| Complete u64 "build_output_proto list" hash32 hash32
| Fail u64 string

datatype build_queue_response =
  Job u64 hash32 string "string list" "input_path_proto list"
| NoJob
| HeartbeatAck
| CompleteAck
| FailAck
| LogAck
| ResponseError string

text \<open>
  A second set of gossip messages and the topics for them. Nothing sends or receives them: the
  gossip service has messages and a topic of its own.
\<close>

datatype reserved_gossip =
  StoreQuery string u64
| StoreResponse string u64 hash32 u64
| StoreBuilt string hash32 u64
| BuildIntent string "string list" byte hash32
| BuildClaim string hash32 u32
| GcWarning string hash32 u32

definition topic_store_query :: "(byte list \<Rightarrow> hash32) \<Rightarrow> hash32" where
  "topic_store_query blake3 = blake3 (as_bytes ''iroh-nix/store-query'')"

definition topic_build_coordination :: "(byte list \<Rightarrow> hash32) \<Rightarrow> hash32" where
  "topic_build_coordination blake3 = blake3 (as_bytes ''iroh-nix/build-coordination'')"

definition topic_gc_warnings :: "(byte list \<Rightarrow> hash32) \<Rightarrow> hash32" where
  "topic_gc_warnings blake3 = blake3 (as_bytes ''iroh-nix/gc-warnings'')"

definition topic_announcements :: "(byte list \<Rightarrow> hash32) \<Rightarrow> hash32" where
  "topic_announcements blake3 = blake3 (as_bytes ''iroh-nix/announcements'')"

text \<open>The topics are told apart by any hash without collisions.\<close>

lemma topics_distinct:
  "inj blake3 \<Longrightarrow> distinct [topic_store_query blake3, topic_build_coordination blake3, topic_gc_warnings blake3, topic_announcements blake3]"
  by (simp add: topic_store_query_def topic_build_coordination_def topic_gc_warnings_def topic_announcements_def inj_eq)

section \<open>Frames\<close>

definition MAX_MESSAGE_SIZE :: nat where
  "MAX_MESSAGE_SIZE = 1024 * 1024"

text \<open>\<open>len as u32\<close> truncates, as \<open>of_nat\<close> does.\<close>

definition frame :: "byte list \<Rightarrow> byte list" where
  "frame bs = u32_be (of_nat (length bs)) @ bs"

datatype frame_error = NoLength io_error | TooLarge nat | NoBody io_error

text \<open>One frame off the reader: the length, the size check, the body.\<close>

definition read_frame :: "nat \<Rightarrow> reader \<Rightarrow> frame_error + (byte list \<times> reader)" where
  "read_frame limit r =
     (case read_exact 4 r of
        Inl e \<Rightarrow> Inl (NoLength e)
      | Inr (len_buf, r1) \<Rightarrow>
          (let msg_len = unat (u32_of_be len_buf)
           in if msg_len > limit then Inl (TooLarge msg_len)
              else case read_exact msg_len r1 of
                Inl e \<Rightarrow> Inl (NoBody e)
              | Inr (buf, r2) \<Rightarrow> Inr (buf, r2)))"

lemma read_frame_frame [codec_simps]:
  assumes "length bs \<le> limit" "limit < 2 ^ 32"
  shows "read_frame limit (feed (frame bs) r) = Inr (bs, r)"
  using assms by (simp add: read_frame_def frame_def codec_simps unat_of_nat_u32)

lemma read_frame_too_large:
  assumes "limit < length bs" "length bs < 2 ^ 32"
  shows "read_frame limit (feed (frame bs) r) = Inl (TooLarge (length bs))"
  using assms by (simp add: read_frame_def frame_def codec_simps unat_of_nat_u32)

lemma read_frame_Inr:
  assumes "read_frame limit r = Inr (bs, r')"
  shows "\<exists>lb. length lb = 4 \<and> length bs = unat (u32_of_be lb) \<and> length bs \<le> limit
    \<and> r = feed (lb @ bs) r'"
  using assms by (auto simp: read_frame_def read_exact_Inr Let_def split: sum.splits if_splits)

lemma read_frame_shorter:
  "read_frame limit r = Inr (bs, r') \<Longrightarrow> length (avail r') < length (avail r)"
  by (auto dest!: read_frame_Inr)

lemma read_frame_short:
  assumes "length bs \<le> limit" "limit < 2 ^ 32" "strict_prefix (avail r) (frame bs)"
  shows "\<not> is_ok (read_frame limit r)"
proof
  assume "is_ok (read_frame limit r)"
  then obtain bs' r' where "read_frame limit r = Inr (bs', r')" by (auto simp: is_ok_iff)
  then obtain lb where lb: "length lb = 4" "length bs' = unat (u32_of_be lb)"
    and r: "avail r = lb @ bs' @ avail r'"
    by (metis read_frame_Inr avail_feed append.assoc)
  from assms(3) obtain z where z: "z \<noteq> []" "avail r @ z = frame bs"
    by (auto simp: strict_prefix_def prefix_def)
  have "lb @ (bs' @ avail r' @ z) = u32_be (of_nat (length bs)) @ bs"
    using z(2) unfolding r frame_def by simp
  then have "lb = u32_be (of_nat (length bs))" and bs: "bs' @ avail r' @ z = bs"
    using lb(1) by (simp_all add: append_eq_append_conv)
  then have "length bs' = length bs" using lb(2) assms(1,2) by (simp add: unat_of_nat_u32)
  with arg_cong [OF bs, of length] z(1) show False by simp
qed

interpretation framec: strict_codec frame "read_frame MAX_MESSAGE_SIZE"
    "\<lambda>bs. length bs \<le> MAX_MESSAGE_SIZE"
  by unfold_locales (simp_all add: codec_simps read_frame_short MAX_MESSAGE_SIZE_def)

end
