(* ===== verification/Build_Queue.thy ===== *)
theory Build_Queue
  imports Errors
begin

text \<open>
  The requester's build queue of \<open>build.rs\<close>: the record of \<open>BuildQueue\<close> (each mutex is a
  field), its operations as functions on that state, its invariant, and the abstract status
  machine every operation refines. An operation holds its locks until it returns, so it is
  one step. Times are nanoseconds of the monotonic clock, \<open>blake3\<close> is the library's hash.
\<close>

section \<open>Data\<close>

type_synonym endpoint_id = hash32
type_synonym drv_hash = hash32
type_synonym job_id = u64

definition JOB_LEASE_TIMEOUT :: nat where "JOB_LEASE_TIMEOUT = 60 * 10 ^ 9"
definition BUILDER_IDLE_TIMEOUT :: nat where "BUILDER_IDLE_TIMEOUT = 30 * 10 ^ 9"
definition HEARTBEAT_INTERVAL :: nat where "HEARTBEAT_INTERVAL = 10 * 10 ^ 9"

definition from_drv_path :: "(byte list \<Rightarrow> hash32) \<Rightarrow> string \<Rightarrow> drv_hash" where
  "from_drv_path blake3 path = blake3 (as_bytes path)"

record input_path =
  ip_store_path :: string
  ip_blake3 :: hash32

record build_job =
  bj_id :: job_id
  bj_drv_hash :: drv_hash
  bj_drv_path :: string
  bj_system_features :: "string list"
  bj_outputs :: "string list"
  bj_input_paths :: "input_path list"
  bj_submitted_at :: u64

record leased_job =
  lj_job :: build_job
  lj_builder :: endpoint_id
  lj_leased_at :: nat
  lj_last_heartbeat :: nat
  lj_status :: string

record build_output =
  bo_store_path :: string
  bo_blake3 :: hash32
  bo_sha256 :: hash32
  bo_nar_size :: u64

record build_result =
  br_job_id :: job_id
  br_drv_hash :: drv_hash
  br_builder :: hash32
  br_outputs :: "build_output list"
  br_signature_r :: hash32
  br_signature_s :: hash32

datatype job_outcome = Completed build_result | Failed endpoint_id string

record log_entry =
  le_job_id :: u64
  le_data :: "byte list"
  le_stream :: byte

text \<open>
  A sender of a bounded channel: what the channel still holds, and whether the receiver is
  gone. The queue owns the only sender of a channel.
\<close>

record log_channel =
  ch_buffer :: "log_entry list"
  ch_closed :: bool

record build_queue =
  bq_our_id :: endpoint_id
  bq_next_job_id :: u64
  bq_pending :: "build_job list"
  bq_leased :: "(job_id, leased_job) hmap"
  bq_completed :: "(drv_hash, job_outcome) hmap"
  bq_pending_fetch :: "build_result list"
  bq_needed_features :: "string list option"
  bq_log_subscribers :: "(u64, log_channel list) hmap"

section \<open>Operations\<close>

definition new_queue :: "endpoint_id \<Rightarrow> build_queue" where
  "new_queue our_id = \<lparr>bq_our_id = our_id, bq_next_job_id = 1, bq_pending = [], bq_leased = [],
     bq_completed = [], bq_pending_fetch = [], bq_needed_features = None, bq_log_subscribers = []\<rparr>"

text \<open>
  \<open>push\<close>: the release build wraps the counter at \<open>u64::MAX\<close>. \<open>now\<close> is the time stamp of
  \<open>current_timestamp\<close>.
\<close>

definition push :: "(byte list \<Rightarrow> hash32) \<Rightarrow> u64 \<Rightarrow> string \<Rightarrow> string list \<Rightarrow> string list \<Rightarrow>
    input_path list \<Rightarrow> build_queue \<Rightarrow> (job_id \<times> bool) \<times> build_queue" where
  "push blake3 now drv_path features outputs inputs q =
     (let jid = bq_next_job_id q;
          q1 = q\<lparr>bq_next_job_id := jid + 1\<rparr>;
          job = \<lparr>bj_id = jid, bj_drv_hash = from_drv_path blake3 drv_path, bj_drv_path = drv_path,
                 bj_system_features = features, bj_outputs = outputs, bj_input_paths = inputs,
                 bj_submitted_at = now\<rparr>;
          was_empty = (bq_pending q1 = []);
          q2 = q1\<lparr>bq_pending := bq_pending q1 @ [job]\<rparr>
      in if was_empty \<or> bq_needed_features q2 = None
         then ((jid, True), q2\<lparr>bq_needed_features := Some features\<rparr>)
         else ((jid, False), q2))"

definition matches :: "string list \<Rightarrow> build_job \<Rightarrow> bool" where
  "matches builder_features job =
     list_all (\<lambda>required. required \<in> set builder_features) (bj_system_features job)"

definition remove_at :: "nat \<Rightarrow> 'a list \<Rightarrow> 'a list" where
  "remove_at i xs = take i xs @ drop (Suc i) xs"

text \<open>The lease reads the clock twice: \<open>t1\<close> for the lease, \<open>t2\<close> for the heartbeat.\<close>

definition pull :: "nat \<Rightarrow> nat \<Rightarrow> endpoint_id \<Rightarrow> string list \<Rightarrow> build_queue \<Rightarrow>
    build_job option \<times> build_queue" where
  "pull t1 t2 builder builder_features q =
     (case position (matches builder_features) (bq_pending q) of
        None \<Rightarrow> (None, q)
      | Some i \<Rightarrow>
          (let job = bq_pending q ! i;
               leased_job = \<lparr>lj_job = job, lj_builder = builder, lj_leased_at = t1,
                             lj_last_heartbeat = t2, lj_status = ''starting''\<rparr>
           in (Some job, q\<lparr>bq_pending := remove_at i (bq_pending q),
                           bq_leased := hm_insert (bj_id job) leased_job (bq_leased q)\<rparr>)))"

definition heartbeat :: "nat \<Rightarrow> job_id \<Rightarrow> endpoint_id \<Rightarrow> string \<Rightarrow> build_queue \<Rightarrow> bool \<times> build_queue" where
  "heartbeat now jid builder status q =
     (case hm_get jid (bq_leased q) of
        Some job \<Rightarrow>
          if lj_builder job = builder
          then (True, q\<lparr>bq_leased := hm_modify jid
                  (\<lambda>j. j\<lparr>lj_last_heartbeat := now, lj_status := status\<rparr>) (bq_leased q)\<rparr>)
          else (False, q)
      | None \<Rightarrow> (False, q))"

definition complete :: "job_id \<Rightarrow> endpoint_id \<Rightarrow> build_result \<Rightarrow> build_queue \<Rightarrow> bool \<times> build_queue" where
  "complete jid builder result q =
     (case hm_get jid (bq_leased q) of
        Some job \<Rightarrow>
          (let q1 = q\<lparr>bq_leased := hm_remove jid (bq_leased q)\<rparr>
           in if lj_builder job = builder
              then (True, q1\<lparr>bq_pending_fetch := bq_pending_fetch q1 @ [result],
                             bq_completed := hm_insert (bj_drv_hash (lj_job job)) (Completed result)
                               (bq_completed q1)\<rparr>)
              else (False, q1\<lparr>bq_leased := hm_insert jid job (bq_leased q1)\<rparr>))
      | None \<Rightarrow> (False, q))"

definition fail :: "job_id \<Rightarrow> endpoint_id \<Rightarrow> string \<Rightarrow> build_queue \<Rightarrow> bool \<times> build_queue" where
  "fail jid builder error q =
     (case hm_get jid (bq_leased q) of
        Some job \<Rightarrow>
          (let q1 = q\<lparr>bq_leased := hm_remove jid (bq_leased q)\<rparr>
           in if lj_builder job = builder
              then (True, q1\<lparr>bq_completed := hm_insert (bj_drv_hash (lj_job job)) (Failed builder error)
                               (bq_completed q1)\<rparr>)
              else (False, q1\<lparr>bq_leased := hm_insert jid job (bq_leased q1)\<rparr>))
      | None \<Rightarrow> (False, q))"

text \<open>\<open>retain\<close> visits the map in its order; \<open>duration_since\<close> saturates at zero, as nat subtraction does.\<close>

definition expired :: "nat \<Rightarrow> leased_job \<Rightarrow> bool" where
  "expired now l \<longleftrightarrow> now - lj_last_heartbeat l > JOB_LEASE_TIMEOUT"

fun retain_live :: "nat \<Rightarrow> (job_id, leased_job) hmap \<Rightarrow> build_job list \<Rightarrow>
    (job_id, leased_job) hmap \<times> build_job list \<times> job_id list" where
  "retain_live now [] pending = ([], pending, [])"
| "retain_live now ((jid, l) # m) pending =
     (if expired now l
      then (case retain_live now m (lj_job l # pending) of (m', p', out) \<Rightarrow> (m', p', jid # out))
      else (case retain_live now m pending of (m', p', out) \<Rightarrow> ((jid, l) # m', p', out)))"

definition check_timeouts :: "nat \<Rightarrow> build_queue \<Rightarrow> job_id list \<times> build_queue" where
  "check_timeouts now q =
     (case retain_live now (bq_leased q) (bq_pending q) of
        (m, p, out) \<Rightarrow> (out, q\<lparr>bq_leased := m, bq_pending := p\<rparr>))"

definition has_pending_work :: "build_queue \<Rightarrow> bool" where
  "has_pending_work q \<longleftrightarrow> bq_pending q \<noteq> []"

definition needed_features :: "build_queue \<Rightarrow> string list option" where
  "needed_features q = bq_needed_features q"

definition clear_needed_features :: "build_queue \<Rightarrow> build_queue" where
  "clear_needed_features q = q\<lparr>bq_needed_features := None\<rparr>"

record queue_stats =
  pending_count :: nat
  leased_count :: nat
  completed_count :: nat

definition queue_stats_of :: "build_queue \<Rightarrow> queue_stats" where
  "queue_stats_of q = \<lparr>pending_count = length (bq_pending q), leased_count = length (bq_leased q),
     completed_count = length (bq_completed q)\<rparr>"

definition get_outcome :: "drv_hash \<Rightarrow> build_queue \<Rightarrow> job_outcome option" where
  "get_outcome h q = hm_get h (bq_completed q)"

definition list_pending :: "build_queue \<Rightarrow> build_job list" where
  "list_pending q = bq_pending q"

definition list_leased :: "build_queue \<Rightarrow> (job_id \<times> leased_job) list" where
  "list_leased q = bq_leased q"

definition take_pending_fetches :: "build_queue \<Rightarrow> build_result list \<times> build_queue" where
  "take_pending_fetches q = (bq_pending_fetch q, q\<lparr>bq_pending_fetch := []\<rparr>)"

definition has_pending_fetches :: "build_queue \<Rightarrow> bool" where
  "has_pending_fetches q \<longleftrightarrow> bq_pending_fetch q \<noteq> []"

section \<open>Log subscribers\<close>

definition or_default :: "'k \<Rightarrow> ('k, 'v list) hmap \<Rightarrow> ('k, 'v list) hmap" where
  "or_default k m = (case hm_get k m of None \<Rightarrow> hm_insert k [] m | Some _ \<Rightarrow> m)"

definition subscribe_logs :: "u64 \<Rightarrow> build_queue \<Rightarrow> build_queue" where
  "subscribe_logs jid q = q\<lparr>bq_log_subscribers :=
     hm_modify jid (\<lambda>txs. txs @ [\<lparr>ch_buffer = [], ch_closed = False\<rparr>])
       (or_default jid (bq_log_subscribers q))\<rparr>"

definition subscribe_all_logs :: "build_queue \<Rightarrow> build_queue" where
  "subscribe_all_logs q = subscribe_logs 0 q"

text \<open>\<open>try_send\<close> on a channel of capacity 256: refused when it is full or closed.\<close>

definition try_send :: "log_entry \<Rightarrow> log_channel \<Rightarrow> log_channel option" where
  "try_send e c = (if ch_closed c \<or> length (ch_buffer c) \<ge> 256 then None
     else Some (c\<lparr>ch_buffer := ch_buffer c @ [e]\<rparr>))"

definition send_all :: "log_entry \<Rightarrow> log_channel list \<Rightarrow> log_channel list" where
  "send_all e cs = List.map_filter (try_send e) cs"

definition broadcast_log :: "u64 \<Rightarrow> byte list \<Rightarrow> byte \<Rightarrow> build_queue \<Rightarrow> build_queue" where
  "broadcast_log jid data stream q =
     (let entry = \<lparr>le_job_id = jid, le_data = data, le_stream = stream\<rparr>;
          subs = hm_modify jid (send_all entry) (bq_log_subscribers q)
      in q\<lparr>bq_log_subscribers := hm_modify 0 (send_all entry) subs\<rparr>)"

definition cleanup_log_subscribers :: "build_queue \<Rightarrow> build_queue" where
  "cleanup_log_subscribers q = q\<lparr>bq_log_subscribers :=
     filter (\<lambda>(_, v). v \<noteq> []) (map (\<lambda>(k, v). (k, filter (\<lambda>tx. \<not> ch_closed tx) v))
       (bq_log_subscribers q))\<rparr>"

section \<open>Searching the queue\<close>

lemma remove_at_split [simp]: "remove_at (length us) (us @ x # vs) = us @ vs"
  by (simp add: remove_at_def)

lemma retain_live_eq:
  "retain_live now m p =
     (filter (\<lambda>(_, l). \<not> expired now l) m,
      rev (map (\<lambda>(_, l). lj_job l) (filter (\<lambda>(_, l). expired now l) m)) @ p,
      map fst (filter (\<lambda>(_, l). expired now l) m))"
  by (induction now m p rule: retain_live.induct) auto

text \<open>What \<open>pull\<close> does, in terms of the split of the queue at the first match.\<close>

lemma pull_cases:
  obtains
    (none) "\<forall>j \<in> set (bq_pending q). \<not> matches fs j" "pull t1 t2 b fs q = (None, q)"
  | (some) us j vs where
      "bq_pending q = us @ j # vs" "matches fs j" "\<forall>u \<in> set us. \<not> matches fs u"
      "pull t1 t2 b fs q = (Some j, q\<lparr>bq_pending := us @ vs,
         bq_leased := hm_insert (bj_id j) \<lparr>lj_job = j, lj_builder = b, lj_leased_at = t1,
           lj_last_heartbeat = t2, lj_status = ''starting''\<rparr> (bq_leased q)\<rparr>)"
proof (cases "position (matches fs) (bq_pending q)")
  case None
  then show ?thesis by (intro none) (auto simp: position_None [symmetric] pull_def)
next
  case (Some i)
  then obtain us j vs where "bq_pending q = us @ j # vs" "length us = i" "matches fs j"
    "\<forall>u \<in> set us. \<not> matches fs u"
    by (blast dest: position_Some)
  with Some show ?thesis
    by (intro some) (auto simp: pull_def Let_def)
qed

section \<open>The invariant\<close>

definition pending_ids :: "build_queue \<Rightarrow> job_id set" where
  "pending_ids q = bj_id ` set (bq_pending q)"

definition leased_ids :: "build_queue \<Rightarrow> job_id set" where
  "leased_ids q = fst ` set (bq_leased q)"

definition job_ok :: "(byte list \<Rightarrow> hash32) \<Rightarrow> u64 \<Rightarrow> build_job \<Rightarrow> bool" where
  "job_ok blake3 next_id j \<longleftrightarrow>
     0 < bj_id j \<and> bj_id j < next_id \<and> bj_drv_hash j = from_drv_path blake3 (bj_drv_path j)"

definition queue_wf :: "(byte list \<Rightarrow> hash32) \<Rightarrow> build_queue \<Rightarrow> bool" where
  "queue_wf blake3 q \<longleftrightarrow>
     0 < bq_next_job_id q \<and>
     distinct (map bj_id (bq_pending q)) \<and> hm_wf (bq_leased q) \<and>
     pending_ids q \<inter> leased_ids q = {} \<and>
     (\<forall>j \<in> set (bq_pending q). job_ok blake3 (bq_next_job_id q) j) \<and>
     (\<forall>(k, l) \<in> set (bq_leased q). bj_id (lj_job l) = k \<and> job_ok blake3 (bq_next_job_id q) (lj_job l)) \<and>
     hm_wf (bq_completed q) \<and> hm_wf (bq_log_subscribers q)"

lemma queue_wfD:
  assumes "queue_wf blake3 q"
  shows "0 < bq_next_job_id q" "distinct (map bj_id (bq_pending q))" "hm_wf (bq_leased q)"
    "pending_ids q \<inter> leased_ids q = {}"
    "j \<in> set (bq_pending q) \<Longrightarrow> job_ok blake3 (bq_next_job_id q) j"
    "(k, l) \<in> set (bq_leased q) \<Longrightarrow> bj_id (lj_job l) = k"
    "(k, l) \<in> set (bq_leased q) \<Longrightarrow> job_ok blake3 (bq_next_job_id q) (lj_job l)"
  using assms by (auto simp: queue_wf_def)

lemma new_queue_wf: "queue_wf blake3 (new_queue me)"
  by (simp add: queue_wf_def new_queue_def pending_ids_def leased_ids_def)

text \<open>The job counter has room for one more job.\<close>

definition counter_room :: "build_queue \<Rightarrow> bool" where
  "counter_room q \<longleftrightarrow> bq_next_job_id q \<noteq> - 1"

end
