(* ===== verification/Queue_Machine.thy ===== *)
theory Queue_Machine
  imports Build_Queue
begin

text \<open>
  The build queue as a state machine. Abstractly every job has a status; events submit,
  lease, expire and finish it. The queue's steps, with the events they cause, are the
  operations of \<open>Build_Queue\<close> in any order, and the hash maps may be re-ordered between
  them. The refinement lemma maps every run of the queue to a run of the abstract machine,
  on which the accounting of leases is proved. The locale \<open>lease_table\<close> is what a server of
  builder requests promises its clients.
\<close>

section \<open>The abstract machine\<close>

datatype job_status = Unborn | Queued | Leased endpoint_id | Done

datatype queue_event =
  Submit job_id
| Lease job_id endpoint_id
| Expire job_id
| Finish job_id endpoint_id

fun spec_event :: "queue_event \<Rightarrow> (job_id \<Rightarrow> job_status) \<Rightarrow> (job_id \<Rightarrow> job_status) option" where
  "spec_event (Submit j) s = (if s j = Unborn then Some (s(j := Queued)) else None)"
| "spec_event (Lease j b) s = (if s j = Queued then Some (s(j := Leased b)) else None)"
| "spec_event (Expire j) s = (case s j of Leased b \<Rightarrow> Some (s(j := Queued)) | _ \<Rightarrow> None)"
| "spec_event (Finish j b) s = (if s j = Leased b then Some (s(j := Done)) else None)"

fun spec_run :: "queue_event list \<Rightarrow> (job_id \<Rightarrow> job_status) \<Rightarrow> (job_id \<Rightarrow> job_status) option" where
  "spec_run [] s = Some s"
| "spec_run (e # es) s = Option.bind (spec_event e s) (spec_run es)"

definition submits :: "job_id \<Rightarrow> queue_event list \<Rightarrow> nat" where
  "submits j es = length (filter (\<lambda>e. e = Submit j) es)"

definition leases :: "job_id \<Rightarrow> queue_event list \<Rightarrow> nat" where
  "leases j es = length (filter (\<lambda>e. case e of Lease i _ \<Rightarrow> i = j | _ \<Rightarrow> False) es)"

definition expiries :: "job_id \<Rightarrow> queue_event list \<Rightarrow> nat" where
  "expiries j es = length (filter (\<lambda>e. e = Expire j) es)"

definition finishes :: "job_id \<Rightarrow> queue_event list \<Rightarrow> nat" where
  "finishes j es = length (filter (\<lambda>e. case e of Finish i _ \<Rightarrow> i = j | _ \<Rightarrow> False) es)"

lemmas count_defs = submits_def leases_def expiries_def finishes_def

lemma spec_run_append:
  "spec_run (es @ fs) s = Option.bind (spec_run es s) (spec_run fs)"
proof (induction es arbitrary: s)
  case (Cons e es)
  then show ?case by (cases "spec_event e s") auto
qed simp

text \<open>
  The books of one job: every lease is still held, has expired or was finished, and a job
  that starts unborn is submitted and finished at most once.
\<close>

definition held :: "job_status \<Rightarrow> nat" where
  "held st = (case st of Leased _ \<Rightarrow> 1 | _ \<Rightarrow> 0)"

lemma spec_event_books:
  assumes "spec_event e s = Some s'"
  shows "held (s j) + leases j [e] = held (s' j) + expiries j [e] + finishes j [e]"
    and "(if s j = Done then 1 else 0) + finishes j [e] = (if s' j = Done then 1 else 0)"
    and "(if s j = Unborn then 0 else 1) + submits j [e] = (if s' j = Unborn then 0 else 1)"
  using assms
  by (cases e; auto simp: count_defs held_def split: if_splits job_status.splits)+

lemma count_Cons:
  "leases j (e # es) = leases j [e] + leases j es"
  "expiries j (e # es) = expiries j [e] + expiries j es"
  "finishes j (e # es) = finishes j [e] + finishes j es"
  "submits j (e # es) = submits j [e] + submits j es"
  by (simp_all add: count_defs)

lemma spec_run_books:
  assumes "spec_run es s = Some s'"
  shows "held (s j) + leases j es = held (s' j) + expiries j es + finishes j es
    \<and> (if s j = Done then 1 else 0) + finishes j es = (if s' j = Done then 1 else 0)
    \<and> (if s j = Unborn then 0 else 1) + submits j es = (if s' j = Unborn then 0 else 1)"
  using assms
proof (induction es arbitrary: s)
  case Nil
  then show ?case by (simp add: count_defs)
next
  case (Cons e es)
  from Cons.prems obtain s1 where s1: "spec_event e s = Some s1" "spec_run es s1 = Some s'"
    by (auto simp: bind_eq_Some_conv)
  show ?case
    using Cons.IH [OF s1(2)] spec_event_books [OF s1(1), of j]
    unfolding count_Cons [of j e es] by linarith
qed

section \<open>The status the queue gives a job\<close>

definition status_of :: "build_queue \<Rightarrow> job_id \<Rightarrow> job_status" where
  "status_of q j =
     (if j \<in> bj_id ` set (bq_pending q) then Queued
      else case hm_get j (bq_leased q) of
        Some l \<Rightarrow> Leased (lj_builder l)
      | None \<Rightarrow> if 0 < j \<and> j < bq_next_job_id q then Done else Unborn)"

lemma status_of_leased:
  assumes "queue_wf blake3 q" and "hm_get k (bq_leased q) = Some l"
  shows "status_of q k = Leased (lj_builder l)"
proof -
  have "k \<in> leased_ids q" using assms(2) by (auto simp: leased_ids_def dest: hm_get_key)
  with queue_wfD(4) [OF assms(1)] have "k \<notin> bj_id ` set (bq_pending q)"
    by (auto simp: pending_ids_def)
  with assms(2) show ?thesis by (simp add: status_of_def)
qed

lemma status_of_Leased_iff:
  assumes "queue_wf blake3 q"
  shows "status_of q k = Leased b \<longleftrightarrow> (\<exists>l. hm_get k (bq_leased q) = Some l \<and> lj_builder l = b)"
proof
  assume "status_of q k = Leased b"
  then show "\<exists>l. hm_get k (bq_leased q) = Some l \<and> lj_builder l = b"
    by (auto simp: status_of_def split: if_splits option.splits)
qed (auto dest: status_of_leased [OF assms])

section \<open>What each operation does to the status\<close>

lemma push_wf:
  assumes "queue_wf blake3 q" "counter_room q"
  shows "queue_wf blake3 (snd (push blake3 now p fs os ins q))"
proof -
  let ?n = "bq_next_job_id q"
  let ?j = "\<lparr>bj_id = ?n, bj_drv_hash = from_drv_path blake3 p, bj_drv_path = p,
    bj_system_features = fs, bj_outputs = os, bj_input_paths = ins, bj_submitted_at = now\<rparr>"
  have room: "?n \<noteq> - 1" using assms(2) by (simp add: counter_room_def)
  have mono: "job_ok blake3 (?n + 1) j" if "job_ok blake3 ?n j" for j
    using that room by (simp add: job_ok_def word_less_Suc)
  have pos: "0 < ?n" "0 < ?n + 1" "?n < ?n + 1"
    using queue_wfD(1) [OF assms(1)] room by (simp_all add: word_less_Suc)
  have "job_ok blake3 (?n + 1) ?j" using pos by (simp add: job_ok_def)
  moreover have fresh: "?n \<notin> bj_id ` set (bq_pending q)" "?n \<notin> fst ` set (bq_leased q)"
    using queue_wfD(5-7) [OF assms(1)] by (fastforce simp: job_ok_def)+
  ultimately have "queue_wf blake3 (q\<lparr>bq_next_job_id := ?n + 1, bq_pending := bq_pending q @ [?j],
      bq_needed_features := nf\<rparr>)" for nf
    using assms(1) pos(2) mono
    by (auto simp: queue_wf_def pending_ids_def leased_ids_def)
  from this [of "bq_needed_features q"] this [of "Some fs"] show ?thesis
    by (simp add: push_def Let_def)
qed

lemma push_status:
  assumes "queue_wf blake3 q" "counter_room q" and "push blake3 now p fs os ins q = ((jid, ann), q')"
  shows "status_of q jid = Unborn" "status_of q' = (status_of q)(jid := Queued)"
proof -
  let ?n = "bq_next_job_id q"
  have room: "?n \<noteq> - 1" using assms(2) by (simp add: counter_room_def)
  have jid: "jid = ?n" using assms(3) by (auto simp: push_def Let_def split: if_splits)
  have fresh: "?n \<notin> bj_id ` set (bq_pending q)" "?n \<notin> fst ` set (bq_leased q)"
    using queue_wfD(5-7) [OF assms(1)] by (fastforce simp: job_ok_def)+
  then show "status_of q jid = Unborn"
    by (simp add: status_of_def jid hm_get_None_iff [THEN iffD2])
  have fields: "bq_leased q' = bq_leased q" "bq_next_job_id q' = ?n + 1"
    "bj_id ` set (bq_pending q') = insert ?n (bj_id ` set (bq_pending q))"
    using assms(3) by (auto simp: push_def Let_def split: if_splits)
  show "status_of q' = (status_of q)(jid := Queued)"
    by (rule ext)
       (auto simp: status_of_def jid fields word_less_Suc [OF room] split: option.splits)
qed

lemma pull_wf:
  assumes "queue_wf blake3 q"
  shows "queue_wf blake3 (snd (pull t1 t2 b fs q))"
proof (cases rule: pull_cases [of q fs t1 t2 b])
  case none
  with assms show ?thesis by simp
next
  case (some us j vs)
  have "bj_id j \<notin> fst ` set (bq_leased q)" "bj_id j \<notin> bj_id ` (set us \<union> set vs)"
    using queue_wfD(2,4) [OF assms] some(1) by (auto simp: pending_ids_def leased_ids_def)
  moreover have "hm_wf (hm_insert (bj_id j) l (bq_leased q))" for l
    using queue_wfD(3) [OF assms] by simp
  ultimately show ?thesis
    using assms some(1)
    by (auto simp: some(4) queue_wf_def pending_ids_def leased_ids_def set_hm_insert)
qed

lemma pull_status:
  assumes "queue_wf blake3 q" "pull t1 t2 b fs q = (res, q')"
  shows "case res of None \<Rightarrow> q' = q
    | Some j \<Rightarrow> status_of q (bj_id j) = Queued \<and> status_of q' = (status_of q)(bj_id j := Leased b)"
proof (cases rule: pull_cases [of q fs t1 t2 b])
  case none
  with assms(2) show ?thesis by simp
next
  case (some us j vs)
  have "bj_id j \<notin> bj_id ` (set us \<union> set vs)"
    using queue_wfD(2) [OF assms(1)] some(1) by auto
  with some assms(2) show ?thesis
    by (auto simp: status_of_def fun_eq_iff)
qed

lemma heartbeat_result:
  assumes "queue_wf blake3 q"
  shows "fst (heartbeat now jid b st q) \<longleftrightarrow> status_of q jid = Leased b"
  by (simp add: status_of_Leased_iff [OF assms] heartbeat_def split: option.splits)

lemma status_of_modify:
  assumes "\<And>l. lj_builder (f l) = lj_builder l"
  shows "status_of (q\<lparr>bq_leased := hm_modify k f (bq_leased q)\<rparr>) = status_of q"
  by (rule ext) (auto simp: status_of_def assms split: option.splits if_splits)

lemma heartbeat_status: "status_of (snd (heartbeat now jid b st q)) = status_of q"
  by (simp add: heartbeat_def status_of_modify split: option.splits)

lemma heartbeat_wf:
  assumes "queue_wf blake3 q"
  shows "queue_wf blake3 (snd (heartbeat now jid b st q))"
proof -
  let ?m = "hm_modify jid (\<lambda>j. j\<lparr>lj_last_heartbeat := now, lj_status := st\<rparr>) (bq_leased q)"
  have "\<exists>l'. (k, l') \<in> set (bq_leased q) \<and> lj_job l = lj_job l'" if "(k, l) \<in> set ?m" for k l
    using that by (auto simp: set_hm_modify split: if_splits)
  then have "queue_wf blake3 (q\<lparr>bq_leased := ?m\<rparr>)"
    using assms by (fastforce simp: queue_wf_def pending_ids_def leased_ids_def)
  with assms show ?thesis
    by (auto simp: heartbeat_def split: option.splits)
qed

text \<open>The invariant and the status see the lease table as a set.\<close>

lemma hm_get_set: "hm_wf m \<Longrightarrow> hm_wf m' \<Longrightarrow> set m = set m' \<Longrightarrow> hm_get k m = hm_get k m'"
  unfolding hm_get_def hm_wf_def by (metis map_of_inject_set)

lemma relayout_leased:
  assumes "queue_wf blake3 q" "hm_wf m" "set m = set (bq_leased q)"
  shows "queue_wf blake3 (q\<lparr>bq_leased := m\<rparr>)" "status_of (q\<lparr>bq_leased := m\<rparr>) = status_of q"
proof -
  show "queue_wf blake3 (q\<lparr>bq_leased := m\<rparr>)"
    using assms by (auto simp: queue_wf_def pending_ids_def leased_ids_def)
  show "status_of (q\<lparr>bq_leased := m\<rparr>) = status_of q"
    using hm_get_set [OF assms(2) queue_wfD(3) [OF assms(1)] assms(3)]
    by (auto simp: status_of_def fun_eq_iff)
qed

lemma reinsert_leased:
  assumes "queue_wf blake3 q" "hm_get k (bq_leased q) = Some l"
  shows "hm_wf (hm_insert k l (hm_remove k (bq_leased q)))"
    "set (hm_insert k l (hm_remove k (bq_leased q))) = set (bq_leased q)"
proof -
  show "hm_wf (hm_insert k l (hm_remove k (bq_leased q)))"
    using queue_wfD(3) [OF assms(1)] by simp
  show "set (hm_insert k l (hm_remove k (bq_leased q))) = set (bq_leased q)"
    using assms(2) queue_wfD(3) [OF assms(1)]
    by (auto simp: set_hm_insert set_hm_remove hm_get_Some_iff hm_wf_def dest: eq_key_imp_eq_value)
qed

text \<open>Taking a lease away, as \<open>complete\<close> and \<open>fail\<close> do, leaves the job done.\<close>

lemma unlease:
  assumes "queue_wf blake3 q" "hm_get k (bq_leased q) = Some l" and "hm_wf c"
  shows "queue_wf blake3 (q\<lparr>bq_leased := hm_remove k (bq_leased q), bq_pending_fetch := pf,
      bq_completed := c\<rparr>)"
    and "status_of (q\<lparr>bq_leased := hm_remove k (bq_leased q), bq_pending_fetch := pf,
      bq_completed := c\<rparr>) = (status_of q)(k := Done)"
proof -
  have in_m: "(k, l) \<in> set (bq_leased q)" using assms(2) by (rule hm_get_SomeD)
  show "queue_wf blake3 (q\<lparr>bq_leased := hm_remove k (bq_leased q), bq_pending_fetch := pf,
      bq_completed := c\<rparr>)"
    using assms by (auto simp: queue_wf_def pending_ids_def leased_ids_def set_hm_remove)
  have "k \<notin> bj_id ` set (bq_pending q)" "0 < k" "k < bq_next_job_id q"
    using queue_wfD(4) [OF assms(1)] queue_wfD(6,7) [OF assms(1) in_m] in_m
    by (force simp: pending_ids_def leased_ids_def job_ok_def)+
  then show "status_of (q\<lparr>bq_leased := hm_remove k (bq_leased q), bq_pending_fetch := pf,
      bq_completed := c\<rparr>) = (status_of q)(k := Done)"
    by (auto simp: status_of_def fun_eq_iff split: option.splits)
qed

lemma complete_eqs:
  assumes "queue_wf blake3 q"
  shows "fst (complete jid b r q) \<longleftrightarrow> status_of q jid = Leased b"
    and "queue_wf blake3 (snd (complete jid b r q))"
    and "status_of (snd (complete jid b r q)) =
      (if fst (complete jid b r q) then (status_of q)(jid := Done) else status_of q)"
proof -
  have c: "hm_wf (hm_insert h v (bq_completed q))" for h v
    using assms by (simp add: queue_wf_def)
  note rules = unlease [OF assms _ c] relayout_leased [OF assms] reinsert_leased [OF assms]
  show "fst (complete jid b r q) \<longleftrightarrow> status_of q jid = Leased b"
    by (simp add: status_of_Leased_iff [OF assms] complete_def Let_def split: option.splits)
  show "queue_wf blake3 (snd (complete jid b r q))"
    using assms rules by (simp add: complete_def Let_def split: option.splits)
  show "status_of (snd (complete jid b r q)) =
      (if fst (complete jid b r q) then (status_of q)(jid := Done) else status_of q)"
    using rules by (simp add: complete_def Let_def split: option.splits)
qed

lemma fail_eqs:
  assumes "queue_wf blake3 q"
  shows "fst (fail jid b e q) \<longleftrightarrow> status_of q jid = Leased b"
    and "queue_wf blake3 (snd (fail jid b e q))"
    and "status_of (snd (fail jid b e q)) =
      (if fst (fail jid b e q) then (status_of q)(jid := Done) else status_of q)"
proof -
  have c: "hm_wf (hm_insert h v (bq_completed q))" for h v
    using assms by (simp add: queue_wf_def)
  note rules = unlease [OF assms _ c, where pf = "bq_pending_fetch q"] relayout_leased [OF assms]
    reinsert_leased [OF assms]
  show "fst (fail jid b e q) \<longleftrightarrow> status_of q jid = Leased b"
    by (simp add: status_of_Leased_iff [OF assms] fail_def Let_def split: option.splits)
  show "queue_wf blake3 (snd (fail jid b e q))"
    using assms rules by (simp add: fail_def Let_def split: option.splits)
  show "status_of (snd (fail jid b e q)) =
      (if fst (fail jid b e q) then (status_of q)(jid := Done) else status_of q)"
    using rules by (simp add: fail_def Let_def split: option.splits)
qed

section \<open>Expiring leases\<close>

lemma spec_run_expire:
  assumes "distinct js" "\<forall>j \<in> set js. \<exists>b. s j = Leased b"
  shows "spec_run (map Expire js) s = Some (\<lambda>j. if j \<in> set js then Queued else s j)"
  using assms
proof (induction js arbitrary: s)
  case (Cons i js)
  then obtain b where "s i = Leased b" by auto
  moreover have "\<forall>j \<in> set js. \<exists>b. (s(i := Queued)) j = Leased b" using Cons.prems by auto
  moreover have "(\<lambda>j. if j \<in> set js then Queued else (s(i := Queued)) j) =
      (\<lambda>j. if j \<in> set (i # js) then Queued else s j)"
    by (simp add: fun_eq_iff)
  ultimately show ?case using Cons.IH [of "s(i := Queued)"] Cons.prems(1)
    by (simp add: fun_upd_def)
qed simp

definition expired_ids :: "nat \<Rightarrow> build_queue \<Rightarrow> job_id set" where
  "expired_ids now q = {k. \<exists>l. (k, l) \<in> set (bq_leased q) \<and> expired now l}"

lemma check_timeouts_out: "set (fst (check_timeouts now q)) = expired_ids now q"
  by (force simp: check_timeouts_def retain_live_eq expired_ids_def)

lemma check_timeouts_pending_ids:
  assumes "queue_wf blake3 q"
  shows "map bj_id (bq_pending (snd (check_timeouts now q))) =
    rev (fst (check_timeouts now q)) @ map bj_id (bq_pending q)"
  using queue_wfD(6) [OF assms]
  by (auto simp: check_timeouts_def retain_live_eq rev_map intro!: arg_cong [where f = rev])

lemma check_timeouts_wf:
  assumes "queue_wf blake3 q"
  shows "queue_wf blake3 (snd (check_timeouts now q))"
proof -
  let ?q = "snd (check_timeouts now q)" and ?out = "fst (check_timeouts now q)"
  have m: "bq_leased ?q = filter (\<lambda>(_, l). \<not> expired now l) (bq_leased q)"
    and p: "bq_pending ?q =
      rev (map (\<lambda>(_, l). lj_job l) (filter (\<lambda>(_, l). expired now l) (bq_leased q))) @ bq_pending q"
    and same: "bq_next_job_id ?q = bq_next_job_id q" "bq_completed ?q = bq_completed q"
      "bq_log_subscribers ?q = bq_log_subscribers q"
    by (simp_all add: check_timeouts_def retain_live_eq)
  have keys: "distinct (map fst (bq_leased q))"
    using queue_wfD(3) [OF assms] by (simp add: hm_wf_def)
  then have wf: "hm_wf (bq_leased ?q)" "distinct ?out"
    by (auto simp: m hm_wf_def check_timeouts_def retain_live_eq distinct_map_filter)
  have one: "\<not> expired now l'" if "(k, l) \<in> set (bq_leased q)" "\<not> expired now l"
      "(k, l') \<in> set (bq_leased q)" for k l l'
    using eq_key_imp_eq_value [OF keys that(1,3)] that(2) by simp
  have out: "set ?out \<subseteq> leased_ids q" "leased_ids ?q \<subseteq> leased_ids q"
    by (force simp: check_timeouts_out expired_ids_def leased_ids_def m)+
  have gone: "set ?out \<inter> leased_ids ?q = {}"
  proof -
    have False if "k \<in> set ?out" "k \<in> leased_ids ?q" for k
    proof -
      from that(1) obtain l where "(k, l) \<in> set (bq_leased q)" "expired now l"
        by (auto simp: check_timeouts_out expired_ids_def)
      moreover from that(2) obtain l' where "(k, l') \<in> set (bq_leased q)" "\<not> expired now l'"
        by (auto simp: leased_ids_def m)
      ultimately show False using one by blast
    qed
    then show ?thesis by blast
  qed
  have "distinct (map bj_id (bq_pending ?q))"
    using wf(2) queue_wfD(2,4) [OF assms] out(1)
    by (auto simp: check_timeouts_pending_ids [OF assms] pending_ids_def)
  moreover have "pending_ids ?q \<inter> leased_ids ?q = {}"
    using arg_cong [OF check_timeouts_pending_ids [OF assms], of set now] out gone queue_wfD(4) [OF assms]
    by (auto simp: pending_ids_def)
  ultimately show ?thesis
    using assms wf(1) by (auto simp: queue_wf_def same p m)
qed

lemma check_timeouts_status:
  assumes "queue_wf blake3 q"
  shows "spec_run (map Expire (fst (check_timeouts now q))) (status_of q) =
    Some (status_of (snd (check_timeouts now q)))"
proof -
  let ?q = "snd (check_timeouts now q)" and ?out = "fst (check_timeouts now q)"
  have keys: "distinct (map fst (bq_leased q))"
    using queue_wfD(3) [OF assms] by (simp add: hm_wf_def)
  have "distinct ?out"
    by (simp add: check_timeouts_def retain_live_eq distinct_map_filter keys)
  moreover have leased: "\<exists>b. status_of q j = Leased b" if "j \<in> set ?out" for j
    using that queue_wfD(3) [OF assms]
    by (auto simp: check_timeouts_out expired_ids_def status_of_Leased_iff [OF assms] hm_get_Some_iff)
  moreover have "status_of ?q j = (if j \<in> set ?out then Queued else status_of q j)" for j
  proof -
    have pend: "j \<in> bj_id ` set (bq_pending ?q) \<longleftrightarrow> j \<in> set ?out \<or> j \<in> bj_id ` set (bq_pending q)"
      using arg_cong [OF check_timeouts_pending_ids [OF assms], of set now] by auto
    have same: "bq_next_job_id ?q = bq_next_job_id q"
      by (simp add: check_timeouts_def retain_live_eq)
    have "hm_get j (bq_leased ?q) = hm_get j (bq_leased q)" if "j \<notin> set ?out"
    proof -
      have "(j, l) \<in> set (bq_leased ?q) \<longleftrightarrow> (j, l) \<in> set (bq_leased q)" for l
        using that by (auto simp: check_timeouts_out expired_ids_def)
          (auto simp: check_timeouts_def retain_live_eq)
      then show ?thesis
        using queue_wfD(3) [OF assms] queue_wfD(3) [OF check_timeouts_wf [OF assms, of now]]
        by (metis hm_get_Some_iff not_None_eq)
    qed
    then show ?thesis
      by (auto simp: status_of_def pend same)
  qed
  ultimately show ?thesis
    by (subst spec_run_expire) (auto simp: fun_eq_iff)
qed

section \<open>Runs of the queue\<close>

text \<open>
  One operation of the queue with its arguments. \<open>Relayout\<close> re-orders the hash maps and
  \<open>Receivers\<close> is what the receiving ends of the log channels do, neither of which the queue
  controls.
\<close>

datatype queue_op =
  Op_push u64 string "string list" "string list" "input_path list"
| Op_pull nat nat endpoint_id "string list"
| Op_heartbeat nat job_id endpoint_id string
| Op_complete job_id endpoint_id build_result
| Op_fail job_id endpoint_id string
| Op_check_timeouts nat
| Op_clear_needed_features
| Op_take_pending_fetches
| Op_subscribe_logs u64
| Op_broadcast_log u64 "byte list" byte
| Op_cleanup_log_subscribers
| Receivers "(u64, log_channel list) hmap"
| Relayout "(job_id, leased_job) hmap" "(drv_hash, job_outcome) hmap" "(u64, log_channel list) hmap"

fun op_enabled :: "queue_op \<Rightarrow> build_queue \<Rightarrow> bool" where
  "op_enabled (Op_push _ _ _ _ _) q = counter_room q"
| "op_enabled (Receivers subs) q = (map fst subs = map fst (bq_log_subscribers q))"
| "op_enabled (Relayout m c subs) q =
     (mset m = mset (bq_leased q) \<and> mset c = mset (bq_completed q) \<and> mset subs = mset (bq_log_subscribers q))"
| "op_enabled _ q = True"

fun do_op :: "(byte list \<Rightarrow> hash32) \<Rightarrow> queue_op \<Rightarrow> build_queue \<Rightarrow> queue_event list \<times> build_queue" where
  "do_op blake3 (Op_push now p fs os ins) q =
     (case push blake3 now p fs os ins q of ((jid, _), q') \<Rightarrow> ([Submit jid], q'))"
| "do_op blake3 (Op_pull t1 t2 b fs) q =
     (case pull t1 t2 b fs q of (None, q') \<Rightarrow> ([], q') | (Some j, q') \<Rightarrow> ([Lease (bj_id j) b], q'))"
| "do_op blake3 (Op_heartbeat now jid b st) q = ([], snd (heartbeat now jid b st q))"
| "do_op blake3 (Op_complete jid b r) q =
     (case complete jid b r q of (ok, q') \<Rightarrow> (if ok then [Finish jid b] else [], q'))"
| "do_op blake3 (Op_fail jid b e) q =
     (case fail jid b e q of (ok, q') \<Rightarrow> (if ok then [Finish jid b] else [], q'))"
| "do_op blake3 (Op_check_timeouts now) q = (case check_timeouts now q of (out, q') \<Rightarrow> (map Expire out, q'))"
| "do_op blake3 Op_clear_needed_features q = ([], clear_needed_features q)"
| "do_op blake3 Op_take_pending_fetches q = ([], snd (take_pending_fetches q))"
| "do_op blake3 (Op_subscribe_logs jid) q = ([], subscribe_logs jid q)"
| "do_op blake3 (Op_broadcast_log jid d st) q = ([], broadcast_log jid d st q)"
| "do_op blake3 Op_cleanup_log_subscribers q = ([], cleanup_log_subscribers q)"
| "do_op blake3 (Receivers subs) q = ([], q\<lparr>bq_log_subscribers := subs\<rparr>)"
| "do_op blake3 (Relayout m c subs) q =
     ([], q\<lparr>bq_leased := m, bq_completed := c, bq_log_subscribers := subs\<rparr>)"

inductive queue_run :: "(byte list \<Rightarrow> hash32) \<Rightarrow> build_queue \<Rightarrow> queue_event list \<Rightarrow> build_queue \<Rightarrow> bool"
  for blake3 q where
  start: "queue_run blake3 q [] q"
| step: "queue_run blake3 q es q1 \<Longrightarrow> op_enabled op q1 \<Longrightarrow> do_op blake3 op q1 = (fs, q2) \<Longrightarrow>
    queue_run blake3 q (es @ fs) q2"

inductive_cases queue_runE: "queue_run blake3 q es q'"

lemma hm_wf_or_default [simp]: "hm_wf m \<Longrightarrow> hm_wf (or_default k m)"
  by (simp add: or_default_def split: option.split)

text \<open>The log subscribers are no part of a job's life.\<close>

lemma queue_wf_subscribers:
  "queue_wf blake3 q \<Longrightarrow> hm_wf subs \<Longrightarrow> queue_wf blake3 (q\<lparr>bq_log_subscribers := subs\<rparr>)"
  by (simp add: queue_wf_def pending_ids_def leased_ids_def)

lemma queue_wf_fields:
  "queue_wf blake3 q \<Longrightarrow> queue_wf blake3 (q\<lparr>bq_needed_features := nf\<rparr>)"
  "queue_wf blake3 q \<Longrightarrow> queue_wf blake3 (q\<lparr>bq_pending_fetch := pf\<rparr>)"
  by (simp_all add: queue_wf_def pending_ids_def leased_ids_def)

lemma status_of_subscribers [frame_simps]:
  "status_of (q\<lparr>bq_log_subscribers := subs\<rparr>) = status_of q"
  "status_of (q\<lparr>bq_needed_features := nf\<rparr>) = status_of q"
  "status_of (q\<lparr>bq_pending_fetch := pf\<rparr>) = status_of q"
  "status_of (q\<lparr>bq_completed := c\<rparr>) = status_of q"
  by (auto simp: status_of_def fun_eq_iff)

lemma log_ops_wf:
  assumes "queue_wf blake3 q"
  shows "queue_wf blake3 (subscribe_logs jid q)" "queue_wf blake3 (broadcast_log jid d st q)"
    "queue_wf blake3 (cleanup_log_subscribers q)"
proof -
  have subs: "hm_wf (bq_log_subscribers q)" using assms by (simp add: queue_wf_def)
  then show "queue_wf blake3 (subscribe_logs jid q)" "queue_wf blake3 (broadcast_log jid d st q)"
    by (simp_all add: subscribe_logs_def broadcast_log_def Let_def queue_wf_subscribers assms)
  have "map fst (map (\<lambda>(k, v). (k, filter (\<lambda>tx. \<not> ch_closed tx) v)) m) = map fst m"
    for m :: "(u64, log_channel list) hmap"
    by (simp add: comp_def case_prod_beta)
  with subs show "queue_wf blake3 (cleanup_log_subscribers q)"
    by (simp add: cleanup_log_subscribers_def queue_wf_subscribers assms hm_wf_def distinct_map_filter
        del: map_map)
qed

lemma log_ops_status [frame_simps]:
  "status_of (subscribe_logs jid q) = status_of q"
  "status_of (broadcast_log jid d st q) = status_of q"
  "status_of (cleanup_log_subscribers q) = status_of q"
  by (simp_all add: subscribe_logs_def broadcast_log_def cleanup_log_subscribers_def Let_def frame_simps)

section \<open>Every run refines the abstract machine\<close>

lemma do_op_refines:
  assumes "queue_wf blake3 q" "op_enabled op q" "do_op blake3 op q = (es, q')"
  shows "queue_wf blake3 q' \<and> spec_run es (status_of q) = Some (status_of q')"
proof (cases op)
  case (Op_push now p fs os ins)
  then obtain jid ann where "push blake3 now p fs os ins q = ((jid, ann), q')" "es = [Submit jid]"
    using assms(3) by (auto split: prod.splits)
  with assms Op_push push_status [OF assms(1) _ this(1)] push_wf [OF assms(1), of now p fs os ins]
  show ?thesis by simp
next
  case (Op_pull t1 t2 b fs)
  with assms pull_status [OF assms(1), of t1 t2 b fs] pull_wf [OF assms(1), of t1 t2 b fs]
  show ?thesis by (force split: prod.splits option.splits)
next
  case (Op_heartbeat now jid b st)
  with assms heartbeat_wf heartbeat_status show ?thesis by auto
next
  case (Op_complete jid b r)
  with assms complete_eqs [OF assms(1), of jid b r] show ?thesis
    by (auto split: prod.splits)
next
  case (Op_fail jid b e)
  with assms fail_eqs [OF assms(1), of jid b e] show ?thesis
    by (auto split: prod.splits)
next
  case (Op_check_timeouts now)
  with assms check_timeouts_wf [OF assms(1), of now] check_timeouts_status [OF assms(1), of now]
  show ?thesis by (auto split: prod.splits)
next
  case (Receivers subs)
  with assms have "hm_wf subs" by (simp add: queue_wf_def hm_wf_def)
  with Receivers assms show ?thesis by (auto simp: queue_wf_subscribers frame_simps)
next
  case (Relayout m c subs)
  with assms have perm: "hm_wf m" "hm_wf c" "hm_wf subs" "set m = set (bq_leased q)"
    by (auto simp: queue_wf_def dest: hm_wf_perm mset_eq_setD)
  have "queue_wf blake3 ((q\<lparr>bq_leased := m\<rparr>)\<lparr>bq_completed := c, bq_log_subscribers := subs\<rparr>)"
    using relayout_leased(1) [OF assms(1) perm(1,4)] perm(2,3)
    by (simp add: queue_wf_def pending_ids_def leased_ids_def)
  moreover have "status_of (q\<lparr>bq_leased := m, bq_completed := c, bq_log_subscribers := subs\<rparr>) = status_of q"
    using relayout_leased(2) [OF assms(1) perm(1,4)] by (simp add: frame_simps)
  ultimately show ?thesis using Relayout assms(3) by auto
next
  case Op_clear_needed_features
  with assms queue_wf_fields show ?thesis by (auto simp: frame_simps clear_needed_features_def)
next
  case Op_take_pending_fetches
  with assms queue_wf_fields show ?thesis by (auto simp: frame_simps take_pending_fetches_def)
qed (use assms log_ops_wf [OF assms(1)] in \<open>auto simp: frame_simps\<close>)

lemma queue_run_refines:
  assumes "queue_run blake3 q es q'" "queue_wf blake3 q"
  shows "queue_wf blake3 q' \<and> spec_run es (status_of q) = Some (status_of q')"
  using assms
proof (induction rule: queue_run.induct)
  case (step es q1 op fs q2)
  then show ?case
    using do_op_refines [of blake3 q1 op fs q2] by (simp add: spec_run_append)
qed simp

lemma status_of_new: "status_of (new_queue me) j = Unborn"
  by (auto simp: status_of_def new_queue_def word_less_nat_alt)

section \<open>The contract of a server of builder requests\<close>

text \<open>
  What builders rely on: an action of builder \<open>b\<close> changes the status of a job only by leasing
  a queued job to \<open>b\<close>, or by finishing a job that \<open>b\<close> holds.
\<close>

locale lease_table =
  fixes inv :: "'q \<Rightarrow> bool"
    and status :: "'q \<Rightarrow> job_id \<Rightarrow> job_status"
    and act :: "endpoint_id \<Rightarrow> 'a \<Rightarrow> 'q \<Rightarrow> 'q"
  assumes act_inv: "inv q \<Longrightarrow> inv (act b a q)"
    and act_status: "inv q \<Longrightarrow> status (act b a q) j = status q j
      \<or> status q j = Queued \<and> status (act b a q) j = Leased b
      \<or> status q j = Leased b \<and> status (act b a q) j = Done"
begin

lemma session_inv: "inv q \<Longrightarrow> inv (fold (\<lambda>(b, a). act b a) xs q)"
  by (induction xs arbitrary: q) (auto simp: act_inv)

lemma foreign_lease:
  "inv q \<Longrightarrow> status q j = Leased b \<Longrightarrow> b \<notin> fst ` set xs \<Longrightarrow>
     status (fold (\<lambda>(b, a). act b a) xs q) j = Leased b"
proof (induction xs arbitrary: q)
  case (Cons x xs)
  obtain b' a where x: "x = (b', a)" by (cases x)
  with Cons.prems have "status (act b' a q) j = Leased b"
    using act_status [of q b' a j] by auto
  with Cons x show ?case by (simp add: act_inv)
qed simp

lemma fixed_status:
  "inv q \<Longrightarrow> st \<in> {Done, Unborn} \<Longrightarrow> status q j = st \<Longrightarrow>
     status (fold (\<lambda>(b, a). act b a) xs q) j = st"
proof (induction xs arbitrary: q)
  case (Cons x xs)
  obtain b' a where x: "x = (b', a)" by (cases x)
  with Cons.prems have "status (act b' a q) j = st"
    using act_status [of q b' a j] by auto
  with Cons x show ?case by (simp add: act_inv)
qed simp

end

section \<open>Properties of the queue\<close>

text \<open>A short run for the witnesses: one job is pushed, pulled and completed.\<close>

definition no_hash :: "byte list \<Rightarrow> hash32" where
  "no_hash bs = replicate 32 0"

definition sample_job :: build_job where
  "sample_job = \<lparr>bj_id = 1, bj_drv_hash = no_hash [], bj_drv_path = ''/nix/store/a.drv'',
     bj_system_features = [''kvm''], bj_outputs = [], bj_input_paths = [], bj_submitted_at = 0\<rparr>"

definition sample_pushed :: build_queue where
  "sample_pushed = (new_queue [])\<lparr>bq_next_job_id := 2, bq_pending := [sample_job],
     bq_needed_features := Some [''kvm'']\<rparr>"

definition sample_leased :: build_queue where
  "sample_leased = sample_pushed\<lparr>bq_pending := [], bq_leased :=
     [(1, \<lparr>lj_job = sample_job, lj_builder = [7], lj_leased_at = 5, lj_last_heartbeat = 5,
           lj_status = ''starting''\<rparr>)]\<rparr>"

lemmas sample_defs = sample_job_def sample_pushed_def sample_leased_def new_queue_def no_hash_def

lemma sample_run:
  "queue_run no_hash (new_queue []) [Submit 1] sample_pushed"
  "queue_run no_hash (new_queue []) [Submit 1, Lease 1 [7]] sample_leased"
proof -
  have "queue_run no_hash (new_queue []) ([] @ [Submit 1]) sample_pushed"
    by (rule queue_run.step [OF queue_run.start,
          where op = "Op_push 0 ''/nix/store/a.drv'' [''kvm''] [] []"])
       (simp_all add: sample_defs counter_room_def push_def from_drv_path_def as_bytes_def)
  then show 1: "queue_run no_hash (new_queue []) [Submit 1] sample_pushed" by simp
  have "queue_run no_hash (new_queue []) ([Submit 1] @ [Lease 1 [7]]) sample_leased"
    by (rule queue_run.step [OF 1, where op = "Op_pull 5 5 [7] [''kvm'']"])
       (simp_all add: sample_defs pull_def matches_def remove_at_def hm_insert_def hm_remove_def Let_def)
  then show "queue_run no_hash (new_queue []) [Submit 1, Lease 1 [7]] sample_leased" by simp
qed

lemma sample_wf: "queue_wf no_hash sample_pushed" "queue_wf no_hash sample_leased"
  using sample_run queue_run_refines new_queue_wf by blast+

text \<open>
  C2: every run of the build queue from the empty queue, whatever the order of pushes, pulls,
  heartbeats, completions, failures, timeouts and re-ordering of its maps, is a run of the
  abstract job-status machine: a job is leased only while it is queued, and only the builder
  that holds the lease finishes it.
\<close>

theorem queue_refines_spec:
  assumes "queue_run blake3 (new_queue me) es q"
  shows "spec_run es (\<lambda>_. Unborn) = Some (status_of q)"
proof -
  have "status_of (new_queue me) = (\<lambda>_. Unborn)" by (simp add: fun_eq_iff status_of_new)
  with queue_run_refines [OF assms new_queue_wf] show ?thesis by simp
qed

theorem queue_refines_spec_witness:
  "spec_run [Submit 1, Lease 1 [7]] (\<lambda>_. Unborn) = Some (status_of sample_leased)"
  by (rule queue_refines_spec [OF sample_run(2)])

text \<open>
  C12: in every reachable state the queue is well formed (job ids are unique over the pending
  list and the lease table, below the counter, each lease is filed under its job's id and
  each job carries the hash of its derivation path), every lease ever given is still held, has
  expired or was finished, and a job is submitted and finished at most once.
\<close>

theorem queue_accounting:
  assumes "queue_run blake3 (new_queue me) es q"
  shows "queue_wf blake3 q \<and>
    leases j es = held (status_of q j) + expiries j es + finishes j es \<and>
    finishes j es = (if status_of q j = Done then 1 else 0) \<and>
    submits j es = (if status_of q j = Unborn then 0 else 1)"
  using queue_run_refines [OF assms new_queue_wf]
    spec_run_books [of es "status_of (new_queue me)" "status_of q" j]
  by (simp add: status_of_new held_def)

theorem queue_accounting_witness:
  "queue_wf no_hash sample_leased \<and> leases 1 [Submit 1, Lease 1 [7]] = held (status_of sample_leased 1)"
  using queue_accounting [OF sample_run(2), of 1] by (simp add: count_defs)

text \<open>
  \<open>pull\<close> leases the first pending job all of whose required features the builder has,
  leaves the other jobs in their order and files the lease under the job's id with the builder
  and the status "starting"; when no job matches it changes nothing.
\<close>

theorem pull_first_match:
  "(list_all (\<lambda>j. \<not> matches fs j) (bq_pending q) \<and> pull t1 t2 b fs q = (None, q)) \<noteq>
   (\<exists>us j vs. bq_pending q = us @ j # vs \<and> set (bj_system_features j) \<subseteq> set fs \<and>
      list_all (\<lambda>u. \<not> matches fs u) us \<and>
      pull t1 t2 b fs q = (Some j, q\<lparr>bq_pending := us @ vs, bq_leased := hm_insert (bj_id j)
        \<lparr>lj_job = j, lj_builder = b, lj_leased_at = t1, lj_last_heartbeat = t2,
         lj_status = ''starting''\<rparr> (bq_leased q)\<rparr>))"
proof (cases rule: pull_cases [of q fs t1 t2 b])
  case none
  then show ?thesis by (auto simp: list_all_iff)
next
  case (some us j vs)
  then have "set (bj_system_features j) \<subseteq> set fs" by (auto simp: matches_def list_all_iff)
  with some show ?thesis by (auto simp: list_all_iff simp del: fun_upd_apply)
qed

text \<open>
  A completion is accepted exactly when the caller holds the job's lease. Then the job is
  done, its result joins the results to fetch and is the outcome stored under the job's
  derivation hash; otherwise neither the outcomes, the results to fetch nor any job's status
  changes.
\<close>

theorem complete_by_holder:
  assumes "queue_wf blake3 q" "complete jid b r q = (ok, q')"
  shows "ok = (status_of q jid = Leased b) \<and> queue_wf blake3 q' \<and>
    (if ok then status_of q' = (status_of q)(jid := Done) \<and>
                bq_pending_fetch q' = bq_pending_fetch q @ [r] \<and>
                (\<exists>l. hm_get jid (bq_leased q) = Some l \<and>
                   get_outcome (bj_drv_hash (lj_job l)) q' = Some (Completed r))
     else status_of q' = status_of q \<and> bq_completed q' = bq_completed q \<and>
          bq_pending_fetch q' = bq_pending_fetch q)"
proof (cases ok)
  case True
  with assms(2) obtain l where "hm_get jid (bq_leased q) = Some l"
      "bq_pending_fetch q' = bq_pending_fetch q @ [r]"
      "get_outcome (bj_drv_hash (lj_job l)) q' = Some (Completed r)"
    by (auto simp: complete_def Let_def get_outcome_def split: option.splits if_splits)
  with True complete_eqs [OF assms(1), of jid b r] assms(2) show ?thesis by simp
next
  case False
  with assms(2) have "bq_completed q' = bq_completed q" "bq_pending_fetch q' = bq_pending_fetch q"
    by (auto simp: complete_def Let_def split: option.splits if_splits)
  with False complete_eqs [OF assms(1), of jid b r] assms(2) show ?thesis by simp
qed

theorem complete_by_holder_witness:
  "\<exists>r. fst (complete 1 [7] r sample_leased) = (status_of sample_leased 1 = Leased [7])"
  using complete_by_holder [OF sample_wf(2), of 1 "[7]" undefined] by (metis prod.collapse)

text \<open>
  \<open>check_timeouts\<close> returns exactly the ids of the leases without a heartbeat for more than
  60 seconds, puts their jobs before the jobs that were already pending, keeps every other
  lease and changes the status of no other job.
\<close>

theorem check_timeouts_exact:
  assumes "queue_wf blake3 q" "check_timeouts now q = (ids, q')"
  shows "set ids = {k. \<exists>l. hm_get k (bq_leased q) = Some l \<and> now - lj_last_heartbeat l > 60 * 10 ^ 9} \<and>
    distinct ids \<and> map bj_id (bq_pending q') = rev ids @ map bj_id (bq_pending q) \<and>
    bq_leased q' = filter (\<lambda>(k, _). k \<notin> set ids) (bq_leased q) \<and>
    status_of q' = (\<lambda>j. if j \<in> set ids then Queued else status_of q j)"
proof (intro conjI)
  have wf: "hm_wf (bq_leased q)" by (rule queue_wfD(3) [OF assms(1)])
  have ids: "ids = fst (check_timeouts now q)" "q' = snd (check_timeouts now q)"
    using assms(2) by simp_all
  show "set ids = {k. \<exists>l. hm_get k (bq_leased q) = Some l \<and> now - lj_last_heartbeat l > 60 * 10 ^ 9}"
    unfolding ids check_timeouts_out expired_ids_def
    by (simp add: hm_get_Some_iff [OF wf] expired_def JOB_LEASE_TIMEOUT_def)
  show d: "distinct ids"
    using wf by (simp add: ids check_timeouts_def retain_live_eq distinct_map_filter hm_wf_def)
  show "map bj_id (bq_pending q') = rev ids @ map bj_id (bq_pending q)"
    unfolding ids by (rule check_timeouts_pending_ids [OF assms(1)])
  have "expired now l \<longleftrightarrow> k \<in> set ids" if "(k, l) \<in> set (bq_leased q)" for k l
    using that wf by (auto simp: ids check_timeouts_out expired_ids_def hm_wf_def
      dest: eq_key_imp_eq_value)
  then show "bq_leased q' = filter (\<lambda>(k, _). k \<notin> set ids) (bq_leased q)"
    unfolding ids(2) by (auto simp: check_timeouts_def retain_live_eq intro!: filter_cong)
  have "\<forall>j \<in> set ids. \<exists>b. status_of q j = Leased b"
    using wf by (auto simp: ids check_timeouts_out expired_ids_def status_of_Leased_iff [OF assms(1)]
      hm_get_Some_iff)
  with check_timeouts_status [OF assms(1), of now] spec_run_expire [OF d]
  show "status_of q' = (\<lambda>j. if j \<in> set ids then Queued else status_of q j)"
    unfolding ids by simp
qed

theorem check_timeouts_exact_witness:
  "fst (check_timeouts (6 + 60 * 10 ^ 9) sample_leased) = [1] \<and>
   status_of (snd (check_timeouts (6 + 60 * 10 ^ 9) sample_leased)) 1 = Queued"
proof -
  have "check_timeouts (6 + 60 * 10 ^ 9) sample_leased =
      ([1], sample_leased\<lparr>bq_leased := [], bq_pending := [sample_job]\<rparr>)"
    by (simp add: sample_defs check_timeouts_def expired_def JOB_LEASE_TIMEOUT_def)
  with check_timeouts_exact [OF sample_wf(2) this] show ?thesis by simp
qed

section \<open>Results to fetch\<close>

text \<open>The batches a run hands out, and the results of its accepted completions, in order.\<close>

fun fetch_history :: "(byte list \<Rightarrow> hash32) \<Rightarrow> queue_op list \<Rightarrow> build_queue \<Rightarrow>
    build_result list \<times> build_result list \<times> build_queue" where
  "fetch_history blake3 [] q = ([], [], q)"
| "fetch_history blake3 (op # ops) q =
     (case fetch_history blake3 ops (snd (do_op blake3 op q)) of (taken, accepted, q') \<Rightarrow>
        ((if op = Op_take_pending_fetches then fst (take_pending_fetches q) else []) @ taken,
         (case op of Op_complete jid b r \<Rightarrow> if fst (complete jid b r q) then [r] else [] | _ \<Rightarrow> []) @ accepted,
         q'))"

lemma fetch_frames [frame_simps]:
  "bq_pending_fetch (snd (push blake3 ts p fs os ins q)) = bq_pending_fetch q"
  "bq_pending_fetch (snd (pull t1 t2 b fs q)) = bq_pending_fetch q"
  "bq_pending_fetch (snd (heartbeat now jid b st q)) = bq_pending_fetch q"
  "bq_pending_fetch (snd (fail jid b e q)) = bq_pending_fetch q"
  "bq_pending_fetch (snd (check_timeouts now q)) = bq_pending_fetch q"
  by (simp_all add: push_def pull_def heartbeat_def fail_def check_timeouts_def Let_def
      split: option.split prod.split)

lemma fetch_complete:
  "bq_pending_fetch (snd (complete jid b r q)) =
     bq_pending_fetch q @ (if fst (complete jid b r q) then [r] else [])"
  by (simp add: complete_def Let_def split: option.split)

lemma snd_do_op:
  "snd (do_op blake3 (Op_push ts p fs os ins) q) = snd (push blake3 ts p fs os ins q)"
  "snd (do_op blake3 (Op_pull t1 t2 b fs) q) = snd (pull t1 t2 b fs q)"
  "snd (do_op blake3 (Op_complete jid b r) q) = snd (complete jid b r q)"
  "snd (do_op blake3 (Op_fail jid b e) q) = snd (fail jid b e q)"
  "snd (do_op blake3 (Op_check_timeouts now) q) = snd (check_timeouts now q)"
  by (simp_all split: prod.split option.split)

lemma do_op_fetch:
  "(if op = Op_take_pending_fetches then fst (take_pending_fetches q) else []) @
     bq_pending_fetch (snd (do_op blake3 op q)) =
   bq_pending_fetch q @
     (case op of Op_complete jid b r \<Rightarrow> if fst (complete jid b r q) then [r] else [] | _ \<Rightarrow> [])"
proof (cases op)
  case (Op_push now p fs os ins)
  then show ?thesis by (simp only: snd_do_op frame_simps) simp
next
  case (Op_pull t1 t2 b fs)
  then show ?thesis by (simp only: snd_do_op frame_simps) simp
next
  case (Op_complete jid b r)
  then show ?thesis by (simp only: snd_do_op fetch_complete) simp
next
  case (Op_fail jid b e)
  then show ?thesis by (simp only: snd_do_op frame_simps) simp
next
  case (Op_check_timeouts now)
  then show ?thesis by (simp only: snd_do_op frame_simps) simp
qed (simp_all add: frame_simps take_pending_fetches_def clear_needed_features_def
    subscribe_logs_def broadcast_log_def cleanup_log_subscribers_def Let_def)

text \<open>
  C33: over any sequence of operations each accepted build result is handed to the fetcher
  exactly once and in the order of completion: what \<open>take_pending_fetches\<close> returned, followed
  by what still waits, is what waited before followed by the accepted results.
\<close>

theorem fetches_delivered_once:
  "case fetch_history blake3 ops q of (taken, accepted, q') \<Rightarrow>
     taken @ bq_pending_fetch q' = bq_pending_fetch q @ accepted"
proof (induction ops arbitrary: q)
  case (Cons op ops)
  let ?q1 = "snd (do_op blake3 op q)"
  obtain taken accepted q' where h: "fetch_history blake3 ops ?q1 = (taken, accepted, q')"
    by (cases "fetch_history blake3 ops ?q1") auto
  let ?t = "if op = Op_take_pending_fetches then fst (take_pending_fetches q) else []"
  let ?a = "case op of Op_complete jid b r \<Rightarrow> if fst (complete jid b r q) then [r] else [] | _ \<Rightarrow> []"
  have "taken @ bq_pending_fetch q' = bq_pending_fetch ?q1 @ accepted"
    using Cons [of ?q1] h by simp
  then have "(?t @ taken) @ bq_pending_fetch q' = (?t @ bq_pending_fetch ?q1) @ accepted"
    by simp
  also have "\<dots> = bq_pending_fetch q @ ?a @ accepted"
    by (simp only: do_op_fetch append.assoc)
  finally show ?case
    by (simp only: fetch_history.simps h split_conv)
qed simp

end
