(* ===== verification/Control.thy ===== *)
theory Control
  imports Protocol Queue_Machine
begin

text \<open>
  The control socket of \<open>control.rs\<close>: the requests the build hook sends to the daemon, their
  handler, the connection loop on the daemon's side and the client. JSON is a parameter, a pair
  of functions \<open>to_json\<close> and \<open>from_json\<close>; \<open>show_id\<close> is the display of an endpoint id. The
  handler also returns the feature lists it asks the gossip service to announce.
\<close>

section \<open>Messages\<close>

record input_path_info =
  ii_store_path :: string
  ii_blake3 :: hash32

record output_info =
  oi_store_path :: string
  oi_blake3 :: hash32
  oi_nar_size :: u64

datatype build_state =
  Pending
| Building string
| Completed "output_info list"
| Failed string

datatype control_request =
  SubmitBuild string string "string list" "input_path_info list" "string list"
| PollBuild u64
| HasBuilders "string list"
| CancelBuild u64

datatype control_response =
  BuildSubmitted u64
| BuildStatus build_state
| BuildersAvailable bool nat
| ControlError string

definition MAX_FRAME_SIZE :: nat where
  "MAX_FRAME_SIZE = 1024 * 1024"

section \<open>The request handler\<close>

definition outcome_state :: "job_outcome \<Rightarrow> build_state" where
  "outcome_state o' = (case o' of
     job_outcome.Completed result \<Rightarrow> Completed (map (\<lambda>b. \<lparr>oi_store_path = bo_store_path b,
       oi_blake3 = bo_blake3 b, oi_nar_size = bo_nar_size b\<rparr>) (br_outputs result))
   | job_outcome.Failed _ error \<Rightarrow> Failed error)"

text \<open>
  \<open>PollBuild\<close> takes five snapshots of the queue, each under a lock of its own: the lease table
  and the pending list for the job's hash, both again for its state, and the outcomes.
\<close>

definition job_hash :: "job_id \<Rightarrow> (job_id \<times> leased_job) list \<Rightarrow> build_job list \<Rightarrow> drv_hash option" where
  "job_hash jid leased pending =
     (case find (\<lambda>(k, _). k = jid) leased of
        Some (_, l) \<Rightarrow> Some (bj_drv_hash (lj_job l))
      | None \<Rightarrow> map_option bj_drv_hash (find (\<lambda>j. bj_id j = jid) pending))"

definition poll_build_snapshots :: "(endpoint_id \<Rightarrow> string) \<Rightarrow> job_id \<Rightarrow> build_queue \<Rightarrow> build_queue \<Rightarrow>
    build_queue \<Rightarrow> build_queue \<Rightarrow> build_queue \<Rightarrow> build_state" where
  "poll_build_snapshots show_id jid q1 q2 q3 q4 q5 =
     (let drv_hash = job_hash jid (list_leased q1) (list_pending q2)
      in case find (\<lambda>(k, _). k = jid) (list_leased q3) of
           Some (_, l) \<Rightarrow> Building (show_id (lj_builder l))
         | None \<Rightarrow>
             if list_ex (\<lambda>j. bj_id j = jid) (list_pending q4) then Pending
             else case drv_hash of
               Some h \<Rightarrow> (case get_outcome h q5 of Some outcome \<Rightarrow> outcome_state outcome | None \<Rightarrow> Pending)
             | None \<Rightarrow> Pending)"

fun handle_control_request :: "(byte list \<Rightarrow> hash32) \<Rightarrow> (endpoint_id \<Rightarrow> string) \<Rightarrow> u64 \<Rightarrow>
    control_request \<Rightarrow> build_queue \<Rightarrow> control_response \<times> build_queue \<times> string list list" where
  "handle_control_request blake3 show_id now
      (SubmitBuild drv_path system required_features input_paths expected_outputs) q =
     (let system_features = system # required_features;
          build_input_paths = map (\<lambda>ip. \<lparr>ip_store_path = ii_store_path ip, ip_blake3 = ii_blake3 ip\<rparr>) input_paths
      in case push blake3 now drv_path system_features expected_outputs build_input_paths q of
           ((jid, should_announce), q') \<Rightarrow>
             (BuildSubmitted jid, q', if should_announce then [system_features] else []))"
| "handle_control_request blake3 show_id now (PollBuild jid) q =
     (BuildStatus (poll_build_snapshots show_id jid q q q q q), q, [])"
| "handle_control_request blake3 show_id now (HasBuilders system_features) q =
     (BuildersAvailable True 1, q, [])"
| "handle_control_request blake3 show_id now (CancelBuild jid) q =
     (case find (\<lambda>(k, _). k = jid) (list_leased q) of
        Some (_, l) \<Rightarrow> (BuildStatus (Failed ''cancelled''),
          snd (fail jid (lj_builder l) ''cancelled by build-hook'' q), [])
      | None \<Rightarrow> (ControlError (''job '' @ show_nat (unat jid) @ '' not found or not in progress''), q, []))"

section \<open>The connection loop\<close>

text \<open>
  The loop ends without an error only when the stream ends at a length. \<open>clock k\<close> is the time
  stamp of the \<open>k\<close>-th request; the announcements accumulate in \<open>anns\<close>.
\<close>

function serve_control ::
    "(byte list \<Rightarrow> hash32) \<Rightarrow> (endpoint_id \<Rightarrow> string) \<Rightarrow> (byte list \<Rightarrow> string + control_request) \<Rightarrow>
     (control_response \<Rightarrow> string + byte list) \<Rightarrow> 'w put \<Rightarrow> (nat \<Rightarrow> u64) \<Rightarrow> nat \<Rightarrow> reader \<Rightarrow> 'w \<Rightarrow>
     build_queue \<Rightarrow> string list list \<Rightarrow> unit result \<times> 'w \<times> build_queue \<times> string list list" where
  "serve_control blake3 show_id from_json to_json put clock k r w q anns =
     (case read_frame MAX_FRAME_SIZE r of
        Inl (NoLength (kind, e)) \<Rightarrow>
          ((if kind = UnexpectedEof then Inr () else throw (Io kind e)), w, q, anns)
      | Inl (TooLarge n) \<Rightarrow>
          (throw (Protocol (''control frame too large: '' @ show_nat n @ '' bytes'')), w, q, anns)
      | Inl (NoBody (kind, e)) \<Rightarrow> (throw (Io kind e), w, q, anns)
      | Inr (msg, r') \<Rightarrow>
          (case from_json msg of
             Inl e \<Rightarrow> (throw (Protocol (''invalid control request: '' @ e)), w, q, anns)
           | Inr request \<Rightarrow>
               (case handle_control_request blake3 show_id (clock k) request q of
                  (response, q', new) \<Rightarrow>
                    (case to_json response of
                       Inl e \<Rightarrow>
                         (throw (Protocol (''failed to serialize response: '' @ e)), w, q', anns @ new)
                     | Inr bytes \<Rightarrow>
                         (case put w (u32_be (of_nat (length bytes))) of
                            Inl (kind, e) \<Rightarrow> (throw (Io kind e), w, q', anns @ new)
                          | Inr w1 \<Rightarrow>
                              (case put w1 bytes of
                                 Inl (kind, e) \<Rightarrow> (throw (Io kind e), w1, q', anns @ new)
                               | Inr w2 \<Rightarrow> serve_control blake3 show_id from_json to_json put clock (k + 1)
                                   r' w2 q' (anns @ new)))))))"
  by pat_completeness auto
termination
  by (relation "measure (\<lambda>(_, _, _, _, _, _, _, r, _, _, _). length (avail r))")
     (auto dest: read_frame_shorter)

declare serve_control.simps [simp del]

section \<open>The client\<close>

text \<open>A request writes one frame and reads one; \<open>r\<close> is what the daemon sends back.\<close>

definition client_request :: "(control_request \<Rightarrow> string + byte list) \<Rightarrow>
    (byte list \<Rightarrow> string + control_response) \<Rightarrow> 'w put \<Rightarrow> 'w \<Rightarrow> reader \<Rightarrow> control_request \<Rightarrow>
    (control_response \<times> reader \<times> 'w) result" where
  "client_request to_json from_json put w r req =
     (case to_json req of
        Inl e \<Rightarrow> throw (Protocol (''failed to serialize request: '' @ e))
      | Inr bytes \<Rightarrow>
          rbind (io_result (put w (u32_be (of_nat (length bytes))))) (\<lambda>w1.
          rbind (io_result (put w1 bytes)) (\<lambda>w2.
          case read_frame MAX_FRAME_SIZE r of
            Inl (NoLength (kind, e)) \<Rightarrow> throw (Io kind e)
          | Inl (TooLarge n) \<Rightarrow> throw (Protocol (''response frame too large: '' @ show_nat n @ '' bytes''))
          | Inl (NoBody (kind, e)) \<Rightarrow> throw (Io kind e)
          | Inr (msg, r') \<Rightarrow>
              (case from_json msg of
                 Inl e \<Rightarrow> throw (Protocol (''invalid control response: '' @ e))
               | Inr resp \<Rightarrow> Inr (resp, r', w2)))))"

definition submit_reply :: "control_response \<Rightarrow> u64 result" where
  "submit_reply resp = (case resp of
     BuildSubmitted jid \<Rightarrow> Inr jid
   | ControlError message \<Rightarrow> throw (Build message)
   | _ \<Rightarrow> throw (Protocol ''unexpected response to SubmitBuild''))"

definition poll_reply :: "control_response \<Rightarrow> build_state result" where
  "poll_reply resp = (case resp of
     BuildStatus status \<Rightarrow> Inr status
   | ControlError message \<Rightarrow> throw (Build message)
   | _ \<Rightarrow> throw (Protocol ''unexpected response to PollBuild''))"

definition has_builders_reply :: "control_response \<Rightarrow> (bool \<times> nat) result" where
  "has_builders_reply resp = (case resp of
     BuildersAvailable available n \<Rightarrow> Inr (available, n)
   | ControlError message \<Rightarrow> throw (Build message)
   | _ \<Rightarrow> throw (Protocol ''unexpected response to HasBuilders''))"

definition client_call :: "(control_request \<Rightarrow> string + byte list) \<Rightarrow>
    (byte list \<Rightarrow> string + control_response) \<Rightarrow> 'w put \<Rightarrow> 'w \<Rightarrow> reader \<Rightarrow> control_request \<Rightarrow>
    (control_response \<Rightarrow> 'a result) \<Rightarrow> ('a \<times> reader \<times> 'w) result" where
  "client_call to_json from_json put w r req reply =
     rbind (client_request to_json from_json put w r req)
       (\<lambda>(resp, r', w'). rbind (reply resp) (\<lambda>x. Inr (x, r', w')))"

definition submit_build where
  "submit_build to_json from_json put w r drv_path system features input_paths outputs =
     client_call to_json from_json put w r
       (SubmitBuild drv_path system features input_paths outputs) submit_reply"

definition poll_build where
  "poll_build to_json from_json put w r jid =
     client_call to_json from_json put w r (PollBuild jid) poll_reply"

definition has_builders where
  "has_builders to_json from_json put w r features =
     client_call to_json from_json put w r (HasBuilders features) has_builders_reply"

section \<open>The handler on the queue\<close>

lemma find_hm: "find (\<lambda>(k, _). k = jid) m = map_option (Pair jid) (hm_get jid m)"
  by (induction m) (auto simp: hm_get_def)

lemma poll_snapshots_leased:
  "hm_get jid (bq_leased q3) = Some l \<Longrightarrow>
     poll_build_snapshots show_id jid q1 q2 q3 q4 q5 = Building (show_id (lj_builder l))"
  by (simp add: poll_build_snapshots_def Let_def list_leased_def find_hm)

lemma poll_snapshots_pending:
  "hm_get jid (bq_leased q3) = None \<Longrightarrow> jid \<in> bj_id ` set (bq_pending q4) \<Longrightarrow>
     poll_build_snapshots show_id jid q1 q2 q3 q4 q5 = Pending"
  by (auto simp: poll_build_snapshots_def Let_def list_leased_def list_pending_def find_hm list_ex_iff)

lemma job_hash_None:
  "hm_get jid (bq_leased q1) = None \<Longrightarrow> jid \<notin> bj_id ` set (bq_pending q2) \<Longrightarrow>
     job_hash jid (bq_leased q1) (bq_pending q2) = None"
  by (auto simp: job_hash_def find_hm find_None_iff)

lemma poll_snapshots_unknown:
  "hm_get jid (bq_leased q1) = None \<Longrightarrow> jid \<notin> bj_id ` set (bq_pending q2) \<Longrightarrow>
   hm_get jid (bq_leased q3) = None \<Longrightarrow>
     poll_build_snapshots show_id jid q1 q2 q3 q4 q5 = Pending"
  by (simp add: poll_build_snapshots_def Let_def job_hash_None list_leased_def list_pending_def find_hm)

lemma poll_atomic:
  "poll_build_snapshots show_id jid q q q q q =
     (case hm_get jid (bq_leased q) of Some l \<Rightarrow> Building (show_id (lj_builder l)) | None \<Rightarrow> Pending)"
  by (cases "hm_get jid (bq_leased q)"; cases "jid \<in> bj_id ` set (bq_pending q)")
     (simp_all add: poll_snapshots_leased poll_snapshots_pending poll_snapshots_unknown)

definition event_job :: "queue_event \<Rightarrow> job_id" where
  "event_job e = (case e of Submit j \<Rightarrow> j | Lease j _ \<Rightarrow> j | Expire j \<Rightarrow> j | Finish j _ \<Rightarrow> j)"

lemma spec_run_quiet:
  assumes "spec_run es s = Some s'" "jid \<notin> event_job ` set es"
  shows "s' jid = s jid"
  using assms
proof (induction es arbitrary: s)
  case (Cons e es)
  then obtain s1 where "spec_event e s = Some s1" "spec_run es s1 = Some s'"
    by (auto simp: bind_eq_Some_conv)
  moreover from this(1) Cons.prems(2) have "s1 jid = s jid"
    by (cases e) (auto simp: event_job_def split: if_splits job_status.splits)
  ultimately show ?case using Cons by simp
qed simp

lemma queue_run_quiet:
  assumes "queue_run blake3 q es q'" "queue_wf blake3 q" "jid \<notin> event_job ` set es"
  shows "queue_wf blake3 q' \<and> status_of q' jid = status_of q jid"
  using queue_run_refines [OF assms(1,2)] spec_run_quiet assms(3) by blast

lemma status_hm_get:
  assumes "queue_wf blake3 q"
  shows "hm_get jid (bq_leased q) = None \<longleftrightarrow> (\<forall>b. status_of q jid \<noteq> Leased b)"
    and "jid \<in> bj_id ` set (bq_pending q) \<longleftrightarrow> status_of q jid = Queued"
proof -
  show "hm_get jid (bq_leased q) = None \<longleftrightarrow> (\<forall>b. status_of q jid \<noteq> Leased b)"
    by (cases "hm_get jid (bq_leased q)") (auto simp: status_of_Leased_iff [OF assms])
  show "jid \<in> bj_id ` set (bq_pending q) \<longleftrightarrow> status_of q jid = Queued"
    by (auto simp: status_of_def split: option.splits)
qed

section \<open>One exchange\<close>

lemma serve_control_step:
  assumes "from_json (enc req) = Inr req" "length (enc req) \<le> MAX_FRAME_SIZE"
    and "handle_control_request blake3 show_id (clock k) req q = (resp, q', new)"
  shows "serve_control blake3 show_id from_json (\<lambda>m. Inr (renc m)) vec_put clock k
      (feed (frame (enc req)) r) w q anns =
    serve_control blake3 show_id from_json (\<lambda>m. Inr (renc m)) vec_put clock (k + 1) r
      (w @ frame (renc resp)) q' (anns @ new)"
proof -
  have "read_frame MAX_FRAME_SIZE (feed (frame (enc req)) r) = Inr (enc req, r)"
    using assms(2) by (intro read_frame_frame) (simp_all add: MAX_FRAME_SIZE_def)
  with assms show ?thesis
    by (subst serve_control.simps) (simp add: vec_put_def frame_def)
qed

lemma serve_control_end:
  "serve_control blake3 show_id from_json to_json put clock k (cursor []) w q anns = (Inr (), w, q, anns)"
  by (subst serve_control.simps) (simp add: read_frame_def codec_simps, simp add: cursor_def eof_error_def)

lemma client_request_frame:
  assumes "length (renc resp) < 2 ^ 32" "from_json (renc resp) = Inr resp"
  shows "client_request (\<lambda>m. Inr (enc m)) from_json vec_put w (cursor (frame (renc resp))) req =
    (if length (renc resp) \<le> MAX_FRAME_SIZE then Inr (resp, cursor [], w @ frame (enc req))
     else throw (Protocol (''response frame too large: '' @ show_nat (length (renc resp)) @ '' bytes'')))"
proof (cases "length (renc resp) \<le> MAX_FRAME_SIZE")
  case True
  then have "read_frame MAX_FRAME_SIZE (feed (frame (renc resp)) (cursor [])) = Inr (renc resp, cursor [])"
    by (intro read_frame_frame) (simp_all add: MAX_FRAME_SIZE_def)
  with True assms(2) show ?thesis
    by (simp add: client_request_def feed_cursor vec_put_def) (simp add: frame_def)
next
  case False
  then have "read_frame MAX_FRAME_SIZE (feed (frame (renc resp)) (cursor [])) =
      Inl (TooLarge (length (renc resp)))"
    using assms(1) by (intro read_frame_too_large) simp_all
  with False show ?thesis
    by (simp add: client_request_def feed_cursor vec_put_def)
qed

section \<open>Properties of the control socket\<close>

text \<open>
  C39: polling reports "building" with the holder's name while the job is leased and "pending"
  in every other case, also when other operations run between the five reads of the queue, as
  long as none of them concerns the polled job. So a finished or failed build is never reported
  as such, and an unknown job is reported as pending.
\<close>

theorem poll_never_finishes:
  assumes "queue_wf blake3 q1" "queue_run blake3 q1 es1 q2" "queue_run blake3 q2 es2 q3"
    "queue_run blake3 q3 es3 q4" "jid \<notin> event_job ` set (es1 @ es2 @ es3)"
  shows "poll_build_snapshots show_id jid q1 q2 q3 q4 q5 =
    (case status_of q1 jid of Leased b \<Rightarrow> Building (show_id b) | _ \<Rightarrow> Pending)"
proof -
  have quiet: "jid \<notin> event_job ` set es1" "jid \<notin> event_job ` set es2" "jid \<notin> event_job ` set es3"
    using assms(5) by auto
  have 2: "queue_wf blake3 q2" "status_of q2 jid = status_of q1 jid"
    using queue_run_quiet [OF assms(2,1) quiet(1)] by auto
  have 3: "queue_wf blake3 q3" "status_of q3 jid = status_of q1 jid"
    using queue_run_quiet [OF assms(3) 2(1) quiet(2)] 2(2) by auto
  have 4: "queue_wf blake3 q4" "status_of q4 jid = status_of q1 jid"
    using queue_run_quiet [OF assms(4) 3(1) quiet(3)] 3(2) by auto
  show ?thesis
  proof (cases "status_of q1 jid")
    case (Leased b)
    then obtain l where "hm_get jid (bq_leased q3) = Some l" "lj_builder l = b"
      using status_of_Leased_iff [OF 3(1)] 3(2) by auto
    with Leased show ?thesis by (simp add: poll_snapshots_leased)
  next
    case Queued
    then have "hm_get jid (bq_leased q3) = None" "jid \<in> bj_id ` set (bq_pending q4)"
      using status_hm_get [OF 3(1)] status_hm_get [OF 4(1)] 3(2) 4(2) by simp_all
    with Queued show ?thesis by (simp add: poll_snapshots_pending)
  qed (use status_hm_get [OF assms(1)] status_hm_get [OF 2(1)] status_hm_get [OF 3(1)] 2(2) 3(2)
      in \<open>simp_all add: poll_snapshots_unknown\<close>)
qed

theorem poll_never_finishes_witness:
  "poll_build_snapshots (\<lambda>_. ''b'') 1 sample_leased sample_leased sample_leased sample_leased sample_leased =
     Building ''b''"
proof -
  have "status_of sample_leased 1 = Leased [7]"
    by (simp add: status_of_def sample_defs hm_get_def)
  then show ?thesis
    using poll_never_finishes [OF sample_wf(2) queue_run.start queue_run.start queue_run.start, of 1
      "\<lambda>_. ''b''" sample_leased] by simp
qed

text \<open>
  A submitted build gets a fresh job id, is queued with the system as its first required
  feature and the expected outputs and inputs of the request, and is announced to the network
  exactly when the queue was empty or no features were asked for; no other job changes.
\<close>

theorem submit_build_queues:
  assumes "queue_wf blake3 q" "counter_room q"
  shows "\<exists>jid q' j anns. handle_control_request blake3 show_id now (SubmitBuild drv sys feats inputs outs) q =
      (BuildSubmitted jid, q', anns) \<and>
    status_of q jid = Unborn \<and> status_of q' = (status_of q)(jid := Queued) \<and> queue_wf blake3 q' \<and>
    bq_pending q' = bq_pending q @ [j] \<and> bj_id j = jid \<and> bj_drv_path j = drv \<and>
    bj_drv_hash j = blake3 (as_bytes drv) \<and> bj_system_features j = sys # feats \<and> bj_outputs j = outs \<and>
    map ip_store_path (bj_input_paths j) = map ii_store_path inputs \<and>
    anns = (if bq_pending q = [] \<or> needed_features q = None then [sys # feats] else [])"
proof -
  let ?ins = "map (\<lambda>ip. \<lparr>ip_store_path = ii_store_path ip, ip_blake3 = ii_blake3 ip\<rparr>) inputs"
  obtain jid ann q' where p: "push blake3 now drv (sys # feats) outs ?ins q = ((jid, ann), q')"
    by (metis prod.exhaust)
  have "queue_wf blake3 q'"
    using push_wf [OF assms, of now drv "sys # feats" outs ?ins] p by simp
  moreover have "\<exists>j. bq_pending q' = bq_pending q @ [j] \<and> bj_id j = jid \<and> bj_drv_path j = drv \<and>
      bj_drv_hash j = blake3 (as_bytes drv) \<and> bj_system_features j = sys # feats \<and> bj_outputs j = outs \<and>
      bj_input_paths j = ?ins"
    and "ann = (bq_pending q = [] \<or> needed_features q = None)"
    using p by (auto simp: push_def Let_def from_drv_path_def needed_features_def split: if_splits)
  ultimately show ?thesis
    using push_status [OF assms p] p by (auto simp: Let_def comp_def)
qed

theorem submit_build_queues_witness:
  "\<exists>jid q' anns. handle_control_request no_hash (\<lambda>_. []) 0 (SubmitBuild ''d'' ''x'' [] [] []) (new_queue []) =
     (BuildSubmitted jid, q', anns)"
  using submit_build_queues [OF new_queue_wf, of "[]" no_hash "\<lambda>_. []" 0 "''d''" "''x''" "[]" "[]" "[]"]
  by (auto simp: counter_room_def new_queue_def)

text \<open>
  Cancelling works only on a leased job: then the job is done, its lease is gone and the
  outcome under its derivation hash is the failure "cancelled by build-hook" of its holder;
  a pending, finished or unknown job is left alone and the answer is an error.
\<close>

theorem cancel_build_exact:
  assumes "queue_wf blake3 q"
    and "handle_control_request blake3 show_id now (CancelBuild jid) q = (resp, q', anns)"
  shows "case status_of q jid of
      Leased b \<Rightarrow> resp = BuildStatus (Failed ''cancelled'') \<and> status_of q' = (status_of q)(jid := Done) \<and>
        queue_wf blake3 q' \<and>
        (\<exists>l. hm_get jid (bq_leased q) = Some l \<and> get_outcome (bj_drv_hash (lj_job l)) q' =
          Some (job_outcome.Failed b ''cancelled by build-hook''))
    | _ \<Rightarrow> resp = ControlError (''job '' @ show_nat (unat jid) @ '' not found or not in progress'') \<and> q' = q"
proof (cases "hm_get jid (bq_leased q)")
  case None
  with assms(2) have "resp = ControlError (''job '' @ show_nat (unat jid) @ '' not found or not in progress'')"
    "q' = q" by (auto simp: list_leased_def find_hm)
  with None status_hm_get(1) [OF assms(1)] show ?thesis by (auto split: job_status.split)
next
  case (Some l)
  have st: "status_of q jid = Leased (lj_builder l)" by (rule status_of_leased [OF assms(1) Some])
  have q': "resp = BuildStatus (Failed ''cancelled'')"
    "q' = snd (fail jid (lj_builder l) ''cancelled by build-hook'' q)"
    using assms(2) Some by (auto simp: list_leased_def find_hm)
  moreover have "get_outcome (bj_drv_hash (lj_job l)) q' =
      Some (job_outcome.Failed (lj_builder l) ''cancelled by build-hook'')"
    using Some by (simp add: q' fail_def Let_def get_outcome_def)
  ultimately show ?thesis
    using fail_eqs [OF assms(1), of jid "lj_builder l" "''cancelled by build-hook''"] st Some by simp
qed

theorem cancel_build_exact_witness:
  "status_of (fst (snd (handle_control_request no_hash (\<lambda>_. []) 0 (CancelBuild 1) sample_leased))) 1 = Done"
proof -
  have st: "status_of sample_leased 1 = Leased [7]"
    by (simp add: status_of_def sample_defs hm_get_def)
  obtain resp q' anns where h:
    "handle_control_request no_hash (\<lambda>_. []) 0 (CancelBuild 1) sample_leased = (resp, q', anns)"
    by (metis prod.exhaust)
  from cancel_build_exact [OF sample_wf(2) h] st h show ?thesis by simp
qed

text \<open>
  One exchange over the socket: the daemon serves the frame the client wrote, and the
  client reads the frame the daemon wrote and obtains the handler's response, unless the
  response is longer than 1 MB: the daemon checks the size of a frame it receives but not of
  one it sends, so the request has taken effect and the client reports an error.
\<close>

theorem control_exchange:
  assumes "from_req (enc req) = Inr req" "length (enc req) \<le> 1024 * 1024"
    and "handle_control_request blake3 show_id (clock 0) req q = (resp, q', anns)"
    and "from_resp (renc resp) = Inr resp" "length (renc resp) < 2 ^ 32"
  shows "case serve_control blake3 show_id from_req (\<lambda>m. Inr (renc m)) vec_put clock 0
      (cursor (frame (enc req))) [] q [] of (res, out, q1, anns1) \<Rightarrow>
    res = Inr () \<and> q1 = q' \<and> anns1 = anns \<and>
    client_request (\<lambda>m. Inr (enc m)) from_resp vec_put [] (cursor out) req =
      (if length (renc resp) \<le> 1024 * 1024 then Inr (resp, cursor [], frame (enc req))
       else throw (Protocol (''response frame too large: '' @ show_nat (length (renc resp)) @ '' bytes'')))"
proof -
  have enc: "length (enc req) \<le> MAX_FRAME_SIZE" using assms(2) by (simp add: MAX_FRAME_SIZE_def)
  have "serve_control blake3 show_id from_req (\<lambda>m. Inr (renc m)) vec_put clock 0
      (cursor (frame (enc req))) [] q [] = (Inr (), frame (renc resp), q', anns)"
    using serve_control_step [where clock = clock and k = 0 and enc = enc and req = req and from_json = from_req, OF assms(1) enc assms(3), of renc "cursor []" "[]" "[]"]
    by (simp only: feed_cursor append_Nil2 append_Nil serve_control_end)
  with client_request_frame [where renc = renc and resp = resp and from_json = from_resp, OF assms(5,4), of enc "[]" req] show ?thesis
    by (simp add: MAX_FRAME_SIZE_def)
qed

theorem control_exchange_witness:
  "\<exists>out. serve_control no_hash (\<lambda>_. []) (\<lambda>_. Inr (PollBuild 1)) (\<lambda>_. Inr [1]) vec_put (\<lambda>_. 0) 0
     (cursor (frame [2])) [] sample_leased [] = (Inr (), out, sample_leased, [])"
  using control_exchange [of "\<lambda>_. Inr (PollBuild 1)" "\<lambda>_. [2]" "PollBuild 1" no_hash "\<lambda>_. []" "\<lambda>_. 0"
      sample_leased
      "BuildStatus (poll_build_snapshots (\<lambda>_. []) 1 sample_leased sample_leased sample_leased
        sample_leased sample_leased)" sample_leased "[]"
      "\<lambda>_. Inr (BuildStatus (poll_build_snapshots (\<lambda>_. []) 1 sample_leased sample_leased
        sample_leased sample_leased sample_leased))" "\<lambda>_. [1]"]
  by (auto split: prod.splits)

end
