(* ===== verification/Build_Hook.thy ===== *)
theory Build_Hook
  imports Nix_Protocol Control
begin

text \<open>
  The build hook of \<open>build_hook.rs\<close>: the process nix-daemon starts and asks, on file descriptor 0,
  to build derivations; its decisions go to file descriptor 2 and its log to file descriptor 4.
  The connection to the daemon is \<open>call\<close>, one request and its response on a client state, of
  which \<open>client_request\<close> of the control socket is the instance. Polling may go on for ever: a
  run of the hook is None exactly when it never returns.
\<close>

section \<open>The settings\<close>

lemma read_u32_shorter: "read_u32 r = Inr (v, r') \<Longrightarrow> length (avail r') < length (avail r)"
  by (auto simp: read_u32_def read_exact_Inr)

lemma read_string_shorter: "read_string ue r = Inr (s, r') \<Longrightarrow> length (avail r') < length (avail r)"
  by (auto dest!: read_string_Inr)

lemma read_strings_shorter:
  "read_n (read_string ue) n r = Inr (ss, r') \<Longrightarrow> length (avail r') \<le> length (avail r)"
proof (induction n arbitrary: r ss)
  case (Suc n)
  then obtain s r1 ss' where "read_string ue r = Inr (s, r1)" "read_n (read_string ue) n r1 = Inr (ss', r')"
    by auto
  then show ?case using read_string_shorter Suc.IH by (meson less_imp_le order_trans)
qed simp

lemma read_string_set_shorter: "read_string_set ue r = Inr (ss, r') \<Longrightarrow> length (avail r') \<le> length (avail r)"
  by (auto simp: read_string_set_def Let_def read_u64_Inr dest!: read_strings_shorter)

function read_settings :: "(byte list \<Rightarrow> string) \<Rightarrow> (string, string) hmap \<Rightarrow> reader \<Rightarrow>
    ((string, string) hmap \<times> reader) result" where
  "read_settings ue settings r =
     rbind (read_u32 r) (\<lambda>(flag, r1).
     if flag = 0 then Inr (settings, r1)
     else if flag \<noteq> 1
     then throw (Protocol (''unexpected settings flag: '' @ show_nat (unat flag)))
     else rbind (read_string ue r1) (\<lambda>(key, r2).
          rbind (read_string ue r2) (\<lambda>(val, r3).
          read_settings ue (hm_insert key val settings) r3)))"
  by pat_completeness auto
termination
  by (relation "measure (\<lambda>(_, _, r). length (avail r))")
     (auto dest!: read_u32_shorter read_string_shorter)

declare read_settings.simps [simp del]

section \<open>One process\<close>

text \<open>
  \<open>hk_fd4\<close> says whether descriptor 4 is open; \<open>hk_log\<close> is what was written to it. The error
  stream is any sink.
\<close>

record ('c, 'e) hook =
  hk_stdin :: reader
  hk_client :: 'c
  hk_stderr :: 'e
  hk_fd4 :: bool
  hk_log :: send_stream

type_synonym 'c caller = "control_request \<Rightarrow> 'c \<Rightarrow> control_response result \<times> 'c"

definition hook_call :: "'c caller \<Rightarrow> control_request \<Rightarrow> (control_response \<Rightarrow> 'a result) \<Rightarrow>
    ('c, 'e) hook \<Rightarrow> 'a result \<times> ('c, 'e) hook" where
  "hook_call call req reply h =
     (case call req (hk_client h) of
        (Inl e, c) \<Rightarrow> (Inl e, h\<lparr>hk_client := c\<rparr>)
      | (Inr resp, c) \<Rightarrow> (reply resp, h\<lparr>hk_client := c\<rparr>))"

definition read_in :: "(reader \<Rightarrow> ('a \<times> reader) result) \<Rightarrow> ('c, 'e) hook \<Rightarrow> 'a result \<times> ('c, 'e) hook" where
  "read_in rd h = (case rd (hk_stdin h) of
     Inl e \<Rightarrow> (Inl e, h) | Inr (x, r) \<Rightarrow> (Inr x, h\<lparr>hk_stdin := r\<rparr>))"

definition write_decision :: "'e put \<Rightarrow> string \<Rightarrow> ('c, 'e) hook \<Rightarrow> unit result \<times> ('c, 'e) hook" where
  "write_decision put msg h = (case put (hk_stderr h) (as_bytes msg) of
     Inl (kind, e) \<Rightarrow> (throw (Io kind e), h) | Inr w \<Rightarrow> (Inr (), h\<lparr>hk_stderr := w\<rparr>))"

definition open_log_fd :: "('c, 'e) hook \<Rightarrow> bool" where
  "open_log_fd h = hk_fd4 h"

text \<open>A line of the log, whose write errors are ignored.\<close>

definition log_line :: "bool \<Rightarrow> string \<Rightarrow> ('c, 'e) hook \<Rightarrow> ('c, 'e) hook" where
  "log_line log_fd line h =
     (if log_fd then h\<lparr>hk_log := snd (stream_write (as_bytes (line @ [CHR 0x0A])) (hk_log h))\<rparr> else h)"

definition line :: "string \<Rightarrow> string" where
  "line s = s @ [CHR 0x0A]"

record try_request =
  tr_am_willing :: u32
  tr_system :: string
  tr_drv_path :: string
  tr_features :: "string list"

definition read_try_request :: "(byte list \<Rightarrow> string) \<Rightarrow> ('c, 'e) hook \<Rightarrow> try_request result \<times> ('c, 'e) hook" where
  "read_try_request ue h =
     st_bind (read_in read_u32 h) (\<lambda>am_willing h1.
     st_bind (read_in (read_string ue) h1) (\<lambda>needed_system h2.
     st_bind (read_in (read_string ue) h2) (\<lambda>drv_path h3.
     st_bind (read_in (read_string_set ue) h3) (\<lambda>required_features h4.
     (Inr \<lparr>tr_am_willing = am_willing, tr_system = needed_system, tr_drv_path = drv_path,
           tr_features = required_features\<rparr>, h4)))))"

definition machine_spec :: "try_request \<Rightarrow> string" where
  "machine_spec t = line (''ssh://iroh-builder '' @ tr_system t @ '' - 1 1 '' @
     join '','' (tr_system t # tr_features t) @ '' '' @ join '','' (tr_features t) @ '' -'')"

definition decide :: "'c caller \<Rightarrow> 'e put \<Rightarrow> try_request \<Rightarrow> ('c, 'e) hook \<Rightarrow> bool result \<times> ('c, 'e) hook" where
  "decide call put t h =
     st_bind (hook_call call (HasBuilders (tr_system t # tr_features t)) has_builders_reply h) (\<lambda>(available, _) h1.
     if \<not> available
     then st_bind (write_decision put (line (if tr_am_willing t = 0 then ''# postpone'' else ''# decline'')) h1)
            (\<lambda>_ h2. (Inr False, h2))
     else st_bind (write_decision put (line ''# accept'') h1) (\<lambda>_ h2.
          st_bind (write_decision put (machine_spec t) h2) (\<lambda>_ h3. (Inr True, h3))))"

definition submit_accepted :: "(byte list \<Rightarrow> string) \<Rightarrow> 'c caller \<Rightarrow> try_request \<Rightarrow> ('c, 'e) hook \<Rightarrow>
    job_id result \<times> ('c, 'e) hook" where
  "submit_accepted ue call t h =
     st_bind (read_in (read_string_set ue) h) (\<lambda>input_store_paths h1.
     st_bind (read_in (read_string_set ue) h1) (\<lambda>missing_outputs h2.
     hook_call call (SubmitBuild (tr_drv_path t) (tr_system t) (tr_features t)
       (map (\<lambda>sp. \<lparr>ii_store_path = sp, ii_blake3 = replicate 32 0\<rparr>) input_store_paths) missing_outputs)
       submit_reply h2))"

text \<open>The polling loop, half a second between two polls, until the build has ended.\<close>

definition output_line :: "output_info \<Rightarrow> string" where
  "output_line out = ''iroh-nix: output '' @ oi_store_path out @ '' ('' @ show_nat (unat (oi_nar_size out)) @ '' bytes)''"

partial_function (option) poll_until_done :: "'c caller \<Rightarrow> job_id \<Rightarrow> bool \<Rightarrow> ('c, 'e) hook \<Rightarrow>
    (unit result \<times> ('c, 'e) hook) option" where
  "poll_until_done call jid log_fd h =
     (case hook_call call (PollBuild jid) poll_reply h of
        (Inl e, h1) \<Rightarrow> Some (Inl e, h1)
      | (Inr status, h1) \<Rightarrow>
          (case status of
             Pending \<Rightarrow> poll_until_done call jid log_fd h1
           | Building builder_id \<Rightarrow> poll_until_done call jid log_fd
               (log_line log_fd (''iroh-nix: building on remote builder '' @ builder_id) h1)
           | Completed outputs \<Rightarrow> Some (Inr (), fold (log_line log_fd) (map output_line outputs) h1)
           | Failed e \<Rightarrow> Some (throw (Build (''remote build failed: '' @ e)),
               log_line log_fd (''iroh-nix: build failed: '' @ e) h1)))"

text \<open>
  One round after the word \<open>try\<close>. The file made of descriptor 4 is dropped, and the descriptor
  closed, when the round ends.
\<close>

definition hook_round :: "(byte list \<Rightarrow> string) \<Rightarrow> 'c caller \<Rightarrow> 'e put \<Rightarrow> ('c, 'e) hook \<Rightarrow>
    (unit result \<times> ('c, 'e) hook) option" where
  "hook_round ue call put h =
     (case read_try_request ue h of
        (Inl e, h1) \<Rightarrow> Some (Inl e, h1)
      | (Inr t, h1) \<Rightarrow>
     (case decide call put t h1 of
        (Inl e, h2) \<Rightarrow> Some (Inl e, h2)
      | (Inr accepted, h2) \<Rightarrow>
          if \<not> accepted then Some (Inr (), h2)
          else (case submit_accepted ue call t h2 of
             (Inl e, h3) \<Rightarrow> Some (Inl e, h3)
           | (Inr jid, h3) \<Rightarrow>
               map_option (\<lambda>(res, h4). (res, h4\<lparr>hk_fd4 := False\<rparr>))
                 (poll_until_done call jid (open_log_fd h3) h3))))"

text \<open>The loop ends without an error when no string can be read, or another word than \<open>try\<close>.\<close>

partial_function (option) hook_rounds :: "(byte list \<Rightarrow> string) \<Rightarrow> 'c caller \<Rightarrow> 'e put \<Rightarrow> ('c, 'e) hook \<Rightarrow>
    (unit result \<times> ('c, 'e) hook) option" where
  "hook_rounds ue call put h =
     (case read_in (read_string ue) h of
        (Inl e, h1) \<Rightarrow> (case e of Err _ \<Rightarrow> Some (Inr (), h1) | Panic m \<Rightarrow> Some (panic m, h1))
      | (Inr try_str, h1) \<Rightarrow>
          if try_str \<noteq> ''try'' then Some (Inr (), h1)
          else Option.bind (hook_round ue call put h1) (\<lambda>(res, h2).
               case res of Inl e \<Rightarrow> Some (Inl e, h2) | Inr _ \<Rightarrow> hook_rounds ue call put h2))"

definition run_build_hook :: "(byte list \<Rightarrow> string) \<Rightarrow> 'c result \<Rightarrow> 'c caller \<Rightarrow> 'e put \<Rightarrow> reader \<Rightarrow> 'e \<Rightarrow> bool \<Rightarrow>
    send_stream \<Rightarrow> (unit result \<times> ('c, 'e) hook option) option" where
  "run_build_hook ue connect call put stdin stderr fd4 log =
     (case read_settings ue [] stdin of
        Inl e \<Rightarrow> Some (Inl e, None)
      | Inr (settings, r) \<Rightarrow>
          (case connect of
             Inl e \<Rightarrow> Some (Inl e, None)
           | Inr client \<Rightarrow>
               map_option (\<lambda>(res, h). (res, Some h))
                 (hook_rounds ue call put \<lparr>hk_stdin = r, hk_client = client, hk_stderr = stderr,
                    hk_fd4 = fd4, hk_log = log\<rparr>)))"

section \<open>What nix-daemon sends\<close>

definition settings_enc :: "(string \<times> string) list \<Rightarrow> byte list" where
  "settings_enc kvs = concat (map (\<lambda>(k, v). u32_le 1 @ string_enc k @ string_enc v) kvs) @ u32_le 0"

definition settings_ok :: "(string \<times> string) list \<Rightarrow> bool" where
  "settings_ok kvs = list_all (\<lambda>(k, v). string_ok k \<and> string_ok v) kvs"

definition try_enc :: "try_request \<Rightarrow> byte list" where
  "try_enc t = string_enc ''try'' @ u32_le (tr_am_willing t) @ string_enc (tr_system t) @
     string_enc (tr_drv_path t) @ string_set_enc (tr_features t)"

definition try_ok :: "try_request \<Rightarrow> bool" where
  "try_ok t \<longleftrightarrow> string_ok (tr_system t) \<and> string_ok (tr_drv_path t) \<and> string_set_ok (tr_features t)"

lemma string_ok_try [simp]: "string_ok ''try''"
  by (simp add: string_ok_def is_ascii_def isize_max_def)

lemma read_settings_feed:
  "settings_ok kvs \<Longrightarrow> read_settings ue m (feed (settings_enc kvs) r) =
     Inr (fold (\<lambda>kv. hm_insert (fst kv) (snd kv)) kvs m, r)"
proof (induction kvs arbitrary: m)
  case Nil
  then show ?case by (subst read_settings.simps) (simp add: settings_enc_def codec_simps)
next
  case (Cons kv kvs)
  then show ?case
    by (subst read_settings.simps)
       (simp add: settings_enc_def settings_ok_def codec_simps case_prod_beta)
qed

lemma read_in_feed: "rd (hk_stdin h) = Inr (x, r) \<Longrightarrow> read_in rd h = (Inr x, h\<lparr>hk_stdin := r\<rparr>)"
  by (simp add: read_in_def)

lemma read_try_request_feed:
  assumes "try_ok t"
    and "hk_stdin h = feed (u32_le (tr_am_willing t) @ string_enc (tr_system t) @
      string_enc (tr_drv_path t) @ string_set_enc (tr_features t)) r"
  shows "read_try_request ue h = (Inr t, h\<lparr>hk_stdin := r\<rparr>)"
  using assms by (simp add: read_try_request_def read_in_def codec_simps try_ok_def)

lemma hook_rounds_try:
  assumes "hk_stdin h = feed (try_enc t) r"
  shows "hook_rounds ue call put h =
    Option.bind (hook_round ue call put (h\<lparr>hk_stdin := feed (u32_le (tr_am_willing t) @ string_enc (tr_system t) @
      string_enc (tr_drv_path t) @ string_set_enc (tr_features t)) r\<rparr>))
      (\<lambda>(res, h2). case res of Inl e \<Rightarrow> Some (Inl e, h2) | Inr _ \<Rightarrow> hook_rounds ue call put h2)"
  using assms by (subst hook_rounds.simps) (simp add: read_in_def try_enc_def codec_simps)

lemma hook_rounds_eof:
  assumes "avail (hk_stdin h) = []"
  shows "hook_rounds ue call put h = Some (Inr (), h)"
  using assms by (cases "ending (hk_stdin h)")
    (subst hook_rounds.simps, simp add: read_in_def read_string_def read_u64_def codec_simps eof_as_def)

section \<open>The daemon's handler as the client\<close>

text \<open>
  The hook connected to the daemon: before request \<open>n\<close> the rest of the daemon may turn the queue
  into anything, \<open>env n\<close>; the request is then handled at once.
\<close>

definition daemon_call :: "(byte list \<Rightarrow> hash32) \<Rightarrow> (endpoint_id \<Rightarrow> string) \<Rightarrow> (nat \<Rightarrow> u64) \<Rightarrow>
    (nat \<Rightarrow> build_queue \<Rightarrow> build_queue) \<Rightarrow> (nat \<times> build_queue) caller" where
  "daemon_call blake3 show_id clock env req c =
     (case c of (n, q) \<Rightarrow>
       (case handle_control_request blake3 show_id (clock n) req (env n q) of
          (resp, q', _) \<Rightarrow> (Inr resp, (n + 1, q'))))"

definition unfinished :: "build_state \<Rightarrow> bool" where
  "unfinished status = (case status of Pending \<Rightarrow> True | Building _ \<Rightarrow> True | _ \<Rightarrow> False)"

lemma hk_client_log_line [simp]: "hk_client (log_line log_fd s h) = hk_client h"
  by (simp add: log_line_def)

text \<open>Polling never ends while every answer leaves the build unfinished.\<close>

lemma poll_diverges:
  assumes step: "\<And>c. I c \<Longrightarrow> \<exists>status c'. call (PollBuild jid) c = (Inr (BuildStatus status), c')
      \<and> unfinished status \<and> I c'"
    and I: "I (hk_client h)"
  shows "poll_until_done call jid log_fd h = None"
proof (rule ccontr)
  assume "poll_until_done call jid log_fd h \<noteq> None"
  then obtain y where "poll_until_done call jid log_fd h = Some y" by blast
  then have "call = call \<and> jid = jid \<longrightarrow> \<not> I (hk_client h)"
  proof (rule poll_until_done.raw_induct
      [where P = "\<lambda>call' jid' _ h _. call' = call \<and> jid' = jid \<longrightarrow> \<not> I (hk_client h)", rotated])
    fix rec call' jid' log_fd and h :: "('a, 'b) hook" and y
    assume IH: "\<And>call' jid' log_fd h y. rec call' jid' log_fd h = Some y \<Longrightarrow>
        call' = call \<and> jid' = jid \<longrightarrow> \<not> I (hk_client h)"
      and body: "(case hook_call call' (PollBuild jid') poll_reply h of
        (Inl e, h1) \<Rightarrow> Some (Inl e, h1)
      | (Inr status, h1) \<Rightarrow>
          (case status of
             Pending \<Rightarrow> rec call' jid' log_fd h1
           | Building builder_id \<Rightarrow> rec call' jid' log_fd
               (log_line log_fd (''iroh-nix: building on remote builder '' @ builder_id) h1)
           | Completed outputs \<Rightarrow> Some (Inr (), fold (log_line log_fd) (map output_line outputs) h1)
           | Failed e \<Rightarrow> Some (throw (Build (''remote build failed: '' @ e)),
               log_line log_fd (''iroh-nix: build failed: '' @ e) h1))) = Some y"
    show "call' = call \<and> jid' = jid \<longrightarrow> \<not> I (hk_client h)"
    proof safe
      assume I: "I (hk_client h)" and eq: "call' = call" "jid' = jid"
      from step [OF I] obtain status c' where
        s: "call (PollBuild jid) (hk_client h) = (Inr (BuildStatus status), c')" "unfinished status" "I c'"
        by blast
      from IH have none: "I (hk_client h1) \<Longrightarrow> rec call jid log_fd h1 = Some z \<Longrightarrow> False" for h1 z by blast
      have next_hook: "hook_call call (PollBuild jid) poll_reply h = (Inr status, h\<lparr>hk_client := c'\<rparr>)"
        by (simp add: hook_call_def poll_reply_def s(1))
      show False
      proof (cases status)
        case Pending
        with body none [of "h\<lparr>hk_client := c'\<rparr>"] s(3) next_hook show False by (simp add: eq)
      next
        case (Building b)
        with body s(3) next_hook show False
          using none [of "log_line log_fd (''iroh-nix: building on remote builder '' @ b) (h\<lparr>hk_client := c'\<rparr>)"]
          by (simp add: eq)
      qed (use s(2) in \<open>simp_all add: unfinished_def\<close>)
    qed
  qed
  with I show False by simp
qed

section \<open>One accepted build\<close>

definition round_enc :: "try_request \<Rightarrow> string list \<Rightarrow> string list \<Rightarrow> byte list" where
  "round_enc t ins outs = try_enc t @ string_set_enc ins @ string_set_enc outs"

definition round_ok :: "try_request \<Rightarrow> string list \<Rightarrow> string list \<Rightarrow> bool" where
  "round_ok t ins outs \<longleftrightarrow> try_ok t \<and> string_set_ok ins \<and> string_set_ok outs"

definition submit_request :: "try_request \<Rightarrow> string list \<Rightarrow> string list \<Rightarrow> control_request" where
  "submit_request t ins outs = SubmitBuild (tr_drv_path t) (tr_system t) (tr_features t)
     (map (\<lambda>sp. \<lparr>ii_store_path = sp, ii_blake3 = replicate 32 0\<rparr>) ins) outs"

text \<open>A round whose build is accepted and submitted goes on with polling.\<close>

lemma accepted_round:
  assumes "round_ok t ins outs" "hk_stdin h = feed (round_enc t ins outs) r"
    and "call (HasBuilders (tr_system t # tr_features t)) (hk_client h) = (Inr (BuildersAvailable True n), c1)"
    and "call (submit_request t ins outs) c1 = (Inr (BuildSubmitted jid), c2)"
  shows "hook_rounds ue call vec_put h =
    Option.bind (poll_until_done call jid (hk_fd4 h) (h\<lparr>hk_stderr := hk_stderr h @
        as_bytes (line ''# accept'' @ machine_spec t), hk_stdin := r, hk_client := c2\<rparr>))
      (\<lambda>(res, h2). case res of Inl e \<Rightarrow> Some (Inl e, h2\<lparr>hk_fd4 := False\<rparr>)
         | Inr _ \<Rightarrow> hook_rounds ue call vec_put (h2\<lparr>hk_fd4 := False\<rparr>))"
proof -
  let ?r = "feed (string_set_enc ins @ string_set_enc outs) r"
  have stdin: "hk_stdin h = feed (try_enc t) ?r" using assms(2) by (simp add: round_enc_def)
  have ok: "try_ok t" "string_set_ok ins" "string_set_ok outs" using assms(1) by (auto simp: round_ok_def)
  show ?thesis
    unfolding hook_rounds_try [OF stdin] hook_round_def
    by (simp add: read_try_request_feed [OF ok(1), of _ ?r] decide_def hook_call_def has_builders_reply_def
        assms(3) write_decision_def vec_put_def submit_accepted_def read_in_def codec_simps ok(2,3)
        assms(4) [unfolded submit_request_def] submit_reply_def open_log_fd_def as_bytes_append
        split: bind_splits option.split prod.split)
qed

section \<open>A hook that hangs\<close>

text \<open>A daemon that accepts every build and reports none as finished.\<close>

locale endless_daemon =
  fixes call :: "control_request \<Rightarrow> 'c \<Rightarrow> control_response result \<times> 'c"
    and inv :: "'c \<Rightarrow> bool"
  assumes offers: "inv c \<Longrightarrow> \<exists>n c'. call (HasBuilders fs) c = (Inr (BuildersAvailable True n), c') \<and> inv c'"
    and submits: "inv c \<Longrightarrow> \<exists>jid c'. call (SubmitBuild p sys fs ins outs) c = (Inr (BuildSubmitted jid), c') \<and> inv c'"
    and polls: "inv c \<Longrightarrow> \<exists>status c'. call (PollBuild jid) c = (Inr (BuildStatus status), c') \<and> unfinished status \<and> inv c'"
begin

text \<open>The first build that nix-daemon offers keeps the hook for ever.\<close>

lemma hook_hangs:
  assumes "settings_ok kvs" "round_ok t ins outs" "inv c"
  shows "run_build_hook ue (Inr c) call vec_put (feed (settings_enc kvs @ round_enc t ins outs) r) err fd4 log = None"
proof -
  obtain n c1 where has: "call (HasBuilders (tr_system t # tr_features t)) c = (Inr (BuildersAvailable True n), c1)" "inv c1"
    using offers [OF assms(3)] by blast
  obtain jid c2 where sub: "call (submit_request t ins outs) c1 = (Inr (BuildSubmitted jid), c2)" "inv c2"
    using submits [OF has(2)] unfolding submit_request_def by blast
  have "poll_until_done call jid lf h' = None" if "inv (hk_client h')" for lf and h' :: "('c, byte list) hook"
    using polls that by (rule poll_diverges)
  then show ?thesis
    using accepted_round [OF assms(2), of "\<lparr>hk_stdin = feed (round_enc t ins outs) r, hk_client = c, hk_stderr = err,
        hk_fd4 = fd4, hk_log = log\<rparr>" r call n c1 jid c2 ue] has sub
    by (simp add: run_build_hook_def read_settings_feed [OF assms(1)])
qed

end

lemma daemon_poll_unfinished:
  "\<exists>status c'. daemon_call blake3 show_id clock env (PollBuild jid) c = (Inr (BuildStatus status), c')
     \<and> unfinished status"
  by (cases c) (auto simp: daemon_call_def poll_atomic unfinished_def split: option.split)

lemma daemon_submits:
  "\<exists>jid c'. daemon_call blake3 show_id clock env (SubmitBuild p s fs ins outs) c = (Inr (BuildSubmitted jid), c')"
  by (cases c) (auto simp: daemon_call_def Let_def split: prod.splits)

lemma daemon_offers:
  "\<exists>n c'. daemon_call blake3 show_id clock env (HasBuilders fs) c = (Inr (BuildersAvailable True n), c')"
  by (cases c) (simp add: daemon_call_def)

interpretation daemon: endless_daemon "daemon_call blake3 show_id clock env" "\<lambda>_. True"
  by unfold_locales (simp_all only: simp_thms daemon_offers daemon_submits daemon_poll_unfinished)


definition sample_try :: try_request where
  "sample_try = \<lparr>tr_am_willing = 1, tr_system = ''x86_64-linux'', tr_drv_path = ''/nix/store/a.drv'',
     tr_features = [''kvm'']\<rparr>"

lemma sample_round_ok: "round_ok sample_try [''/nix/store/in''] [''out'']"
  by (simp add: round_ok_def try_ok_def sample_try_def string_set_ok_def string_ok_def is_ascii_def isize_max_def)


section \<open>A scripted daemon\<close>

text \<open>A client whose answers are given one after the other; then the connection is closed.\<close>

definition scripted :: "control_response list caller" where
  "scripted req c = (case c of [] \<Rightarrow> (throw (Io UnexpectedEof ''early eof''), []) | r # rs \<Rightarrow> (Inr r, rs))"

definition status_lines :: "build_state \<Rightarrow> string list" where
  "status_lines status = (case status of
     Pending \<Rightarrow> []
   | Building b \<Rightarrow> [''iroh-nix: building on remote builder '' @ b]
   | Completed outputs \<Rightarrow> map output_line outputs
   | Failed e \<Rightarrow> [''iroh-nix: build failed: '' @ e])"

definition build_outcome :: "build_state \<Rightarrow> unit result" where
  "build_outcome status = (case status of
     Failed e \<Rightarrow> throw (Build (''remote build failed: '' @ e)) | _ \<Rightarrow> Inr ())"

definition log_lines :: "bool \<Rightarrow> string list \<Rightarrow> send_stream \<Rightarrow> send_stream" where
  "log_lines log_fd ls s = (if log_fd then fold (\<lambda>l. snd \<circ> stream_write (as_bytes (line l))) ls s else s)"

lemma hook_call_scripted:
  "hk_client h = r # rs \<Longrightarrow> hook_call scripted req reply h = (reply r, h\<lparr>hk_client := rs\<rparr>)"
  by (simp add: hook_call_def scripted_def)

lemma fold_log_line: "fold (log_line lf) ls h = h\<lparr>hk_log := log_lines lf ls (hk_log h)\<rparr>"
  by (induction ls arbitrary: h) (simp_all add: log_line_def log_lines_def line_def)

lemma log_line_eq: "log_line lf l h = h\<lparr>hk_log := log_lines lf [l] (hk_log h)\<rparr>"
  using fold_log_line [of lf "[l]" h] by simp

lemma log_lines_append: "log_lines lf (a @ b) s = log_lines lf b (log_lines lf a s)"
  by (simp add: log_lines_def)

lemma log_lines_Nil [simp]: "log_lines lf [] s = s"
  by (simp add: log_lines_def)

lemma poll_scripted:
  assumes "list_all unfinished ss" "\<not> unfinished final" "hk_client h = map BuildStatus (ss @ [final]) @ rest"
  shows "poll_until_done scripted jid lf h = Some (build_outcome final,
    h\<lparr>hk_client := rest, hk_log := log_lines lf (concat (map status_lines (ss @ [final]))) (hk_log h)\<rparr>)"
  using assms
proof (induction ss arbitrary: h)
  case Nil
  then have c: "hook_call scripted (PollBuild jid) poll_reply h = (Inr final, h\<lparr>hk_client := rest\<rparr>)"
    by (simp add: hook_call_scripted poll_reply_def)
  show ?case
    using Nil(2) by (subst poll_until_done.simps)
      (cases final; simp add: c unfinished_def build_outcome_def status_lines_def fold_log_line log_line_eq)
next
  case (Cons s ss)
  let ?h = "h\<lparr>hk_client := map BuildStatus (ss @ [final]) @ rest\<rparr>"
  have c: "hook_call scripted (PollBuild jid) poll_reply h = (Inr s, ?h)"
    using Cons.prems(3) by (simp add: hook_call_scripted poll_reply_def)
  have IH: "poll_until_done scripted jid lf (?h\<lparr>hk_log := l\<rparr>) = Some (build_outcome final,
      h\<lparr>hk_client := rest, hk_log := log_lines lf (concat (map status_lines (ss @ [final]))) l\<rparr>)" for l
    using Cons.prems Cons.IH [of "?h\<lparr>hk_log := l\<rparr>"] by simp
  show ?case
    using Cons.prems(1) IH [of "hk_log h"] IH [of "log_lines lf (status_lines s) (hk_log h)"]
    by (subst poll_until_done.simps)
       (cases s; simp add: c unfinished_def status_lines_def log_line_eq log_lines_append [symmetric])
qed

definition decline_line :: "try_request \<Rightarrow> string" where
  "decline_line t = line (if tr_am_willing t = 0 then ''# postpone'' else ''# decline'')"

lemma declined_round:
  assumes "try_ok t" "hk_stdin h = feed (try_enc t) r"
    and "call (HasBuilders (tr_system t # tr_features t)) (hk_client h) = (Inr (BuildersAvailable False n), c1)"
  shows "hook_rounds ue call vec_put h = hook_rounds ue call vec_put
    (h\<lparr>hk_stdin := r, hk_client := c1, hk_stderr := hk_stderr h @ as_bytes (decline_line t)\<rparr>)"
  unfolding hook_rounds_try [OF assms(2)] hook_round_def
  by (simp add: read_try_request_feed [OF assms(1), of _ r] decide_def hook_call_def has_builders_reply_def
      assms(3) write_decision_def vec_put_def decline_line_def)

lemma declined_rounds:
  assumes "list_all try_ok ts" "hk_stdin h = feed (concat (map try_enc ts)) r"
    and "hk_client h = map (\<lambda>_. BuildersAvailable False 0) ts @ cs"
  shows "hook_rounds ue scripted vec_put h = hook_rounds ue scripted vec_put
    (h\<lparr>hk_stdin := r, hk_client := cs, hk_stderr := hk_stderr h @ as_bytes (concat (map decline_line ts))\<rparr>)"
  using assms
proof (induction ts arbitrary: h)
  case Nil
  then have "h = h\<lparr>hk_stdin := r, hk_client := cs, hk_stderr := hk_stderr h @ as_bytes (concat (map decline_line []))\<rparr>"
    by (simp add: as_bytes_def)
  then show ?case by (rule arg_cong)
next
  case (Cons t ts)
  let ?h = "h\<lparr>hk_stdin := feed (concat (map try_enc ts)) r,
    hk_client := map (\<lambda>_. BuildersAvailable False 0) ts @ cs,
    hk_stderr := hk_stderr h @ as_bytes (decline_line t)\<rparr>"
  have "hook_rounds ue scripted vec_put h = hook_rounds ue scripted vec_put ?h"
    using Cons.prems by (intro declined_round) (simp_all add: scripted_def)
  with Cons.IH [of ?h] Cons.prems(1) show ?case by (simp add: as_bytes_append)
qed

text \<open>
  A session of the hook. The builds offered while no builder is known are declined one by
  one, or postponed when nix-daemon cannot build them itself; the next is accepted with its
  machine line and submitted, and polled until an answer is final. The log holds a line for
  every poll that found it running and for the outcome; the hook ends with success exactly when
  the build completed.
\<close>

theorem hook_transcript:
  assumes "settings_ok kvs" "list_all try_ok ds" "round_ok t ins outs"
    and "list_all unfinished ss" "\<not> unfinished final"
  shows "run_build_hook ue (Inr (map (\<lambda>_. BuildersAvailable False 0) ds @ [BuildersAvailable True n, BuildSubmitted jid] @
      map BuildStatus (ss @ [final]))) scripted vec_put
      (cursor (settings_enc kvs @ concat (map try_enc ds) @ round_enc t ins outs)) [] fd4 log =
    Some (build_outcome final, Some \<lparr>hk_stdin = cursor [], hk_client = [],
      hk_stderr = as_bytes (concat (map decline_line ds) @ line ''# accept'' @ machine_spec t), hk_fd4 = False,
      hk_log = log_lines fd4 (concat (map status_lines (ss @ [final]))) log\<rparr>)"
proof -
  let ?polls = "map BuildStatus (ss @ [final])"
  let ?h0 = "\<lparr>hk_stdin = feed (concat (map try_enc ds)) (cursor (round_enc t ins outs)),
    hk_client = map (\<lambda>_. BuildersAvailable False 0) ds @ [BuildersAvailable True n, BuildSubmitted jid] @ ?polls,
    hk_stderr = [], hk_fd4 = fd4, hk_log = log\<rparr>"
  let ?h1 = "\<lparr>hk_stdin = feed (round_enc t ins outs) (cursor []),
    hk_client = [BuildersAvailable True n, BuildSubmitted jid] @ ?polls,
    hk_stderr = as_bytes (concat (map decline_line ds)), hk_fd4 = fd4, hk_log = log\<rparr>"
  have "hook_rounds ue scripted vec_put ?h0 = hook_rounds ue scripted vec_put ?h1"
    by (subst declined_rounds [OF assms(2)]) (simp_all add: feed_cursor)
  moreover have "hook_rounds ue scripted vec_put ?h1 = Some (build_outcome final, \<lparr>hk_stdin = cursor [], hk_client = [],
      hk_stderr = as_bytes (concat (map decline_line ds) @ line ''# accept'' @ machine_spec t), hk_fd4 = False,
      hk_log = log_lines fd4 (concat (map status_lines (ss @ [final]))) log\<rparr>)"
    by (subst accepted_round [OF assms(3), where r = "cursor []" and n = n and jid = jid and ?c1.0 = "BuildSubmitted jid # ?polls"
          and ?c2.0 = ?polls])
       (simp_all add: scripted_def poll_scripted [OF assms(4,5), where rest = "[]"] as_bytes_append
          hook_rounds_eof build_outcome_def split: build_state.split)
  ultimately show ?thesis
    using read_settings_feed [OF assms(1), of ue "[]" "cursor (concat (map try_enc ds) @ round_enc t ins outs)"]
    by (simp add: run_build_hook_def feed_cursor)
qed

theorem hook_transcript_witness:
  "fst (the (run_build_hook (\<lambda>_. []) (Inr [BuildersAvailable False 0, BuildersAvailable True 1, BuildSubmitted 1,
       BuildStatus Pending, BuildStatus (Completed [])]) scripted vec_put
     (cursor (settings_enc [(''cores'', ''8'')] @ try_enc sample_try @ round_enc sample_try [''/nix/store/in''] [''out'']))
     [] True open_stream)) = Inr ()"
  using hook_transcript [of "[(''cores'', ''8'')]" "[sample_try]" sample_try "[''/nix/store/in'']" "[''out'']"
      "[Pending]" "Completed []" "\<lambda>_. []" 1 1 True open_stream] sample_round_ok
  by (simp add: settings_ok_def string_ok_def is_ascii_def isize_max_def unfinished_def round_ok_def build_outcome_def)

section \<open>A hook that returns\<close>

definition poll_state :: "'c caller \<Rightarrow> job_id \<Rightarrow> nat \<Rightarrow> 'c \<Rightarrow> 'c" where
  "poll_state call jid n c = ((\<lambda>c. snd (call (PollBuild jid) c)) ^^ n) c"

definition goes_on :: "control_response result \<Rightarrow> bool" where
  "goes_on res = (case res of Inr (BuildStatus status) \<Rightarrow> unfinished status | _ \<Rightarrow> False)"

text \<open>Some poll of the job is not answered with an unfinished state.\<close>

definition poll_ends :: "'c caller \<Rightarrow> job_id \<Rightarrow> 'c \<Rightarrow> bool" where
  "poll_ends call jid c \<longleftrightarrow> (\<exists>n. \<not> goes_on (fst (call (PollBuild jid) (poll_state call jid n c))))"

lemma poll_returns:
  fixes h :: "('c, 'e) hook"
  assumes "\<not> goes_on (fst (call (PollBuild jid) (poll_state call jid n (hk_client h))))"
  shows "\<exists>res h'. poll_until_done call jid lf h = Some (res, h') \<and> hk_stdin h' = hk_stdin h"
  using assms
proof (induction n arbitrary: h)
  case 0
  obtain res c where c: "call (PollBuild jid) (hk_client h) = (res, c)" by fastforce
  with 0 have "\<not> goes_on res" by (simp add: poll_state_def)
  with c show ?case
    by (subst poll_until_done.simps)
       (auto simp: hook_call_def poll_reply_def goes_on_def unfinished_def fold_log_line log_line_eq
         split: sum.split control_response.split build_state.split)
next
  case (Suc n)
  obtain res c where c: "call (PollBuild jid) (hk_client h) = (res, c)" by fastforce
  have "poll_state call jid (Suc n) (hk_client h) = poll_state call jid n c"
    by (simp add: poll_state_def funpow_Suc_right c del: funpow.simps)
  with Suc.prems have "\<not> goes_on (fst (call (PollBuild jid) (poll_state call jid n c)))" by simp
  then have IH: "\<exists>res h''. poll_until_done call jid lf h' = Some (res, h'') \<and> hk_stdin h'' = hk_stdin h'"
    if "hk_client h' = c" for h' :: "('c, 'e) hook"
    using Suc.IH [of h'] that by simp
  have "\<exists>res h''. poll_until_done call jid lf (h\<lparr>hk_client := c, hk_log := l\<rparr>) = Some (res, h'') \<and> hk_stdin h'' = hk_stdin h" for l
    using IH [of "h\<lparr>hk_client := c, hk_log := l\<rparr>"] by simp
  then show ?case
    using c IH [of "h\<lparr>hk_client := c\<rparr>"]
    by (subst poll_until_done.simps)
       (auto simp: hook_call_def poll_reply_def fold_log_line log_line_eq
         split: sum.split control_response.split build_state.split)
qed

text \<open>What is left of the input; no step gives any back.\<close>

definition left :: "('c, 'e) hook \<Rightarrow> nat" where
  "left h = length (avail (hk_stdin h))"

lemma left_bind:
  "left (snd m) \<le> n \<Longrightarrow> (\<And>x h. left h \<le> n \<Longrightarrow> left (snd (f x h)) \<le> n) \<Longrightarrow> left (snd (st_bind m f)) \<le> n"
  by (cases m) (auto simp: st_bind_def split: sum.split)

lemma left_read:
  "(\<And>r x r'. rd r = Inr (x, r') \<Longrightarrow> length (avail r') \<le> length (avail r)) \<Longrightarrow> left h \<le> n \<Longrightarrow>
     left (snd (read_in rd h)) \<le> n"
  by (force simp: read_in_def left_def split: sum.splits)

lemma left_steps:
  "left h \<le> n \<Longrightarrow> left (snd (hook_call call req reply h)) \<le> n"
  "left h \<le> n \<Longrightarrow> left (snd (write_decision put m h)) \<le> n"
  "left h \<le> n \<Longrightarrow> left (snd (read_in read_u32 h)) \<le> n"
  "left h \<le> n \<Longrightarrow> left (snd (read_in (read_string ue) h)) \<le> n"
  "left h \<le> n \<Longrightarrow> left (snd (read_in (read_string_set ue) h)) \<le> n"
  by (auto simp: hook_call_def write_decision_def left_def split: prod.splits sum.splits)
     (auto intro!: left_read [unfolded left_def]
        dest: read_u32_shorter read_string_shorter read_string_set_shorter intro: less_imp_le)

lemma left_round:
  "left h \<le> n \<Longrightarrow> left (snd (read_try_request ue h)) \<le> n"
  "left h \<le> n \<Longrightarrow> left (snd (decide call put t h)) \<le> n"
  "left h \<le> n \<Longrightarrow> left (snd (submit_accepted ue call t h)) \<le> n"
  by (auto simp: read_try_request_def decide_def submit_accepted_def intro!: left_bind left_steps)

lemma hook_round_returns:
  assumes "\<And>jid c. poll_ends call jid c"
  shows "\<exists>res h'. hook_round ue call put h = Some (res, h') \<and> left h' \<le> left h"
proof -
  obtain r1 h1 where 1: "read_try_request ue h = (r1, h1)" by fastforce
  then have l1: "left h1 \<le> left h" using left_round(1) [of h _ ue] by fastforce
  show ?thesis
  proof (cases r1)
    case (Inr t)
    obtain r2 h2 where 2: "decide call put t h1 = (r2, h2)" by fastforce
    then have l2: "left h2 \<le> left h" using left_round(2) [of h1 _ call put t] l1 by fastforce
    obtain r3 h3 where 3: "submit_accepted ue call t h2 = (r3, h3)" by fastforce
    then have l3: "left h3 \<le> left h" using left_round(3) [of h2 _ ue call t] l2 by fastforce
    have "\<exists>res h'. poll_until_done call jid (open_log_fd h3) h3 = Some (res, h') \<and> hk_stdin h' = hk_stdin h3" for jid
      using assms [of jid "hk_client h3"] poll_returns unfolding poll_ends_def by blast
    then have polls: "\<exists>res h'. poll_until_done call jid (open_log_fd h3) h3 = Some (res, h') \<and> left h' = left h3" for jid
      by (metis left_def)
    show ?thesis
    proof (cases r3)
      case (Inr jid)
      obtain res h' where "poll_until_done call jid (open_log_fd h3) h3 = Some (res, h')" "left h' = left h3"
        using polls by blast
      with 1 2 3 l2 l3 Inr \<open>r1 = Inr t\<close> show ?thesis
        by (cases r2) (auto simp: hook_round_def left_def)
    qed (use 1 2 3 l2 l3 Inr in \<open>cases r2; auto simp: hook_round_def\<close>)
  qed (use 1 l1 in \<open>simp add: hook_round_def\<close>)
qed

lemma hook_rounds_return:
  assumes "\<And>jid c. poll_ends call jid c"
  shows "\<exists>y. hook_rounds ue call put h = Some y"
proof (induction "left h" arbitrary: h rule: less_induct)
  case less
  show ?case
  proof (cases "read_string ue (hk_stdin h)")
    case (Inl e)
    then show ?thesis
      by (subst hook_rounds.simps) (simp add: read_in_def split: fault.split)
  next
    case (Inr sr)
    then obtain s r where sr: "read_string ue (hk_stdin h) = Inr (s, r)" by (cases sr) auto
    obtain res h' where round: "hook_round ue call put (h\<lparr>hk_stdin := r\<rparr>) = Some (res, h')" "left h' \<le> left (h\<lparr>hk_stdin := r\<rparr>)"
      using hook_round_returns [OF assms] by blast
    have "left h' < left h"
      using round(2) read_string_shorter [OF sr] by (simp add: left_def)
    from less [OF this] sr round(1) show ?thesis
      by (subst hook_rounds.simps) (auto simp: read_in_def split: sum.split)
  qed
qed

text \<open>
  C31: The hook returns on every input, whatever is read and however the writes go, if every job
  is reported as ended at some poll (or a poll fails).
\<close>

theorem hook_returns:
  assumes "\<And>jid c. poll_ends call jid c"
  shows "\<exists>y. run_build_hook ue connect call put stdin err fd4 log = Some y"
  using hook_rounds_return [OF assms, of ue put] by (auto simp: run_build_hook_def split: sum.split)

lemma scripted_ends: "poll_ends scripted jid c"
proof -
  have "poll_state scripted jid (length c) c = []"
    by (induction c) (simp_all add: poll_state_def scripted_def funpow_Suc_right del: funpow.simps)
  then show ?thesis
    unfolding poll_ends_def by (intro exI [of _ "length c"]) (simp add: scripted_def goes_on_def)
qed

theorem hook_returns_witness:
  "\<exists>y. run_build_hook (\<lambda>_. []) (Inr [BuildersAvailable True 1]) scripted vec_put
     (cursor (settings_enc [] @ try_enc sample_try)) [] False open_stream = Some y"
  by (rule hook_returns) (rule scripted_ends)

text \<open>The settings keep the last value of a key.\<close>

lemma settings_last:
  "settings_ok kvs \<Longrightarrow> \<exists>m. read_settings ue [] (cursor (settings_enc kvs)) = Inr (m, cursor []) \<and> hm_wf m \<and>
     (\<forall>k. hm_get k m = map_of (rev kvs) k)"
proof -
  have "hm_wf m \<Longrightarrow> hm_wf (fold (\<lambda>kv. hm_insert (fst kv) (snd kv)) kvs m) \<and>
      hm_get k (fold (\<lambda>kv. hm_insert (fst kv) (snd kv)) kvs m) = (case map_of (rev kvs) k of None \<Rightarrow> hm_get k m | x \<Rightarrow> x)" for m k
    by (induction kvs rule: rev_induct) auto
  from this [of "[]"] show "\<exists>m. read_settings ue [] (cursor (settings_enc kvs)) = Inr (m, cursor []) \<and> hm_wf m \<and>
     (\<forall>k. hm_get k m = map_of (rev kvs) k)" if "settings_ok kvs"
    using read_settings_feed [OF that, of ue "[]" "cursor []"]
    by (simp add: feed_cursor split: option.splits)
qed

end
