(* ===== verification/Gossip.thy ===== *)
theory Gossip
  imports Build_Queue
begin

text \<open>
  The discovery service of \<open>gossip.rs\<close>: the messages, the provider and requester caches, the
  receiver loop over the events of the gossip topic, and the announcements. An endpoint id is
  its 32 bytes; \<open>valid_id\<close> says for which byte strings \<open>EndpointId::from_bytes\<close> succeeds. The
  postcard encoding and the topic's broadcast are parameters. The callbacks are a trace: each
  invocation is recorded with its argument.
\<close>

section \<open>Messages and caches\<close>

datatype gossip_message =
  Have hash32 string u64
| Want hash32
| IHave hash32 string u64
| NeedBuilder hash32 "string list"
| BuildComplete build_result

definition to_bytes :: "(gossip_message \<Rightarrow> string + byte list) \<Rightarrow> gossip_message \<Rightarrow> byte list result" where
  "to_bytes encode msg = (case encode msg of Inl e \<Rightarrow> throw (Protocol (''serialize: '' @ e)) | Inr b \<Rightarrow> Inr b)"

definition from_bytes :: "(byte list \<Rightarrow> string + gossip_message) \<Rightarrow> byte list \<Rightarrow> gossip_message result" where
  "from_bytes decode b = (case decode b of Inl e \<Rightarrow> throw (Protocol (''deserialize: '' @ e)) | Inr m \<Rightarrow> Inr m)"

record provider_info =
  pi_endpoint_id :: endpoint_id
  pi_store_path :: string
  pi_nar_size :: u64

record requester_info =
  ri_endpoint_id :: endpoint_id
  ri_system_features :: "string list"

type_synonym provider_cache = "(hash32, provider_info list) hmap"
type_synonym requester_cache = "(hash32, requester_info) hmap"

text \<open>\<open>entry(k).or_default()\<close> leaves an empty vector behind for a new key.\<close>

definition entry_or_default :: "hash32 \<Rightarrow> provider_cache \<Rightarrow> provider_cache" where
  "entry_or_default h c = (case hm_get h c of None \<Rightarrow> hm_insert h [] c | Some l \<Rightarrow> c)"

definition add_provider :: "hash32 \<Rightarrow> provider_info \<Rightarrow> provider_cache \<Rightarrow> provider_cache" where
  "add_provider h info c =
     hm_modify h (\<lambda>providers. if list_ex (\<lambda>p. pi_endpoint_id p = pi_endpoint_id info) providers
                              then providers else providers @ [info]) (entry_or_default h c)"

definition cached_providers :: "hash32 \<Rightarrow> provider_cache \<Rightarrow> provider_info list option" where
  "cached_providers h c = hm_get h c"

definition remove_provider :: "endpoint_id \<Rightarrow> provider_cache \<Rightarrow> provider_cache" where
  "remove_provider e c = map (\<lambda>(h, ps). (h, filter (\<lambda>p. pi_endpoint_id p \<noteq> e) ps)) c"

definition add_requester :: "requester_info \<Rightarrow> requester_cache \<Rightarrow> requester_cache" where
  "add_requester info c = hm_insert (ri_endpoint_id info) info c"

definition remove_requester :: "endpoint_id \<Rightarrow> requester_cache \<Rightarrow> requester_cache" where
  "remove_requester e c = hm_remove e c"

definition matching_requesters :: "string list \<Rightarrow> requester_cache \<Rightarrow> requester_info list" where
  "matching_requesters our_features c =
     filter (\<lambda>r. list_all (\<lambda>f. f \<in> set our_features) (ri_system_features r)) (map snd c)"

definition all_requesters :: "requester_cache \<Rightarrow> requester_info list" where
  "all_requesters c = map snd c"

section \<open>The service\<close>

datatype gossip_call = NeedBuilderCall requester_info | BuildCompleteCall build_result

record gossip_service =
  gs_providers :: provider_cache
  gs_requesters :: requester_cache
  gs_our_id :: endpoint_id
  gs_need_builder_callback :: bool
  gs_build_complete_callback :: bool
  gs_calls :: "gossip_call list"

definition gossip_new :: "endpoint_id \<Rightarrow> bool \<Rightarrow> bool \<Rightarrow> gossip_service" where
  "gossip_new our_id on_need on_complete = \<lparr>gs_providers = [], gs_requesters = [], gs_our_id = our_id,
     gs_need_builder_callback = on_need, gs_build_complete_callback = on_complete, gs_calls = []\<rparr>"

text \<open>
  Joining the gossip: the topic is the BLAKE3 hash of the network's name, \<open>subscribe\<close> is the error
  of subscribing to it through the bootstrap peers. The service starts with empty caches.
\<close>

definition with_callbacks :: "(byte list \<Rightarrow> hash32) \<Rightarrow> (hash32 \<Rightarrow> endpoint_id list \<Rightarrow> string option) \<Rightarrow> endpoint_id \<Rightarrow>
    string \<Rightarrow> endpoint_id list \<Rightarrow> bool \<Rightarrow> bool \<Rightarrow> gossip_service result" where
  "with_callbacks blake3 subscribe our_id network_id bootstrap on_need on_complete =
     (case subscribe (blake3 (as_bytes network_id)) bootstrap of
        Some e \<Rightarrow> throw (error.Gossip (''failed to subscribe: '' @ e))
      | None \<Rightarrow> Inr (gossip_new our_id on_need on_complete))"

definition gossip_join :: "(byte list \<Rightarrow> hash32) \<Rightarrow> (hash32 \<Rightarrow> endpoint_id list \<Rightarrow> string option) \<Rightarrow> endpoint_id \<Rightarrow>
    string \<Rightarrow> endpoint_id list \<Rightarrow> gossip_service result" where
  "gossip_join blake3 subscribe our_id network_id bootstrap =
     with_callbacks blake3 subscribe our_id network_id bootstrap False False"

fun add_outputs :: "endpoint_id \<Rightarrow> build_output list \<Rightarrow> provider_cache \<Rightarrow> provider_cache" where
  "add_outputs b [] c = c"
| "add_outputs b (out # outs) c =
     add_outputs b outs (add_provider (bo_blake3 out)
       \<lparr>pi_endpoint_id = b, pi_store_path = bo_store_path out, pi_nar_size = bo_nar_size out\<rparr> c)"

definition handle_message :: "(byte list \<Rightarrow> string + gossip_message) \<Rightarrow> (byte list \<Rightarrow> bool) \<Rightarrow>
    byte list \<Rightarrow> endpoint_id \<Rightarrow> gossip_service \<Rightarrow> unit result \<times> gossip_service" where
  "handle_message decode valid_id content from g =
     (case from_bytes decode content of
        Inl e \<Rightarrow> (Inl e, g)
      | Inr (Have h path sz) \<Rightarrow>
          (Inr (), g\<lparr>gs_providers := add_provider h
             \<lparr>pi_endpoint_id = from, pi_store_path = path, pi_nar_size = sz\<rparr> (gs_providers g)\<rparr>)
      | Inr (Want h) \<Rightarrow> (Inr (), g)
      | Inr (IHave h path sz) \<Rightarrow>
          (Inr (), g\<lparr>gs_providers := add_provider h
             \<lparr>pi_endpoint_id = from, pi_store_path = path, pi_nar_size = sz\<rparr> (gs_providers g)\<rparr>)
      | Inr (NeedBuilder requester features) \<Rightarrow>
          if \<not> valid_id requester then (throw (Protocol ''invalid requester ID''), g)
          else let info = \<lparr>ri_endpoint_id = requester, ri_system_features = features\<rparr>;
                   g1 = g\<lparr>gs_requesters := add_requester info (gs_requesters g)\<rparr>
               in (Inr (), if gs_need_builder_callback g1
                           then g1\<lparr>gs_calls := gs_calls g1 @ [NeedBuilderCall info]\<rparr> else g1)
      | Inr (BuildComplete res) \<Rightarrow>
          if \<not> valid_id (br_builder res) then (throw (Protocol ''invalid builder ID''), g)
          else let g1 = g\<lparr>gs_providers := add_outputs (br_builder res) (br_outputs res) (gs_providers g)\<rparr>
               in (Inr (), if gs_build_complete_callback g1
                           then g1\<lparr>gs_calls := gs_calls g1 @ [BuildCompleteCall res]\<rparr> else g1))"

text \<open>The events of a topic; \<open>delivered_from\<close> is the peer that passed the message on.\<close>

datatype gossip_event =
  Received "byte list" endpoint_id
| NeighborUp endpoint_id
| NeighborDown endpoint_id
| Lagged
| ReceiverError string

fun receive_event :: "(byte list \<Rightarrow> string + gossip_message) \<Rightarrow> (byte list \<Rightarrow> bool) \<Rightarrow>
    gossip_event \<Rightarrow> gossip_service \<Rightarrow> gossip_service" where
  "receive_event decode valid_id (Received content from) g = snd (handle_message decode valid_id content from g)"
| "receive_event decode valid_id (NeighborUp peer) g = g"
| "receive_event decode valid_id (NeighborDown peer) g =
     g\<lparr>gs_providers := remove_provider peer (gs_providers g),
       gs_requesters := remove_requester peer (gs_requesters g)\<rparr>"
| "receive_event decode valid_id Lagged g = g"
| "receive_event decode valid_id (ReceiverError e) g = g"

fun run_receiver :: "(byte list \<Rightarrow> string + gossip_message) \<Rightarrow> (byte list \<Rightarrow> bool) \<Rightarrow>
    gossip_event list \<Rightarrow> gossip_service \<Rightarrow> gossip_service" where
  "run_receiver decode valid_id [] g = g"
| "run_receiver decode valid_id (ev # evs) g =
     run_receiver decode valid_id evs (receive_event decode valid_id ev g)"

text \<open>
  The announcements. \<open>broadcast\<close> gives the error text of a failed send; the result lists the
  bytes handed to the topic.
\<close>

definition broadcast_message :: "(gossip_message \<Rightarrow> string + byte list) \<Rightarrow>
    (byte list \<Rightarrow> string option) \<Rightarrow> gossip_message \<Rightarrow> unit result \<times> byte list list" where
  "broadcast_message encode broadcast msg =
     (case to_bytes encode msg of
        Inl e \<Rightarrow> (Inl e, [])
      | Inr b \<Rightarrow> (case broadcast b of
                    Some e \<Rightarrow> (throw (Gossip (''broadcast failed: '' @ e)), [])
                  | None \<Rightarrow> (Inr (), [b])))"

definition announce_have :: "(gossip_message \<Rightarrow> string + byte list) \<Rightarrow> (byte list \<Rightarrow> string option) \<Rightarrow>
    hash32 \<Rightarrow> string \<Rightarrow> u64 \<Rightarrow> unit result \<times> byte list list" where
  "announce_have encode broadcast h path sz = broadcast_message encode broadcast (Have h path sz)"

definition query_want :: "(gossip_message \<Rightarrow> string + byte list) \<Rightarrow> (byte list \<Rightarrow> string option) \<Rightarrow>
    hash32 \<Rightarrow> unit result \<times> byte list list" where
  "query_want encode broadcast h = broadcast_message encode broadcast (Want h)"

definition announce_need_builder :: "(gossip_message \<Rightarrow> string + byte list) \<Rightarrow>
    (byte list \<Rightarrow> string option) \<Rightarrow> string list \<Rightarrow> gossip_service \<Rightarrow> unit result \<times> byte list list" where
  "announce_need_builder encode broadcast features g =
     broadcast_message encode broadcast (NeedBuilder (gs_our_id g) features)"

definition announce_build_complete :: "(gossip_message \<Rightarrow> string + byte list) \<Rightarrow>
    (byte list \<Rightarrow> string option) \<Rightarrow> build_result \<Rightarrow> unit result \<times> byte list list" where
  "announce_build_complete encode broadcast res =
     broadcast_message encode broadcast (BuildComplete res)"

definition get_providers :: "hash32 \<Rightarrow> gossip_service \<Rightarrow> provider_info list" where
  "get_providers h g = (case cached_providers h (gs_providers g) of None \<Rightarrow> [] | Some ps \<Rightarrow> ps)"

definition get_matching_requesters :: "string list \<Rightarrow> gossip_service \<Rightarrow> requester_info list" where
  "get_matching_requesters our_features g = matching_requesters our_features (gs_requesters g)"

definition get_all_requesters :: "gossip_service \<Rightarrow> requester_info list" where
  "get_all_requesters g = all_requesters (gs_requesters g)"

definition has_peers :: "gossip_service \<Rightarrow> bool" where
  "has_peers g \<longleftrightarrow> all_requesters (gs_requesters g) \<noteq> [] \<or> gs_providers g \<noteq> []"

text \<open>The arguments are what the gossip library answers.\<close>

definition add_peers :: "(endpoint_id list \<Rightarrow> string option) \<Rightarrow> endpoint_id list \<Rightarrow> unit result" where
  "add_peers join_peers peers = (case join_peers peers of
     Some e \<Rightarrow> throw (error.Gossip (''join_peers failed: '' @ e)) | None \<Rightarrow> Inr ())"

definition gossip_shutdown :: "string option \<Rightarrow> unit result" where
  "gossip_shutdown failure = (case failure of
     Some e \<Rightarrow> throw (error.Gossip (''shutdown failed: '' @ e)) | None \<Rightarrow> Inr ())"

section \<open>The caches as maps\<close>

text \<open>
  The abstract state: for each hash and peer the store path and size the peer was first
  credited with, and for each peer the features it asked for last.
\<close>

definition provider_map :: "provider_cache \<Rightarrow> hash32 \<times> endpoint_id \<Rightarrow> (string \<times> u64) option" where
  "provider_map c = (\<lambda>(h, e). case hm_get h c of None \<Rightarrow> None
     | Some ps \<Rightarrow> map_option (\<lambda>p. (pi_store_path p, pi_nar_size p))
                             (List.find (\<lambda>p. pi_endpoint_id p = e) ps))"

definition requester_map :: "requester_cache \<Rightarrow> endpoint_id \<Rightarrow> string list option" where
  "requester_map c e = map_option ri_system_features (hm_get e c)"

definition caches_wf :: "gossip_service \<Rightarrow> bool" where
  "caches_wf g \<longleftrightarrow> hm_wf (gs_providers g) \<and> hm_wf (gs_requesters g) \<and>
     list_all (\<lambda>e. distinct (map pi_endpoint_id (snd e))) (gs_providers g) \<and>
     list_all (\<lambda>e. ri_endpoint_id (snd e) = fst e) (gs_requesters g)"

definition credit :: "hash32 \<Rightarrow> endpoint_id \<Rightarrow> string \<Rightarrow> u64 \<Rightarrow>
    (hash32 \<times> endpoint_id \<Rightarrow> (string \<times> u64) option) \<Rightarrow> hash32 \<times> endpoint_id \<Rightarrow> (string \<times> u64) option" where
  "credit h e path sz m = (if m (h, e) = None then m((h, e) \<mapsto> (path, sz)) else m)"

fun credit_outputs where
  "credit_outputs b [] m = m"
| "credit_outputs b (out # outs) m =
     credit_outputs b outs (credit (bo_blake3 out) b (bo_store_path out) (bo_nar_size out) m)"

text \<open>What an event means for the abstract state.\<close>

fun know where
  "know decode valid_id (Received content from) (pm, rm) =
     (case decode content of
        Inr (Have h path sz) \<Rightarrow> (credit h from path sz pm, rm)
      | Inr (IHave h path sz) \<Rightarrow> (credit h from path sz pm, rm)
      | Inr (NeedBuilder r features) \<Rightarrow> (pm, if valid_id r then rm(r \<mapsto> features) else rm)
      | Inr (BuildComplete res) \<Rightarrow>
          (if valid_id (br_builder res) then credit_outputs (br_builder res) (br_outputs res) pm else pm, rm)
      | _ \<Rightarrow> (pm, rm))"
| "know decode valid_id (NeighborDown peer) (pm, rm) =
     ((\<lambda>(h, e). if e = peer then None else pm (h, e)), rm(peer := None))"
| "know decode valid_id (NeighborUp peer) k = k"
| "know decode valid_id Lagged k = k"
| "know decode valid_id (ReceiverError e) k = k"

definition knowledge where
  "knowledge g = (provider_map (gs_providers g), requester_map (gs_requesters g))"

section \<open>Lemmas\<close>

lemma find_append: "List.find P (xs @ ys) = (case List.find P xs of None \<Rightarrow> List.find P ys | Some x \<Rightarrow> Some x)"
  by (induction xs) auto

lemma find_None: "List.find P xs = None \<longleftrightarrow> \<not> list_ex P xs"
  by (induction xs) auto

lemma find_filter_except:
  "List.find (\<lambda>p. f p = y) (filter (\<lambda>p. f p \<noteq> x) ps) = (if y = x then None else List.find (\<lambda>p. f p = y) ps)"
  by (induction ps) auto

lemma hm_get_entry_or_default:
  "hm_get k (entry_or_default h c) =
     (if k = h \<and> hm_get h c = None then Some [] else hm_get k c)"
  by (auto simp: entry_or_default_def split: option.split)

lemma hm_get_add_provider:
  "hm_get k (add_provider h info c) =
     (if k = h then Some (let ps = (case hm_get h c of None \<Rightarrow> [] | Some ps \<Rightarrow> ps)
                          in if list_ex (\<lambda>p. pi_endpoint_id p = pi_endpoint_id info) ps
                             then ps else ps @ [info])
      else hm_get k c)"
  by (auto simp: add_provider_def hm_get_entry_or_default Let_def split: option.split)

lemma provider_map_add:
  "provider_map (add_provider h info c) =
     credit h (pi_endpoint_id info) (pi_store_path info) (pi_nar_size info) (provider_map c)"
proof (rule ext, clarify)
  fix k e
  let ?ps = "case hm_get h c of None \<Rightarrow> [] | Some ps \<Rightarrow> ps"
  show "provider_map (add_provider h info c) (k, e) =
     credit h (pi_endpoint_id info) (pi_store_path info) (pi_nar_size info) (provider_map c) (k, e)"
  proof (cases "List.find (\<lambda>p. pi_endpoint_id p = pi_endpoint_id info) ?ps")
    case None
    then have "\<not> list_ex (\<lambda>p. pi_endpoint_id p = pi_endpoint_id info) ?ps" by (simp add: find_None)
    with None show ?thesis
      by (auto simp: provider_map_def credit_def hm_get_add_provider find_append Let_def
               split: option.splits)
  next
    case (Some p)
    then have "list_ex (\<lambda>p. pi_endpoint_id p = pi_endpoint_id info) ?ps"
      by (metis find_None option.simps(3))
    with Some show ?thesis
      by (auto simp: provider_map_def credit_def hm_get_add_provider Let_def split: option.splits)
  qed
qed

lemma hm_get_remove_provider:
  "hm_get h (remove_provider e c) = map_option (filter (\<lambda>p. pi_endpoint_id p \<noteq> e)) (hm_get h c)"
  by (induction c) (auto simp: remove_provider_def hm_get_def)

lemma provider_map_remove:
  "provider_map (remove_provider peer c) = (\<lambda>(h, e). if e = peer then None else provider_map c (h, e))"
  by (rule ext, clarify)
     (auto simp: provider_map_def hm_get_remove_provider find_filter_except split: option.split)

lemma provider_map_outputs:
  "provider_map (add_outputs b outs c) = credit_outputs b outs (provider_map c)"
  by (induction outs arbitrary: c) (simp_all add: provider_map_add)

lemma requester_map_add:
  "requester_map (add_requester info c) = (requester_map c)(ri_endpoint_id info \<mapsto> ri_system_features info)"
  by (auto simp: requester_map_def add_requester_def)

lemma requester_map_remove: "requester_map (remove_requester e c) = (requester_map c)(e := None)"
  by (auto simp: requester_map_def remove_requester_def)

lemmas cache_maps = provider_map_add provider_map_remove provider_map_outputs
  requester_map_add requester_map_remove

lemma receive_event_knows:
  "knowledge (receive_event decode valid_id ev g) = know decode valid_id ev (knowledge g)"
  by (cases ev)
     (auto simp: knowledge_def handle_message_def from_bytes_def cache_maps Let_def
           split: sum.splits gossip_message.splits)

text \<open>Well-formedness of both caches is kept by every operation.\<close>

lemma add_provider_wf:
  assumes "hm_wf c" "list_all (\<lambda>e. distinct (map pi_endpoint_id (snd e))) c"
  shows "hm_wf (add_provider h info c)"
    and "list_all (\<lambda>e. distinct (map pi_endpoint_id (snd e))) (add_provider h info c)"
proof -
  from assms(2) have d: "distinct (map pi_endpoint_id ps)" if "(k, ps) \<in> set c" for k ps
    using that by (force simp: list_all_iff)
  define c' where "c' = entry_or_default h c"
  have d': "distinct (map pi_endpoint_id ps)" if "(k, ps) \<in> set c'" for k ps
    using that d by (auto simp: c'_def entry_or_default_def set_hm_insert split: option.splits)
  have "distinct (map pi_endpoint_id (snd e))" if "e \<in> set (add_provider h info c)" for e
  proof -
    from that obtain k ps where e: "(k, ps) \<in> set c'"
      "e = (k, if k = h then (if list_ex (\<lambda>p. pi_endpoint_id p = pi_endpoint_id info) ps
                 then ps else ps @ [info]) else ps)"
      unfolding add_provider_def c'_def set_hm_modify by auto
    have "distinct (map pi_endpoint_id ps)" using e(1) by (rule d')
    then show ?thesis by (auto simp: e(2) list_ex_iff)
  qed
  then show "list_all (\<lambda>e. distinct (map pi_endpoint_id (snd e))) (add_provider h info c)"
    by (simp add: list_all_iff)
qed (use assms in \<open>simp add: add_provider_def entry_or_default_def split: option.split\<close>)

lemma add_outputs_wf:
  assumes "hm_wf c" "list_all (\<lambda>e. distinct (map pi_endpoint_id (snd e))) c"
  shows "hm_wf (add_outputs b outs c) \<and>
         list_all (\<lambda>e. distinct (map pi_endpoint_id (snd e))) (add_outputs b outs c)"
  using assms by (induction outs arbitrary: c) (simp_all add: add_provider_wf)

lemma remove_provider_wf:
  assumes "hm_wf c" "list_all (\<lambda>e. distinct (map pi_endpoint_id (snd e))) c"
  shows "hm_wf (remove_provider e c)"
    and "list_all (\<lambda>e. distinct (map pi_endpoint_id (snd e))) (remove_provider e c)"
  using assms
  by (auto simp: remove_provider_def hm_wf_def list_all_iff distinct_map_filter case_prod_unfold comp_def)

lemma add_requester_wf:
  assumes "hm_wf c" "list_all (\<lambda>e. ri_endpoint_id (snd e) = fst e) c"
  shows "hm_wf (add_requester info c)" "list_all (\<lambda>e. ri_endpoint_id (snd e) = fst e) (add_requester info c)"
    and "hm_wf (remove_requester e c)" "list_all (\<lambda>e. ri_endpoint_id (snd e) = fst e) (remove_requester e c)"
  using assms
  by (auto simp: add_requester_def remove_requester_def list_all_iff set_hm_insert set_hm_remove)

lemmas caches_wf_rules = add_provider_wf add_outputs_wf remove_provider_wf add_requester_wf

lemma receive_event_wf:
  assumes "caches_wf g"
  shows "caches_wf (receive_event decode valid_id ev g)"
  using assms
  by (cases ev)
     (auto simp: caches_wf_def handle_message_def from_bytes_def caches_wf_rules Let_def
           split: sum.splits gossip_message.splits)

lemma run_receiver_wf: "caches_wf g \<Longrightarrow> caches_wf (run_receiver decode valid_id evs g)"
  by (induction evs arbitrary: g) (simp_all add: receive_event_wf)

lemma run_receiver_knows:
  "knowledge (run_receiver decode valid_id evs g) = fold (know decode valid_id) evs (knowledge g)"
  by (induction evs arbitrary: g) (simp_all add: receive_event_knows)

lemma gossip_new_wf [simp]: "caches_wf (gossip_new our_id a b)"
  by (simp add: caches_wf_def gossip_new_def)

lemma get_providers_known:
  "list_all (\<lambda>p. pi_endpoint_id p \<noteq> e) (get_providers h g) \<longleftrightarrow> fst (knowledge g) (h, e) = None"
  by (auto simp: knowledge_def provider_map_def get_providers_def cached_providers_def list_all_iff
        find_None list_ex_iff split: option.splits)

lemma requester_known: "hm_get e (gs_requesters g) = None \<longleftrightarrow> snd (knowledge g) e = None"
  by (auto simp: knowledge_def requester_map_def)

lemma hm_get_caches:
  assumes "caches_wf g"
  shows "info \<in> set (all_requesters (gs_requesters g)) \<longleftrightarrow>
         snd (knowledge g) (ri_endpoint_id info) = Some (ri_system_features (info :: requester_info))"
proof
  assume "info \<in> set (all_requesters (gs_requesters g))"
  then obtain e where e: "(e, info) \<in> set (gs_requesters g)" by (auto simp: all_requesters_def)
  with assms have "ri_endpoint_id info = e" by (auto simp: caches_wf_def list_all_iff)
  with e assms show "snd (knowledge g) (ri_endpoint_id info) = Some (ri_system_features info)"
    by (auto simp: caches_wf_def knowledge_def requester_map_def hm_get_Some_iff)
next
  assume "snd (knowledge g) (ri_endpoint_id info) = Some (ri_system_features info)"
  then obtain r where r: "hm_get (ri_endpoint_id info) (gs_requesters g) = Some r"
      "ri_system_features r = ri_system_features info"
    by (auto simp: knowledge_def requester_map_def)
  then have "(ri_endpoint_id info, r) \<in> set (gs_requesters g)" by (simp add: hm_get_SomeD)
  with assms r(2) have "r = info" by (force simp: caches_wf_def list_all_iff)
  with \<open>(ri_endpoint_id info, r) \<in> set (gs_requesters g)\<close>
  show "info \<in> set (all_requesters (gs_requesters g))" by (force simp: all_requesters_def)
qed

text \<open>Whether an event can bring a peer into a cache.\<close>

fun names :: "(byte list \<Rightarrow> string + gossip_message) \<Rightarrow> endpoint_id \<Rightarrow> gossip_event \<Rightarrow> bool" where
  "names decode e (Received content from) =
     (case decode content of
        Inr (Have h path sz) \<Rightarrow> from = e
      | Inr (IHave h path sz) \<Rightarrow> from = e
      | Inr (NeedBuilder r features) \<Rightarrow> r = e
      | Inr (BuildComplete res) \<Rightarrow> br_builder res = e
      | _ \<Rightarrow> False)"
| "names decode e ev = False"

lemma credit_outputs_other: "e \<noteq> b \<Longrightarrow> credit_outputs b outs m (h, e) = m (h, e)"
  by (induction outs arbitrary: m) (auto simp: credit_def)

lemma know_unnamed:
  "\<not> names decode e ev \<Longrightarrow> fst k (h, e) = None \<Longrightarrow> fst (know decode valid_id ev k) (h, e) = None"
  "\<not> names decode e ev \<Longrightarrow> snd k e = None \<Longrightarrow> snd (know decode valid_id ev k) e = None"
  by (cases k; cases ev; auto simp: credit_def credit_outputs_other
        split: sum.splits gossip_message.splits)+

lemma knows_unnamed:
  assumes "list_all (\<lambda>ev. \<not> names decode e ev) evs"
  shows "fst k (h, e) = None \<Longrightarrow> fst (fold (know decode valid_id) evs k) (h, e) = None"
    and "snd k e = None \<Longrightarrow> snd (fold (know decode valid_id) evs k) e = None"
  using assms by (induction evs arbitrary: k) (simp_all add: know_unnamed)

lemma add_provider_nonempty: "add_provider h info c \<noteq> []"
proof -
  have "hm_get h (add_provider h info c) \<noteq> None" by (simp add: hm_get_add_provider)
  then show ?thesis by force
qed

lemma add_outputs_nonempty: "c \<noteq> [] \<Longrightarrow> add_outputs b outs c \<noteq> []"
  by (induction outs arbitrary: c) (simp_all add: add_provider_nonempty)

lemma providers_stay:
  "gs_providers g \<noteq> [] \<Longrightarrow> gs_providers (run_receiver decode valid_id evs g) \<noteq> []"
proof (induction evs arbitrary: g)
  case (Cons ev evs)
  have "gs_providers (receive_event decode valid_id ev g) \<noteq> []"
    using Cons.prems
    by (cases ev) (auto simp: handle_message_def from_bytes_def Let_def add_provider_nonempty
        add_outputs_nonempty remove_provider_def split: sum.splits gossip_message.splits)
  then show ?case by (simp add: Cons.IH)
qed simp

text \<open>The callback invocations an event leads to.\<close>

fun event_calls :: "(byte list \<Rightarrow> string + gossip_message) \<Rightarrow> (byte list \<Rightarrow> bool) \<Rightarrow> bool \<Rightarrow> bool \<Rightarrow>
    gossip_event \<Rightarrow> gossip_call list" where
  "event_calls decode valid_id on_need on_complete (Received content from) =
     (case decode content of
        Inr (NeedBuilder r features) \<Rightarrow>
          if on_need \<and> valid_id r
          then [NeedBuilderCall \<lparr>ri_endpoint_id = r, ri_system_features = features\<rparr>] else []
      | Inr (BuildComplete res) \<Rightarrow>
          if on_complete \<and> valid_id (br_builder res) then [BuildCompleteCall res] else []
      | _ \<Rightarrow> [])"
| "event_calls decode valid_id on_need on_complete ev = []"

lemma receive_event_calls:
  "gs_calls (receive_event decode valid_id ev g) =
     gs_calls g @ event_calls decode valid_id (gs_need_builder_callback g) (gs_build_complete_callback g) ev"
  "gs_need_builder_callback (receive_event decode valid_id ev g) = gs_need_builder_callback g"
  "gs_build_complete_callback (receive_event decode valid_id ev g) = gs_build_complete_callback g"
  by (cases ev; auto simp: handle_message_def from_bytes_def Let_def
        split: sum.splits gossip_message.splits)+

section \<open>Properties\<close>

text \<open>
  C17: whatever events the topic delivers, the caches hold exactly the abstract knowledge of
  those events: the first store path and size each live peer was credited with for a hash, and
  the features each peer asked for last; no hash lists a peer twice.
\<close>

theorem caches_refine_knowledge:
  "knowledge (run_receiver decode valid_id evs (gossip_new our_id a b)) =
     fold (know decode valid_id) evs (\<lambda>_. None, \<lambda>_. None) \<and>
   caches_wf (run_receiver decode valid_id evs (gossip_new our_id a b))"
proof -
  have "knowledge (gossip_new our_id a b) = (\<lambda>_. None, \<lambda>_. None)"
    by (auto simp: knowledge_def gossip_new_def provider_map_def requester_map_def)
  then show ?thesis by (simp add: run_receiver_knows run_receiver_wf)
qed

text \<open>
  After a neighbour goes down, it is in no provider list and is no requester, until a
  message names it again.
\<close>

theorem neighbor_down_forgets:
  assumes "list_all (\<lambda>ev. \<not> names decode e ev) evs"
  shows "list_all (\<lambda>p. pi_endpoint_id p \<noteq> e)
           (get_providers h (run_receiver decode valid_id (NeighborDown e # evs) g)) \<and>
         hm_get e (gs_requesters (run_receiver decode valid_id (NeighborDown e # evs) g)) = None"
proof -
  obtain pm rm where k: "knowledge g = (pm, rm)" by (cases "knowledge g")
  show ?thesis
    unfolding get_providers_known requester_known run_receiver_knows
    by (simp add: k knows_unnamed [OF assms])
qed

theorem neighbor_down_forgets_witness:
  "\<exists>decode valid_id evs g h e. get_providers h g \<noteq> [] \<and> evs \<noteq> [] \<and>
     list_all (\<lambda>p. pi_endpoint_id p \<noteq> e)
       (get_providers h (run_receiver decode valid_id (NeighborDown e # evs) g)) \<and>
     hm_get e (gs_requesters (run_receiver decode valid_id (NeighborDown e # evs) g)) = None"
proof -
  define decode :: "byte list \<Rightarrow> string + gossip_message" where
    "decode = (\<lambda>_. Inr (Have [7] ''/nix/store/x'' 9))"
  define g where "g = run_receiver decode (\<lambda>_. True) [Received [] [1]] (gossip_new [0] False False)"
  have "list_all (\<lambda>ev. \<not> names decode [1] ev) [Received [] [2]]" by (simp add: decode_def)
  note neighbor_down_forgets [OF this, of "[7]" "\<lambda>_. True" g]
  moreover have "get_providers [7] g \<noteq> []"
    by (simp add: g_def decode_def handle_message_def from_bytes_def get_providers_def
        cached_providers_def hm_get_add_provider gossip_new_def)
  ultimately show ?thesis by blast
qed

text \<open>
  A builder sees exactly the requesters that the events left known and whose required
  features it all has.
\<close>

theorem matching_requesters_exact:
  "info \<in> set (get_matching_requesters our_features
             (run_receiver decode valid_id evs (gossip_new our_id a b))) \<longleftrightarrow>
   snd (fold (know decode valid_id) evs (\<lambda>_. None, \<lambda>_. None)) (ri_endpoint_id info) =
     Some (ri_system_features info) \<and>
   set (ri_system_features (info :: requester_info)) \<subseteq> set our_features"
proof -
  let ?g = "run_receiver decode valid_id evs (gossip_new our_id a b)"
  have "info \<in> set (get_matching_requesters our_features ?g) \<longleftrightarrow>
        info \<in> set (all_requesters (gs_requesters ?g)) \<and>
        set (ri_system_features info) \<subseteq> set our_features"
    by (auto simp: get_matching_requesters_def matching_requesters_def all_requesters_def list_all_iff)
  moreover have "knowledge (gossip_new our_id a b) = (\<lambda>_. None, \<lambda>_. None)"
    by (auto simp: knowledge_def gossip_new_def provider_map_def requester_map_def)
  ultimately show ?thesis by (simp add: hm_get_caches run_receiver_wf run_receiver_knows)
qed

text \<open>
  A \<open>Have\<close> announcement is credited to the peer that delivered it: the announcing node
  does not appear in what is stored, although the topic forwards messages over several hops.
\<close>

theorem have_credited_to_deliverer:
  assumes "announce_have encode broadcast h path sz = (Inr (), [content])"
    and "\<And>m b. encode m = Inr b \<Longrightarrow> decode b = Inr m"
    and "list_all (\<lambda>p. pi_endpoint_id p \<noteq> deliverer) (get_providers h g)"
  shows "get_providers h (run_receiver decode valid_id [Received content deliverer] g) =
           get_providers h g @ [\<lparr>pi_endpoint_id = deliverer, pi_store_path = path, pi_nar_size = sz\<rparr>]"
proof -
  have "encode (Have h path sz) = Inr content"
    using assms(1)
    by (auto simp: announce_have_def broadcast_message_def to_bytes_def split: sum.splits option.splits)
  then have "decode content = Inr (Have h path sz)" by (rule assms(2))
  with assms(3) show ?thesis
    by (auto simp: handle_message_def from_bytes_def get_providers_def cached_providers_def
          hm_get_add_provider list_all_iff list_ex_iff split: option.splits)
qed

theorem have_credited_to_deliverer_witness:
  "\<exists>encode decode content.
     announce_have encode (\<lambda>_. None) [7] ''/nix/store/x'' 9 = (Inr (), [content]) \<and>
     get_providers [7] (run_receiver decode (\<lambda>_. True) [Received content [2]] (gossip_new [0] False False)) =
       [\<lparr>pi_endpoint_id = [2], pi_store_path = ''/nix/store/x'', pi_nar_size = 9\<rparr>]"
proof -
  define encode :: "gossip_message \<Rightarrow> string + byte list" where
    "encode = (\<lambda>m. if m = Have [7] ''/nix/store/x'' 9 then Inr [1] else Inl ''unsupported'')"
  define decode :: "byte list \<Rightarrow> string + gossip_message" where
    "decode = (\<lambda>_. Inr (Have [7] ''/nix/store/x'' 9))"
  have 1: "announce_have encode (\<lambda>_. None) [7] ''/nix/store/x'' 9 = (Inr (), [[1]])"
    by (simp add: announce_have_def broadcast_message_def to_bytes_def encode_def)
  have 2: "encode m = Inr b \<Longrightarrow> decode b = Inr m" for m b
    by (simp add: encode_def decode_def split: if_splits)
  have 3: "get_providers [7] (gossip_new [0] False False) = []"
    by (simp add: get_providers_def cached_providers_def gossip_new_def)
  show ?thesis
    using 1 have_credited_to_deliverer [where g = "gossip_new [0] False False" and deliverer = "[2]" and valid_id = "\<lambda>_. True", OF 1 2] 3
    by (intro exI [of _ encode] exI [of _ decode] exI [of _ "[1]"]) simp
qed

text \<open>
  Once one provider has been learnt, \<open>has_peers\<close> answers yes for ever, also after every
  peer has gone: removing a provider leaves the hash's empty list behind.
\<close>

theorem has_peers_sticky:
  assumes "decode content = Inr (Have h path sz)"
  shows "has_peers (run_receiver decode valid_id (Received content from # evs) g)"
  using assms
  by (simp add: has_peers_def handle_message_def from_bytes_def providers_stay add_provider_nonempty)

theorem has_peers_sticky_witness:
  "\<exists>decode g. get_all_requesters g = [] \<and> get_providers [7] g = [] \<and>
     g = run_receiver decode (\<lambda>_. True) [Received [] [1], NeighborDown [1]] (gossip_new [0] False False) \<and>
     has_peers g"
proof -
  define decode :: "byte list \<Rightarrow> string + gossip_message" where
    "decode = (\<lambda>_. Inr (Have [7] ''/nix/store/x'' 9))"
  have "decode [] = Inr (Have [7] ''/nix/store/x'' 9)" by (simp add: decode_def)
  note has_peers_sticky [of decode "[]" "[7]" "''/nix/store/x''" 9 "\<lambda>_. True" "[1]" "[NeighborDown [1]]"
      "gossip_new [0] False False", OF this]
  then show ?thesis
    by (intro exI [of _ decode] exI conjI, rule_tac [3] refl)
       (simp_all add: decode_def handle_message_def from_bytes_def get_providers_def cached_providers_def
          get_all_requesters_def all_requesters_def hm_get_remove_provider hm_get_add_provider
          gossip_new_def remove_requester_def hm_remove_def)
qed

text \<open>
  Each registered callback runs exactly once for each valid message of its kind, in the
  order of delivery.
\<close>

theorem callbacks_exact:
  "gs_calls (run_receiver decode valid_id evs g) =
     gs_calls g @ concat (map (event_calls decode valid_id (gs_need_builder_callback g)
                                 (gs_build_complete_callback g)) evs)"
  by (induction evs arbitrary: g) (simp_all add: receive_event_calls)

end
