(* ===== verification/Nar.thy ===== *)
theory Nar
  imports Byte_IO "HOL-Library.List_Lexorder" "HOL-Library.Char_ord"
begin

text \<open>
  The NAR serializer of \<open>nar.rs\<close>. A file-system object is what the system calls on it answer,
  failures and short reads included; \<open>NarWriter\<close> runs over any writer, \<open>HashingWriter\<close> wraps one
  and hashes what passes. \<open>sha256\<close> and \<open>blake3\<close> are the hash functions of the libraries; a
  hasher's state is the bytes fed to it.
\<close>

definition NAR_MAGIC :: "byte list" where
  "NAR_MAGIC = as_bytes ''nix-archive-1''"

record nar_info =
  na_blake3 :: hash32
  na_sha256 :: hash32
  na_nar_size :: u64

section \<open>The hashing writer\<close>

text \<open>\<open>Write::write\<close>: how many bytes were taken, or an error; the writer may change either way.\<close>

type_synonym 'w write_op = "'w \<Rightarrow> byte list \<Rightarrow> (io_error + nat) \<times> 'w"

record 'w hashing_writer =
  hw_inner :: 'w
  hw_sha256 :: "byte list"
  hw_blake3 :: "byte list"
  hw_bytes_written :: u64

definition hashing_new :: "'w \<Rightarrow> 'w hashing_writer" where
  "hashing_new inner = \<lparr>hw_inner = inner, hw_sha256 = [], hw_blake3 = [], hw_bytes_written = 0\<rparr>"

definition hashing_finish :: "(byte list \<Rightarrow> hash32) \<Rightarrow> (byte list \<Rightarrow> hash32) \<Rightarrow>
    'w hashing_writer \<Rightarrow> 'w \<times> nar_info" where
  "hashing_finish sha256 blake3 hw =
     (hw_inner hw, \<lparr>na_blake3 = blake3 (hw_blake3 hw), na_sha256 = sha256 (hw_sha256 hw),
                    na_nar_size = hw_bytes_written hw\<rparr>)"

definition hashing_write :: "'w write_op \<Rightarrow> 'w hashing_writer write_op" where
  "hashing_write wr hw buf =
     (case wr (hw_inner hw) buf of
        (Inl e, inner) \<Rightarrow> (Inl e, hw\<lparr>hw_inner := inner\<rparr>)
      | (Inr n, inner) \<Rightarrow>
          (Inr n, \<lparr>hw_inner = inner, hw_sha256 = hw_sha256 hw @ take n buf,
                   hw_blake3 = hw_blake3 hw @ take n buf,
                   hw_bytes_written = hw_bytes_written hw + of_nat n\<rparr>))"

text \<open>
  The default \<open>Write::write_all\<close>: it repeats \<open>write\<close> until everything is taken, again after an
  interruption. \<open>fuel\<close> bounds the number of calls: every call that is not interrupted takes a
  byte or ends the loop, so \<open>k + length buf\<close> calls are enough for \<open>k\<close> interruptions.
\<close>

fun write_all :: "nat \<Rightarrow> 'w write_op \<Rightarrow> 'w put" where
  "write_all fuel wr w [] = Inr w"
| "write_all 0 wr w buf = Inl (Interrupted, ''out of fuel'')"
| "write_all (Suc fuel) wr w buf =
     (case wr w buf of
        (Inr n, w') \<Rightarrow> if n = 0 then Inl (OtherKind, ''failed to write whole buffer'')
                       else write_all fuel wr w' (drop n buf)
      | (Inl (kind, m), w') \<Rightarrow> if kind = Interrupted then write_all fuel wr w' buf else Inl (kind, m))"

definition vec_write :: "byte list write_op" where
  "vec_write w buf = (Inr (length buf), w @ buf)"

definition hashing_put :: "nat \<Rightarrow> 'w write_op \<Rightarrow> 'w hashing_writer put" where
  "hashing_put interrupts wr hw buf = write_all (interrupts + length buf) (hashing_write wr) hw buf"

section \<open>File-system objects\<close>

text \<open>
  What \<open>symlink_metadata\<close> and the calls after it answer. A name or target is its bytes; a
  directory lists its entries in the order \<open>read_dir\<close> returns them; a regular file has its mode,
  the size \<open>stat\<close> reports and the answers of the later \<open>read\<close> calls.
\<close>

datatype dir_fault = OpenFault string | EntryFault string

datatype fs_node =
  Missing string
| LinkNode "string + byte list"
| DirNode "dir_fault option" "(string \<times> fs_node) list"
| FileNode u32 u64 "string + (string + byte list) list"
| OtherNode

text \<open>\<open>read\<close> into a buffer of \<open>k\<close> bytes.\<close>

fun read_chunk :: "nat \<Rightarrow> (string + byte list) list \<Rightarrow> string + (byte list \<times> (string + byte list) list)" where
  "read_chunk k [] = Inr ([], [])"
| "read_chunk k (Inl e # rs) = Inl e"
| "read_chunk k (Inr bs # rs) =
     (if length bs \<le> k then Inr (bs, rs) else Inr (take k bs, Inr (drop k bs) # rs))"

definition join_path :: "string \<Rightarrow> string \<Rightarrow> string" where
  "join_path p name = (if p = [] \<or> last p = CHR ''/'' then p @ name else p @ ''/'' @ name)"

section \<open>The serializer\<close>

definition nar_put :: "'w put \<Rightarrow> string \<Rightarrow> byte list \<Rightarrow> 'w \<Rightarrow> 'w result" where
  "nar_put put what bs w =
     (case put w bs of Inl (k, e) \<Rightarrow> throw (Nar (''failed to write '' @ what @ '': '' @ e)) | Inr w' \<Rightarrow> Inr w')"

definition nar_u64 :: "'w put \<Rightarrow> u64 \<Rightarrow> 'w \<Rightarrow> 'w result" where
  "nar_u64 put n w = nar_put put ''u64'' (u64_le n) w"

definition zero_bytes :: "nat \<Rightarrow> byte list" where
  "zero_bytes n = replicate n 0"

definition nar_pad :: "'w put \<Rightarrow> nat \<Rightarrow> 'w \<Rightarrow> 'w result" where
  "nar_pad put padding w = (if padding > 0 then nar_put put ''padding'' (take padding (zero_bytes 8)) w else Inr w)"

definition nar_string :: "'w put \<Rightarrow> byte list \<Rightarrow> 'w \<Rightarrow> 'w result" where
  "nar_string put s w =
     rbind (nar_u64 put (of_nat (length s)) w) (\<lambda>w1.
     rbind (nar_put put ''string'' s w1) (\<lambda>w2.
     nar_pad put ((8 - length s mod 8) mod 8) w2))"

fun nar_strings :: "'w put \<Rightarrow> byte list list \<Rightarrow> 'w \<Rightarrow> 'w result" where
  "nar_strings put [] w = Inr w"
| "nar_strings put (s # ss) w = rbind (nar_string put s w) (nar_strings put ss)"

definition write_symlink :: "'w put \<Rightarrow> string \<Rightarrow> string + byte list \<Rightarrow> 'w \<Rightarrow> 'w result" where
  "write_symlink put path target w =
     (case target of
        Inl e \<Rightarrow> throw (Nar (''failed to read symlink '' @ path @ '': '' @ e))
      | Inr bs \<Rightarrow>
          rbind (nar_strings put [as_bytes ''type'', as_bytes ''symlink'', as_bytes ''target''] w) (\<lambda>w1.
          if valid_utf8 bs then nar_string put bs w1
          else throw (Nar ''symlink target is not valid UTF-8'')))"

text \<open>The copy loop reads at most 64 KiB at a time and stops when \<open>size\<close> bytes have gone through.\<close>

function copy_contents :: "'w put \<Rightarrow> string \<Rightarrow> u64 \<Rightarrow> (string + byte list) list \<Rightarrow> 'w \<Rightarrow> 'w result" where
  "copy_contents put path remaining reads w =
     (if remaining = 0 then Inr w
      else case read_chunk (unat (min remaining 65536)) reads of
        Inl e \<Rightarrow> throw (Nar (''failed to read file '' @ path @ '': '' @ e))
      | Inr (bs, reads') \<Rightarrow>
          if bs = [] then throw (Nar (''unexpected EOF reading '' @ path))
          else rbind (nar_put put ''NAR data'' bs w)
                 (copy_contents put path (remaining - of_nat (length bs)) reads'))"
  by pat_completeness auto

lemma read_chunk_length: "read_chunk k rs = Inr (bs, rs') \<Longrightarrow> length bs \<le> k"
  by (induction k rs rule: read_chunk.induct) (auto split: if_splits)

lemma unat_min: "unat (min a b) = min (unat a) (unat (b :: 'a::len word))"
  by (simp add: min_def word_le_nat_alt)

lemma remaining_less:
  assumes "read_chunk (unat (min remaining (65536 :: u64))) reads = Inr (bs, reads')"
  shows "unat (remaining - of_nat (length bs)) = unat remaining - length bs" "length bs \<le> unat remaining"
proof -
  have lt: "unat remaining < 2 ^ 64" using unsigned_less [of remaining] by simp
  from read_chunk_length [OF assms] show le: "length bs \<le> unat remaining" by (simp add: unat_min)
  then have "unat (of_nat (length bs) :: u64) = length bs"
    using lt by (intro unat_of_nat_u64) simp
  with le show "unat (remaining - of_nat (length bs)) = unat remaining - length bs"
    by (simp add: unat_sub word_le_nat_alt)
qed

termination copy_contents
proof (relation "measure (\<lambda>(put, path, remaining, reads, w). unat remaining)")
  show "((put, path, remaining - of_nat (length bs), reads', w'), put, path, remaining, reads, w)
          \<in> measure (\<lambda>(put, path, remaining, reads, w). unat remaining)"
    if "remaining \<noteq> 0" "read_chunk (unat (min remaining 65536)) reads = Inr p" "(bs, reads') = p" "bs \<noteq> []"
    for put :: "'w put" and path and remaining :: u64 and reads p bs reads' and w w' :: 'w
    using remaining_less [of remaining reads bs reads'] that
    by (cases bs) (auto simp: unat_gt_0)
qed simp

declare copy_contents.simps [simp del]

definition write_file :: "'w put \<Rightarrow> string \<Rightarrow> u32 \<Rightarrow> u64 \<Rightarrow> string + (string + byte list) list \<Rightarrow> 'w \<Rightarrow> 'w result" where
  "write_file put path mode sz file w =
     rbind (nar_strings put [as_bytes ''type'', as_bytes ''regular''] w) (\<lambda>w1.
     rbind (if and mode 0x49 \<noteq> 0 then nar_strings put [as_bytes ''executable'', []] w1 else Inr w1) (\<lambda>w2.
     rbind (nar_string put (as_bytes ''contents'') w2) (\<lambda>w3.
     rbind (nar_u64 put sz w3) (\<lambda>w4.
     case file of
       Inl e \<Rightarrow> throw (Nar (''failed to open file '' @ path @ '': '' @ e))
     | Inr reads \<Rightarrow>
         rbind (copy_contents put path sz reads w4) (\<lambda>w5.
         nar_pad put (unat ((8 - sz mod 8) mod 8)) w5)))))"

lemma size_entries:
  "(\<Sum>e\<leftarrow>es. Suc (2 * size (snd e))) < Suc (2 * size_list (size_prod (\<lambda>x. 0) size) (es :: (string \<times> fs_node) list))"
  by (induction es) auto

lemma size_sorted: "sum_list (map g (sort_key k es)) = sum_list (map (g :: _ \<Rightarrow> nat) es)"
proof -
  have "mset (map g (sort_key k es)) = mset (map g es)" by simp
  then show ?thesis by (simp flip: sum_mset_sum_list)
qed

function (sequential) write_entry :: "'w put \<Rightarrow> string \<Rightarrow> fs_node \<Rightarrow> 'w \<Rightarrow> 'w result"
  and write_entries :: "'w put \<Rightarrow> string \<Rightarrow> (string \<times> fs_node) list \<Rightarrow> 'w \<Rightarrow> 'w result" where
  "write_entry put path (Missing e) w = throw (Nar (''failed to read metadata for '' @ path @ '': '' @ e))"
| "write_entry put path (LinkNode target) w =
     rbind (nar_string put (as_bytes ''('') w) (\<lambda>w1.
     rbind (write_symlink put path target w1) (nar_string put (as_bytes '')'')))"
| "write_entry put path (DirNode fault entries) w =
     rbind (nar_string put (as_bytes ''('') w) (\<lambda>w1.
     rbind (nar_strings put [as_bytes ''type'', as_bytes ''directory''] w1) (\<lambda>w2.
     case fault of
       Some (OpenFault e) \<Rightarrow> throw (Nar (''failed to read directory '' @ path @ '': '' @ e))
     | Some (EntryFault e) \<Rightarrow> throw (Nar (''failed to read directory entry: '' @ e))
     | None \<Rightarrow> rbind (write_entries put path (sort_key fst entries) w2) (nar_string put (as_bytes '')''))))"
| "write_entry put path (FileNode mode sz file) w =
     rbind (nar_string put (as_bytes ''('') w) (\<lambda>w1.
     rbind (write_file put path mode sz file w1) (nar_string put (as_bytes '')'')))"
| "write_entry put path OtherNode w =
     rbind (nar_string put (as_bytes ''('') w) (\<lambda>w1. throw (Nar (''unsupported file type: '' @ path)))"
| "write_entries put path [] w = Inr w"
| "write_entries put path ((name, node) # es) w =
     (if \<not> is_str name then throw (Nar ''filename is not valid UTF-8'')
      else rbind (nar_strings put [as_bytes ''entry'', as_bytes ''('', as_bytes ''name'', as_bytes name,
                                   as_bytes ''node''] w) (\<lambda>w1.
           rbind (write_entry put (join_path path name) node w1) (\<lambda>w2.
           rbind (nar_string put (as_bytes '')'') w2) (write_entries put path es))))"
  by pat_completeness auto

termination
proof (relation "measure (\<lambda>x. case x of Inl (put, path, node, w) \<Rightarrow> 2 * size node
                        | Inr (put, path, es, w) \<Rightarrow> 1 + sum_list (map (\<lambda>e. 2 * size (snd e) + 1) es))")
qed (auto simp: size_sorted size_entries)

definition write_path :: "'w put \<Rightarrow> string \<Rightarrow> fs_node \<Rightarrow> 'w \<Rightarrow> 'w result" where
  "write_path put path node w = rbind (nar_string put NAR_MAGIC w) (write_entry put path node)"

definition serialize_path :: "(byte list \<Rightarrow> hash32) \<Rightarrow> (byte list \<Rightarrow> hash32) \<Rightarrow> string \<Rightarrow> fs_node \<Rightarrow>
    (byte list \<times> nar_info) result" where
  "serialize_path sha256 blake3 path node =
     rbind (write_path (hashing_put 0 vec_write) path node (hashing_new [])) (\<lambda>hw.
     Inr (hashing_finish sha256 blake3 hw))"

definition serialize_path_to_writer :: "(byte list \<Rightarrow> hash32) \<Rightarrow> (byte list \<Rightarrow> hash32) \<Rightarrow> nat \<Rightarrow> 'w write_op \<Rightarrow>
    string \<Rightarrow> fs_node \<Rightarrow> 'w \<Rightarrow> nar_info result" where
  "serialize_path_to_writer sha256 blake3 interrupts wr path node w =
     rbind (write_path (hashing_put interrupts wr) path node (hashing_new w)) (\<lambda>hw.
     Inr (snd (hashing_finish sha256 blake3 hw)))"

section \<open>The archive format\<close>

text \<open>What an archive describes, and the bytes that describe it.\<close>

datatype nar_tree = Sym "byte list" | Reg bool "byte list" | Dir "(string \<times> nar_tree) list"

definition str_enc :: "byte list \<Rightarrow> byte list" where
  "str_enc s = u64_le (of_nat (length s)) @ s @ zero_bytes ((8 - length s mod 8) mod 8)"

definition strs_enc :: "byte list list \<Rightarrow> byte list" where
  "strs_enc ss = concat (map str_enc ss)"

fun nar_node :: "nar_tree \<Rightarrow> byte list" where
  "nar_node (Sym target) =
     strs_enc [as_bytes ''('', as_bytes ''type'', as_bytes ''symlink'', as_bytes ''target'', target, as_bytes '')'']"
| "nar_node (Reg executable contents) =
     strs_enc [as_bytes ''('', as_bytes ''type'', as_bytes ''regular''] @
     (if executable then strs_enc [as_bytes ''executable'', []] else []) @
     strs_enc [as_bytes ''contents'', contents, as_bytes '')'']"
| "nar_node (Dir es) =
     strs_enc [as_bytes ''('', as_bytes ''type'', as_bytes ''directory''] @
     concat (map (\<lambda>(name, t).
       strs_enc [as_bytes ''entry'', as_bytes ''('', as_bytes ''name'', as_bytes name, as_bytes ''node''] @
       nar_node t @ str_enc (as_bytes '')'')) es) @
     str_enc (as_bytes '')'')"

definition nar_bytes :: "nar_tree \<Rightarrow> byte list" where
  "nar_bytes t = str_enc NAR_MAGIC @ nar_node t"

text \<open>What a file-system object holds, when every call on it succeeds and names are UTF-8.\<close>

fun delivered :: "(string + byte list) list \<Rightarrow> byte list" where
  "delivered [] = []"
| "delivered (Inl e # rs) = []"
| "delivered (Inr [] # rs) = []"
| "delivered (Inr (b # bs) # rs) = b # bs @ delivered rs"

definition file_contents :: "nat \<Rightarrow> (string + byte list) list \<Rightarrow> byte list option" where
  "file_contents n reads = (if n \<le> length (delivered reads) then Some (take n (delivered reads)) else None)"

fun tree_of :: "fs_node \<Rightarrow> nar_tree option" where
  "tree_of (LinkNode (Inr target)) = (if valid_utf8 target then Some (Sym target) else None)"
| "tree_of (DirNode None es) =
     map_option (\<lambda>ts. Dir (sort_key fst ts))
       (those (map (\<lambda>(name, n). if is_str name then map_option (Pair name) (tree_of n) else None) es))"
| "tree_of (FileNode mode sz (Inr reads)) =
     map_option (Reg (and mode 0x49 \<noteq> 0)) (file_contents (unat sz) reads)"
| "tree_of _ = None"

abbreviation entry_tree :: "string \<times> fs_node \<Rightarrow> (string \<times> nar_tree) option" where
  "entry_tree \<equiv> \<lambda>(name, n). if is_str name then map_option (Pair name) (tree_of n) else None"

abbreviation dirent_enc :: "string \<times> nar_tree \<Rightarrow> byte list" where
  "dirent_enc \<equiv> \<lambda>(name, t).
     strs_enc [as_bytes ''entry'', as_bytes ''('', as_bytes ''name'', as_bytes name, as_bytes ''node''] @
     nar_node t @ str_enc (as_bytes '')'')"

lemma those_insort:
  assumes "\<And>x y. f x = Some y \<Longrightarrow> k' y = k x"
  shows "those (map f (insort_key k x xs)) =
     (case f x of None \<Rightarrow> None | Some y \<Rightarrow> map_option (insort_key k' y) (those (map f xs)))"
proof (induction xs)
  case Nil
  then show ?case by (simp split: option.split)
next
  case (Cons z zs)
  show ?case
  proof (cases "f x")
    case None
    with Cons show ?thesis by (simp split: option.split)
  next
    case (Some y)
    with Cons show ?thesis
      by (auto simp: assms option.map_comp comp_def split: option.split)
  qed
qed

lemma those_sort:
  assumes "\<And>x y. f x = Some y \<Longrightarrow> k' y = k x"
  shows "those (map f (sort_key k xs)) = map_option (sort_key k') (those (map f xs))"
  by (induction xs) (auto simp: those_insort [where k' = k', OF assms] option.map_comp comp_def
        split: option.split)

lemma tree_of_dir:
  "tree_of (DirNode None es) = map_option Dir (those (map entry_tree (sort_key fst es)))"
proof -
  have "those (map entry_tree (sort_key fst es)) = map_option (sort_key fst) (those (map entry_tree es))"
    by (rule those_sort) (auto split: if_splits)
  then show ?thesis by (simp add: option.map_comp comp_def)
qed

lemma file_contents_0 [simp]: "file_contents 0 reads = Some []"
  by (simp add: file_contents_def)

lemma read_chunk_delivered:
  assumes "read_chunk k reads = Inr (bs, reads')" "bs \<noteq> []"
  shows "delivered reads = bs @ delivered reads'"
  using assms
proof (induction k reads rule: read_chunk.induct)
  case (3 k cs rs)
  show ?case
  proof (cases "length cs \<le> k")
    case True
    with 3 show ?thesis by (cases cs) auto
  next
    case False
    with 3 have "bs = take k cs" "reads' = Inr (drop k cs) # rs" by auto
    moreover from False have "drop k cs \<noteq> []" "cs \<noteq> []" by auto
    ultimately show ?thesis
      by (metis append_assoc append_take_drop_id delivered.simps(4) append_Cons neq_Nil_conv)
  qed
qed auto

lemma read_chunk_end:
  "read_chunk k reads = Inl e \<Longrightarrow> delivered reads = []"
  "0 < k \<Longrightarrow> read_chunk k reads = Inr ([], reads') \<Longrightarrow> delivered reads = []"
  by (induction k reads rule: read_chunk.induct) (auto split: if_splits)

lemma pad_take: "(8 - n mod 8) mod 8 = p \<Longrightarrow> take p (zero_bytes 8) = zero_bytes p"
  by (auto simp: zero_bytes_def)

lemma unat_pad: "unat ((8 - w mod 8) mod 8 :: u64) = (8 - unat w mod 8) mod 8"
proof -
  have "unat (w mod 8) < 8" by (simp add: unat_mod)
  then have "w mod 8 \<le> 8" by (simp add: word_le_nat_alt)
  then show ?thesis by (simp add: unat_mod unat_sub)
qed

lemma file_contents_step:
  assumes "read_chunk (unat (min remaining (65536 :: u64))) reads = Inr (bs, reads')" "bs \<noteq> []"
  shows "file_contents (unat remaining) reads =
           map_option (append bs) (file_contents (unat (remaining - of_nat (length bs))) reads')"
  using remaining_less [OF assms(1)] read_chunk_delivered [OF assms]
  by (auto simp: file_contents_def)

section \<open>The serializer over any sink\<close>

context byte_sink
begin

lemma nar_put_ok: "nar_put put what bs w = Inr w' \<Longrightarrow> contents w' = contents w @ bs"
  by (auto simp: nar_put_def dest: put_contents split: sum.splits)

lemma nar_pad_ok: "nar_pad put ((8 - n mod 8) mod 8) w = Inr w' \<Longrightarrow>
    contents w' = contents w @ zero_bytes ((8 - n mod 8) mod 8)"
  by (auto simp: nar_pad_def pad_take dest: nar_put_ok split: if_splits) (simp add: zero_bytes_def)

lemma nar_string_ok: "nar_string put s w = Inr w' \<Longrightarrow> contents w' = contents w @ str_enc s"
  by (auto simp: nar_string_def nar_u64_def str_enc_def dest!: nar_put_ok nar_pad_ok)

lemma nar_strings_ok: "nar_strings put ss w = Inr w' \<Longrightarrow> contents w' = contents w @ strs_enc ss"
  by (induction ss arbitrary: w) (auto simp: strs_enc_def dest: nar_string_ok)

lemma copy_contents_ok:
  "copy_contents put path remaining reads w = Inr w' \<Longrightarrow>
     \<exists>c. file_contents (unat remaining) reads = Some c \<and> contents w' = contents w @ c"
proof (induction "unat remaining" arbitrary: remaining reads w rule: less_induct)
  case less
  show ?case
  proof (cases "remaining = 0")
    case True
    with less.prems show ?thesis by (simp add: copy_contents.simps)
  next
    case False
    with less.prems obtain bs reads' w1 where
      r: "read_chunk (unat (min remaining 65536)) reads = Inr (bs, reads')" "bs \<noteq> []"
      and w1: "nar_put put ''NAR data'' bs w = Inr w1"
      and rest: "copy_contents put path (remaining - of_nat (length bs)) reads' w1 = Inr w'"
      by (subst (asm) copy_contents.simps) (auto split: sum.splits if_splits)
    have "unat (remaining - of_nat (length bs)) < unat remaining"
      using remaining_less [OF r(1)] r(2) False by (simp add: unat_gt_0)
    from less.hyps [OF this rest] obtain c where
      "file_contents (unat (remaining - of_nat (length bs))) reads' = Some c" "contents w' = contents w1 @ c"
      by blast
    with file_contents_step [OF r] nar_put_ok [OF w1] show ?thesis by simp
  qed
qed

lemma write_file_ok:
  assumes "write_file put path mode sz (Inr reads) w = Inr w'"
  shows "\<exists>c. file_contents (unat sz) reads = Some c \<and>
    contents w' @ str_enc (as_bytes '')'') =
      contents w @ drop (length (str_enc (as_bytes ''(''))) (nar_node (Reg (and mode 0x49 \<noteq> 0) c))"
proof -
  from assms obtain w1 w2 w3 w4 w5 where
    w1: "nar_strings put [as_bytes ''type'', as_bytes ''regular''] w = Inr w1"
    and w2: "(if and mode 0x49 \<noteq> 0 then nar_strings put [as_bytes ''executable'', []] w1 else Inr w1) = Inr w2"
    and w3: "nar_string put (as_bytes ''contents'') w2 = Inr w3"
    and w4: "nar_u64 put sz w3 = Inr w4"
    and w5: "copy_contents put path sz reads w4 = Inr w5"
    and w': "nar_pad put (unat ((8 - sz mod 8) mod 8)) w5 = Inr w'"
    unfolding write_file_def by (auto simp del: nar_strings.simps)
  from copy_contents_ok [OF w5] obtain c where
    c: "file_contents (unat sz) reads = Some c" "contents w5 = contents w4 @ c" by blast
  from c(1) have len: "length c = unat sz" by (auto simp: file_contents_def split: if_splits)
  have "contents w2 = contents w1 @ (if and mode 0x49 \<noteq> 0 then strs_enc [as_bytes ''executable'', []] else [])"
    using w2 nar_strings_ok by (auto split: if_splits)
  with c len nar_strings_ok [OF w1] nar_string_ok [OF w3] nar_pad_ok [OF w' [unfolded unat_pad]]
    nar_put_ok [OF w4 [unfolded nar_u64_def]]
  show ?thesis by (intro exI [of _ c]) (simp add: strs_enc_def str_enc_def)
qed

end

lemma write_entry_ok:
  fixes contents :: "'w \<Rightarrow> byte list"
  shows "write_entry put path node w = Inr w' \<Longrightarrow> byte_sink put contents \<Longrightarrow>
     \<exists>t. tree_of node = Some t \<and> contents w' = contents w @ nar_node t"
  and "write_entries put path es w = Inr w' \<Longrightarrow> byte_sink put contents \<Longrightarrow>
     \<exists>ts. those (map entry_tree es) = Some ts \<and> contents w' = contents w @ concat (map dirent_enc ts)"
proof (induction put path node w and put path es w arbitrary: w' and w' rule: write_entry_write_entries.induct)
  case (2 put path target w)
  then have sink: "byte_sink put contents" by simp
  note oks = byte_sink.nar_string_ok [OF sink] byte_sink.nar_strings_ok [OF sink] byte_sink.write_file_ok [OF sink]
  from 2(1) obtain w1 w2 where
    w1: "nar_string put (as_bytes ''('') w = Inr w1"
    and w2: "write_symlink put path target w1 = Inr w2"
    and w': "nar_string put (as_bytes '')'') w2 = Inr w'" by auto
  from w2 obtain bs w3 where t: "target = Inr bs" "valid_utf8 bs"
    and w3: "nar_strings put [as_bytes ''type'', as_bytes ''symlink'', as_bytes ''target''] w1 = Inr w3"
    and w3': "nar_string put bs w3 = Inr w2"
    by (auto simp: write_symlink_def simp del: nar_strings.simps split: sum.splits if_splits)
  from t oks(1) [OF w1] oks(2) [OF w3] oks(1) [OF w3'] oks(1) [OF w']
  show ?case by (simp add: strs_enc_def)
next
  case (3 put path fault entries w)
  then have sink: "byte_sink put contents" by simp
  note oks = byte_sink.nar_string_ok [OF sink] byte_sink.nar_strings_ok [OF sink] byte_sink.write_file_ok [OF sink]
  from 3(2) obtain w1 w2 w3 where fault: "fault = None"
    and w1: "nar_string put (as_bytes ''('') w = Inr w1"
    and w2: "nar_strings put [as_bytes ''type'', as_bytes ''directory''] w1 = Inr w2"
    and w3: "write_entries put path (sort_key fst entries) w2 = Inr w3"
    and w': "nar_string put (as_bytes '')'') w3 = Inr w'"
    by (cases fault) (auto simp del: nar_strings.simps split: dir_fault.splits)
  from 3(1) [OF w1 w2 fault w3 3(3)] obtain ts where
    "those (map entry_tree (sort_key fst entries)) = Some ts"
    "contents w3 = contents w2 @ concat (map dirent_enc ts)" by blast
  with fault oks(1) [OF w1] oks(2) [OF w2] oks(1) [OF w']
  show ?case by (simp add: tree_of_dir strs_enc_def del: tree_of.simps(2))
next
  case (4 put path mode sz answer w)
  then have sink: "byte_sink put contents" by simp
  note oks = byte_sink.nar_string_ok [OF sink] byte_sink.nar_strings_ok [OF sink] byte_sink.write_file_ok [OF sink]
  from 4(1) obtain w1 w2 where
    w1: "nar_string put (as_bytes ''('') w = Inr w1"
    and w2: "write_file put path mode sz answer w1 = Inr w2"
    and w': "nar_string put (as_bytes '')'') w2 = Inr w'" by auto
  from w2 obtain reads where f: "answer = Inr reads"
    by (cases answer) (auto simp: write_file_def)
  from oks(3) [OF w2 [unfolded f]] obtain c where
    "file_contents (unat sz) reads = Some c"
    "contents w2 @ str_enc (as_bytes '')'') =
      contents w1 @ drop (length (str_enc (as_bytes ''(''))) (nar_node (Reg (and mode 0x49 \<noteq> 0) c))"
    by blast
  with f oks(1) [OF w1] oks(1) [OF w']
  show ?case by (intro exI [of _ "Reg (and mode 0x49 \<noteq> 0) c"]) (simp add: strs_enc_def)
next
  case (7 put path name node es w)
  then have sink: "byte_sink put contents" by simp
  note oks = byte_sink.nar_string_ok [OF sink] byte_sink.nar_strings_ok [OF sink] byte_sink.write_file_ok [OF sink]
  from 7(3) obtain w1 w2 w3 where nm: "is_str name"
    and w1: "nar_strings put [as_bytes ''entry'', as_bytes ''('', as_bytes ''name'', as_bytes name,
        as_bytes ''node''] w = Inr w1"
    and w2: "write_entry put (join_path path name) node w1 = Inr w2"
    and w3: "nar_string put (as_bytes '')'') w2 = Inr w3"
    and w': "write_entries put path es w3 = Inr w'"
    by (auto simp del: nar_strings.simps split: if_splits)
  from 7(1) [OF _ w1 w2 7(4)] nm obtain t where
    t: "tree_of node = Some t" "contents w2 = contents w1 @ nar_node t" by auto
  from 7(2) [OF _ w1 w2 w3 w' 7(4)] nm obtain ts where
    "those (map entry_tree es) = Some ts" "contents w' = contents w3 @ concat (map dirent_enc ts)" by auto
  with t nm oks(2) [OF w1] oks(1) [OF w3] show ?case by simp
qed auto

text \<open>A sink that never fails accepts every archive.\<close>

locale total_sink = byte_sink +
  assumes put_total: "\<exists>w'. put w bs = Inr w'"
begin

lemma nar_put_total: "\<exists>w'. nar_put put what bs w = Inr w'"
  using put_total [of w bs] by (auto simp: nar_put_def)

lemma nar_pad_total: "\<exists>w'. nar_pad put n w = Inr w'"
  by (simp add: nar_pad_def nar_put_total)

lemma nar_string_total: "\<exists>w'. nar_string put s w = Inr w'"
  by (simp add: nar_string_def nar_u64_def) (meson nar_put_total nar_pad_total)

lemma nar_strings_total: "\<exists>w'. nar_strings put ss w = Inr w'"
  by (induction ss arbitrary: w) (simp, use nar_string_total in \<open>simp, blast\<close>)

lemma copy_contents_total:
  "file_contents (unat remaining) reads = Some c \<Longrightarrow> \<exists>w'. copy_contents put path remaining reads w = Inr w'"
proof (induction "unat remaining" arbitrary: remaining reads w c rule: less_induct)
  case less
  show ?case
  proof (cases "remaining = 0")
    case True
    then show ?thesis by (simp add: copy_contents.simps)
  next
    case False
    then have pos: "0 < unat (min remaining 65536)" by (simp add: unat_min unat_gt_0)
    from False have "0 < unat remaining" by (simp add: unat_gt_0)
    with less.prems have ne: "delivered reads \<noteq> []"
      by (auto simp: file_contents_def split: if_splits)
    obtain bs reads' where r: "read_chunk (unat (min remaining 65536)) reads = Inr (bs, reads')" "bs \<noteq> []"
      using ne read_chunk_end(1) read_chunk_end(2) [OF pos]
      by (metis (no_types, lifting) old.prod.exhaust sum.exhaust)
    have smaller: "unat (remaining - of_nat (length bs)) < unat remaining"
      using remaining_less [OF r(1)] r(2) False by (simp add: unat_gt_0)
    obtain w1 where w1: "nar_put put ''NAR data'' bs w = Inr w1" using nar_put_total by blast
    obtain c' where "file_contents (unat (remaining - of_nat (length bs))) reads' = Some c'"
      using less.prems file_contents_step [OF r] by auto
    from less.hyps [OF smaller this] obtain w' where
      "copy_contents put path (remaining - of_nat (length bs)) reads' w1 = Inr w'" by blast
    with False r w1 show ?thesis by (subst copy_contents.simps) auto
  qed
qed

lemma write_file_total:
  assumes "file_contents (unat sz) reads = Some c"
  shows "\<exists>w'. write_file put path mode sz (Inr reads) w = Inr w'"
proof -
  obtain w1 where w1: "nar_strings put [as_bytes ''type'', as_bytes ''regular''] w = Inr w1"
    using nar_strings_total by blast
  obtain w2 where w2: "(if and mode 0x49 \<noteq> 0 then nar_strings put [as_bytes ''executable'', []] w1 else Inr w1) = Inr w2"
    using nar_strings_total [of "[as_bytes ''executable'', []]" w1]
    by (cases "and mode 0x49 = 0") (auto simp del: nar_strings.simps)
  obtain w3 where w3: "nar_string put (as_bytes ''contents'') w2 = Inr w3" using nar_string_total by blast
  obtain w4 where w4: "nar_u64 put sz w3 = Inr w4" 
    using nar_put_total [of "''u64''" "u64_le sz" w3] by (auto simp: nar_u64_def)
  obtain w5 where w5: "copy_contents put path sz reads w4 = Inr w5"
    using copy_contents_total [OF assms] by blast
  show ?thesis
    unfolding write_file_def w1 w2 rbind.simps w3 w4 sum.case w5 by (rule nar_pad_total)
qed

end

lemma write_entry_total:
  fixes contents :: "'w \<Rightarrow> byte list"
  shows "tree_of node = Some t \<Longrightarrow> total_sink put contents \<Longrightarrow> \<exists>w'. write_entry put path node w = Inr w'"
  and "those (map entry_tree es) = Some ts \<Longrightarrow> total_sink put contents \<Longrightarrow>
     \<exists>w'. write_entries put path es w = Inr w'"
proof (induction put path node w and put path es w arbitrary: t and ts rule: write_entry_write_entries.induct)
  case (2 put path target w)
  then obtain bs where t: "target = Inr bs" "valid_utf8 bs"
    by (cases target) (auto split: if_splits)
  note total = total_sink.nar_string_total [OF 2(2)] total_sink.nar_strings_total [OF 2(2)]
  obtain w1 where w1: "nar_string put (as_bytes ''('') w = Inr w1" using total(1) by blast
  obtain w2 where w2: "nar_strings put [as_bytes ''type'', as_bytes ''symlink'', as_bytes ''target''] w1 = Inr w2"
    using total(2) by blast
  obtain w3 where w3: "nar_string put bs w2 = Inr w3" using total(1) by blast
  show ?case using t by (simp only: write_entry.simps w1 rbind.simps write_symlink_def sum.case w2 if_True w3 total)
next
  case (3 put path fault entries w)
  note total = total_sink.nar_string_total [OF 3(3)] total_sink.nar_strings_total [OF 3(3)]
  from 3(2) have fault: "fault = None" by (cases fault) auto
  with 3(2) obtain ts where ts: "those (map entry_tree (sort_key fst entries)) = Some ts"
    by (auto simp: tree_of_dir simp del: tree_of.simps(2))
  obtain w1 where w1: "nar_string put (as_bytes ''('') w = Inr w1" using total(1) by blast
  obtain w2 where w2: "nar_strings put [as_bytes ''type'', as_bytes ''directory''] w1 = Inr w2"
    using total(2) by blast
  from 3(1) [OF w1 w2 fault ts 3(3)] obtain w3 where
    w3: "write_entries put path (sort_key fst entries) w2 = Inr w3" by blast
  show ?case by (simp only: write_entry.simps w1 rbind.simps w2 fault option.case w3 total)
next
  case (4 put path mode sz answer w)
  note total = total_sink.nar_string_total [OF 4(2)]
  from 4(1) obtain reads c where f: "answer = Inr reads" "file_contents (unat sz) reads = Some c"
    by (cases answer) auto
  obtain w1 where w1: "nar_string put (as_bytes ''('') w = Inr w1" using total(1) by blast
  obtain w2 where w2: "write_file put path mode sz (Inr reads) w1 = Inr w2"
    using total_sink.write_file_total [OF 4(2) f(2)] by blast
  show ?case by (simp only: write_entry.simps f w1 rbind.simps w2 total)
next
  case (7 put path name node es w)
  note total = total_sink.nar_string_total [OF 7(4)] total_sink.nar_strings_total [OF 7(4)]
  from 7(3) obtain t ts' where nm: "is_str name" and t: "tree_of node = Some t"
    and ts: "those (map entry_tree es) = Some ts'"
    by (auto split: if_splits option.splits)
  obtain w1 where w1: "nar_strings put [as_bytes ''entry'', as_bytes ''('', as_bytes ''name'', as_bytes name,
        as_bytes ''node''] w = Inr w1" using total(2) by blast
  from 7(1) [OF _ w1 t 7(4)] nm obtain w2 where
    w2: "write_entry put (join_path path name) node w1 = Inr w2" by blast
  obtain w3 where w3: "nar_string put (as_bytes '')'') w2 = Inr w3" using total(1) by blast
  from 7(2) [OF _ w1 w2 w3 ts 7(4)] nm show ?case
    by (simp only: write_entries.simps not_not if_False w1 rbind.simps w2 w3 simp_thms)
qed auto

section \<open>Writers that keep the contract of \<open>Write\<close>\<close>

text \<open>
  What a hashing writer has recorded: how far its byte count is from what was hashed, and what
  was hashed.
\<close>

definition hw_log :: "'a hashing_writer \<Rightarrow> byte list" where
  "hw_log hw = u64_le (hw_bytes_written hw - of_nat (length (hw_sha256 hw))) @ hw_sha256 hw"

text \<open>A writer takes a prefix of what it is given, and nothing when it fails.\<close>

locale writer =
  fixes wr :: "'w write_op" and contents :: "'w \<Rightarrow> byte list"
  assumes wr_ok: "wr w buf = (Inr n, w') \<Longrightarrow> n \<le> length buf \<and> contents w' = contents w @ take n buf"
    and wr_err: "wr w buf = (Inl e, w') \<Longrightarrow> contents w' = contents w"
begin

lemma write_all_contents: "write_all fuel wr w buf = Inr w' \<Longrightarrow> contents w' = contents w @ buf"
proof (induction fuel arbitrary: w buf)
  case 0
  then show ?case by (cases buf) auto
next
  case (Suc fuel)
  show ?case
  proof (cases "buf = []")
    case False
    obtain res w1 where r: "wr w buf = (res, w1)" by (cases "wr w buf")
    show ?thesis
    proof (cases res)
      case (Inr n)
      with r False Suc.prems have "write_all fuel wr w1 (drop n buf) = Inr w'"
        by (cases buf) (auto split: if_splits)
      with Suc.IH wr_ok [OF r [unfolded Inr]] show ?thesis by simp
    next
      case (Inl e)
      with r False Suc.prems have "write_all fuel wr w1 buf = Inr w'"
        by (cases buf; cases e) (auto split: if_splits)
      with Suc.IH wr_err [OF r [unfolded Inl]] show ?thesis by simp
    qed
  qed (use Suc.prems in simp)
qed

lemma sink: "byte_sink (\<lambda>w buf. write_all (k + length buf) wr w buf) contents"
  by unfold_locales (rule write_all_contents)

text \<open>The hashing writer over such a writer is one too.\<close>

lemma hashing_writer:
  "writer (hashing_write wr) hw_log"
  "writer (hashing_write wr) hw_blake3"
  "writer (hashing_write wr) (\<lambda>hw. contents (hw_inner hw))"
  by (unfold_locales; auto simp: hashing_write_def hw_log_def dest: wr_ok wr_err split: prod.splits sum.splits)+

lemma hashed_sink:
  "byte_sink (hashing_put k wr) hw_log"
  "byte_sink (hashing_put k wr) hw_blake3"
  "byte_sink (hashing_put k wr) (\<lambda>hw. contents (hw_inner hw))"
  using hashing_writer [THEN writer.sink, of k] by (simp_all add: hashing_put_def [abs_def])

end

interpretation vec_writer: writer vec_write "\<lambda>w. w"
  by unfold_locales (auto simp: vec_write_def)

interpretation hashing_vec: total_sink "hashing_put 0 vec_write" hw_log
proof -
  have "\<exists>w'. hashing_put 0 vec_write w bs = Inr w'" for w bs
  proof (cases bs)
    case (Cons b bs')
    then show ?thesis by (cases bs') (simp_all add: hashing_put_def hashing_write_def vec_write_def)
  qed (simp add: hashing_put_def)
  then show "total_sink (hashing_put 0 vec_write) hw_log"
    by (intro total_sink.intro vec_writer.hashed_sink(1) total_sink_axioms.intro)
qed

lemma write_path_ok:
  assumes "write_path put path node w = Inr w'" "byte_sink put contents"
  shows "\<exists>t. tree_of node = Some t \<and> contents w' = contents w @ nar_bytes t"
proof -
  from assms(1) obtain w1 where w1: "nar_string put NAR_MAGIC w = Inr w1"
    and e: "write_entry put path node w1 = Inr w'" by (auto simp: write_path_def)
  from write_entry_ok(1) [OF e assms(2)] byte_sink.nar_string_ok [OF assms(2) w1] show ?thesis
    by (auto simp: nar_bytes_def)
qed

lemma hashed_write_path:
  assumes "writer wr contents" "write_path (hashing_put k wr) path node (hashing_new w) = Inr hw"
  shows "\<exists>t. tree_of node = Some t \<and> contents (hw_inner hw) = contents w @ nar_bytes t \<and>
    snd (hashing_finish sha256 blake3 hw) =
      \<lparr>na_blake3 = blake3 (nar_bytes t), na_sha256 = sha256 (nar_bytes t),
       na_nar_size = of_nat (length (nar_bytes t))\<rparr>"
proof -
  note sinks = writer.hashed_sink [OF assms(1)]
  from write_path_ok [OF assms(2) sinks(1)] obtain t where
    t: "tree_of node = Some t" "hw_log hw = hw_log (hashing_new w) @ nar_bytes t" by blast
  then have "u64_le (hw_bytes_written hw - of_nat (length (hw_sha256 hw))) = u64_le 0 \<and>
      hw_sha256 hw = nar_bytes t"
    by (simp add: hw_log_def hashing_new_def append_eq_append_conv)
  moreover from write_path_ok [OF assms(2) sinks(2)] t(1) have "hw_blake3 hw = nar_bytes t"
    by (simp add: hashing_new_def)
  moreover from write_path_ok [OF assms(2) sinks(3)] t(1) have "contents (hw_inner hw) = contents w @ nar_bytes t"
    by (simp add: hashing_new_def)
  ultimately show ?thesis using t(1) by (simp add: hashing_finish_def)
qed

lemma write_path_total:
  assumes "tree_of node = Some t"
  shows "\<exists>hw. write_path (hashing_put 0 vec_write) path node (hashing_new w) = Inr hw"
proof -
  obtain w1 where w1: "nar_string (hashing_put 0 vec_write) NAR_MAGIC (hashing_new w) = Inr w1"
    using hashing_vec.nar_string_total by blast
  with write_entry_total(1) [OF assms hashing_vec.total_sink_axioms] show ?thesis
    by (simp add: write_path_def)
qed

lemma serialize_path_iff:
  "serialize_path sha256 blake3 path node = Inr (nar, info) \<longleftrightarrow>
   (\<exists>t. tree_of node = Some t \<and> nar = nar_bytes t \<and>
      info = \<lparr>na_blake3 = blake3 nar, na_sha256 = sha256 nar, na_nar_size = of_nat (length nar)\<rparr>)"
  (is "?L \<longleftrightarrow> ?R")
proof
  assume ?L
  then obtain hw where hw: "write_path (hashing_put 0 vec_write) path node (hashing_new []) = Inr hw"
    and f: "hashing_finish sha256 blake3 hw = (nar, info)"
    by (auto simp: serialize_path_def)
  from f have "hw_inner hw = nar" by (simp add: hashing_finish_def)
  with hashed_write_path [OF vec_writer.writer_axioms hw, of sha256 blake3] f show ?R by auto
next
  assume ?R
  then obtain t where t: "tree_of node = Some t" "nar = nar_bytes t"
    "info = \<lparr>na_blake3 = blake3 nar, na_sha256 = sha256 nar, na_nar_size = of_nat (length nar)\<rparr>" by blast
  from write_path_total [OF t(1)] obtain hw where
    hw: "write_path (hashing_put 0 vec_write) path node (hashing_new []) = Inr hw" by blast
  with hashed_write_path [OF vec_writer.writer_axioms hw, of sha256 blake3] t show ?L
    by (simp add: serialize_path_def) (simp add: hashing_finish_def)
qed

section \<open>An archive determines its tree\<close>

lemma str_enc_inject:
  assumes "str_enc a @ r = str_enc b @ s" "length a < 2 ^ 64" "length b < 2 ^ 64"
  shows "a = b \<and> r = s"
proof -
  have "u64_le (of_nat (length a)) = u64_le (of_nat (length b))"
    using assms(1) by (simp add: str_enc_def append_eq_append_conv)
  then have "length a = length b"
    using assms(2,3) by (metis unat_of_nat_u64 u64_le_inject)
  with assms(1) show ?thesis by (simp add: str_enc_def append_eq_append_conv)
qed

lemma length_str_enc: "length s \<le> length (str_enc s)"
  by (simp add: str_enc_def)

lemma strs_enc_simps [simp]: "strs_enc [] = []" "strs_enc (s # ss) = str_enc s @ strs_enc ss"
  by (simp_all add: strs_enc_def)

text \<open>The fixed words of the format never stand for one another.\<close>

lemma word_enc_inject:
  "str_enc (as_bytes a) @ r = str_enc (as_bytes b) @ s \<Longrightarrow> length a < 2 ^ 64 \<Longrightarrow> length b < 2 ^ 64 \<Longrightarrow>
     a = b \<and> r = s"
  by (drule str_enc_inject) auto

lemma small_words:
  "length ''('' < 2 ^ 64" "length '')'' < 2 ^ 64" "length ''type'' < 2 ^ 64" "length ''symlink'' < 2 ^ 64"
  "length ''regular'' < 2 ^ 64" "length ''directory'' < 2 ^ 64" "length ''target'' < 2 ^ 64"
  "length ''executable'' < 2 ^ 64" "length ''contents'' < 2 ^ 64" "length ''entry'' < 2 ^ 64"
  "length ''name'' < 2 ^ 64" "length ''node'' < 2 ^ 64"
  by simp_all

lemma same_word: "str_enc a @ r = str_enc a @ s \<longleftrightarrow> r = s"
  by simp

lemma other_word:
  "length a < 2 ^ 64 \<Longrightarrow> length b < 2 ^ 64 \<Longrightarrow> a \<noteq> b \<Longrightarrow>
     str_enc (as_bytes a) @ r \<noteq> str_enc (as_bytes b) @ s"
  by (blast dest: word_enc_inject)

lemma dirents_inject:
  assumes "concat (map dirent_enc es) @ str_enc (as_bytes '')'') @ r =
           concat (map dirent_enc fs) @ str_enc (as_bytes '')'') @ r'"
    and "length (concat (map dirent_enc es)) < 2 ^ 64" "length (concat (map dirent_enc fs)) < 2 ^ 64"
    and "\<And>x u q q'. x \<in> set es \<Longrightarrow> nar_node (snd x) @ q = nar_node u @ q' \<Longrightarrow>
           length (nar_node (snd x)) < 2 ^ 64 \<Longrightarrow> length (nar_node u) < 2 ^ 64 \<Longrightarrow> snd x = u \<and> q = q'"
  shows "es = fs \<and> r = r'"
  using assms
proof (induction es arbitrary: fs)
  case Nil
  then show ?case using other_word [OF small_words(2,10)] by (cases fs) auto
next
  case (Cons e es)
  let ?close = "str_enc (as_bytes '')'')"
  show ?case
  proof (cases fs)
    case Nil
    with Cons.prems(1) other_word [OF small_words(10,2)] show ?thesis by (cases e) auto
  next
    case (Cons f fs')
    obtain n t m u where e: "e = (n, t)" and f: "f = (m, u)" by (cases e; cases f)
    have eq: "str_enc (as_bytes n) @ (str_enc (as_bytes ''node'') @ nar_node t @ ?close @ concat (map dirent_enc es) @ ?close @ r) =
        str_enc (as_bytes m) @ (str_enc (as_bytes ''node'') @ nar_node u @ ?close @ concat (map dirent_enc fs') @ ?close @ r')"
      using Cons.prems(1) Cons e f by simp
    have small: "length (as_bytes n) < 2 ^ 64" "length (as_bytes m) < 2 ^ 64"
        "length (nar_node t) < 2 ^ 64" "length (nar_node u) < 2 ^ 64"
      using Cons.prems(2,3) Cons e f length_str_enc [of "as_bytes n"] length_str_enc [of "as_bytes m"]
      by simp_all
    from str_enc_inject [OF eq small(1,2)] have nm: "n = m"
      and eq': "nar_node t @ (?close @ concat (map dirent_enc es) @ ?close @ r) =
                nar_node u @ (?close @ concat (map dirent_enc fs') @ ?close @ r')" by simp_all
    from Cons.prems(4) [of "(n, t)", unfolded snd_conv, OF _ eq' small(3,4)] e have tu: "t = u"
      and eq'': "concat (map dirent_enc es) @ ?close @ r = concat (map dirent_enc fs') @ ?close @ r'" by simp_all
    have "es = fs' \<and> r = r'"
      by (rule Cons.IH [OF eq'']) (use Cons.prems(2,3) Cons e f in simp, use Cons.prems(2,3) Cons e f in simp,
          rule Cons.prems(4), simp_all)
    with Cons e f nm tu show ?thesis by simp
  qed
qed

lemma nar_node_inject:
  "nar_node t @ r = nar_node t' @ r' \<Longrightarrow> length (nar_node t) < 2 ^ 64 \<Longrightarrow> length (nar_node t') < 2 ^ 64 \<Longrightarrow>
     t = t' \<and> r = r'"
proof (induction t arbitrary: t' r r')
  case (Sym a)
  then show ?case
  proof (cases t')
    case (Sym b)
    with Sym.prems have eq: "str_enc a @ (str_enc (as_bytes '')'') @ r) = str_enc b @ (str_enc (as_bytes '')'') @ r')"
      by simp
    have "length a < 2 ^ 64" "length b < 2 ^ 64"
      using Sym.prems(2,3) Sym length_str_enc [of a] length_str_enc [of b] by simp_all
    with str_enc_inject [OF eq] Sym show ?thesis by simp
  qed (use other_word [OF small_words(4) small_words(5)] other_word [OF small_words(4) small_words(6)] in simp_all)
next
  case (Reg x a)
  show ?case
  proof (cases t')
    case (Reg y b)
    have small: "length a < 2 ^ 64" "length b < 2 ^ 64"
      using Reg.prems(2,3) Reg length_str_enc [of a] length_str_enc [of b] by simp_all
    have xy: "x = y"
      using Reg.prems(1) Reg other_word [OF small_words(8,9)] other_word [OF small_words(9,8)]
      by (cases x; cases y) simp_all
    with Reg.prems(1) Reg have
      eq: "str_enc a @ (str_enc (as_bytes '')'') @ r) = str_enc b @ (str_enc (as_bytes '')'') @ r')"
      by (cases y) simp_all
    from str_enc_inject [OF eq small] xy Reg show ?thesis by simp
  qed (use Reg.prems(1) other_word [OF small_words(5) small_words(4)] other_word [OF small_words(5) small_words(6)]
       in simp_all)
next
  case (Dir es)
  show ?case
  proof (cases t')
    case (Dir fs)
    let ?close = "str_enc (as_bytes '')'')"
    have "concat (map dirent_enc es) @ ?close @ r = concat (map dirent_enc fs) @ ?close @ r'"
      and "length (concat (map dirent_enc es)) < 2 ^ 64" "length (concat (map dirent_enc fs)) < 2 ^ 64"
      using Dir.prems Dir by simp_all
    then have "es = fs \<and> r = r'"
    proof (rule dirents_inject)
      show "snd x = u \<and> q = q'"
        if "x \<in> set es" "nar_node (snd x) @ q = nar_node u @ q'" "length (nar_node (snd x)) < 2 ^ 64"
           "length (nar_node u) < 2 ^ 64" for x u q q'
        using Dir.IH [OF that(1) _ that(2-4)] by (cases x) auto
    qed
    with Dir show ?thesis by simp
  qed (use Dir.prems(1) other_word [OF small_words(6) small_words(4)] other_word [OF small_words(6) small_words(5)]
       in simp_all)
qed

text \<open>Directory listings in another order, at any depth; names are distinct, as in a real directory.\<close>

inductive relisted :: "fs_node \<Rightarrow> fs_node \<Rightarrow> bool" where
  same: "relisted n n"
| listed: "relisted (DirNode fault es) (DirNode fault gs)"
    if "list_all2 (\<lambda>e f. fst e = fst f \<and> relisted (snd e) (snd f)) es fs"
       "mset fs = mset gs" "distinct (map fst es)"
monos list_all2_mono

lemma sort_mset_eq:
  assumes "mset fs = mset gs" "distinct (map fst fs)"
  shows "sort_key fst fs = sort_key fst gs"
proof -
  have "inj_on fst (set fs)" using assms(2) by (simp add: distinct_map)
  with assms(1) show ?thesis by (intro sort_key_inj_key_eq) simp_all
qed

lemma relisted_tree: "relisted n m \<Longrightarrow> tree_of n = tree_of m"
proof (induction rule: relisted.induct)
  case (listed es fs gs fault)
  have names: "map fst es = map fst fs" and trees: "map entry_tree es = map entry_tree fs"
    using listed(1) by (induction rule: list_all2_induct) (auto split: prod.split)
  have "those (map entry_tree (sort_key fst es)) = those (map entry_tree (sort_key fst fs))"
    using trees by (subst (1 2) those_sort [where k' = fst]) (auto split: if_splits)
  moreover have "sort_key fst fs = sort_key fst gs"
    using listed(2,3) names by (intro sort_mset_eq) simp_all
  ultimately show ?case
    by (cases fault) (simp_all add: tree_of_dir del: tree_of.simps(2))
qed simp

section \<open>Properties of the serializer\<close>

text \<open>
  C11: \<open>serialize_path\<close> succeeds exactly on a readable tree with UTF-8 names, and then returns the
  archive of that tree with the hashes and the size of exactly those bytes, however the file
  reads were split.
\<close>

theorem serialize_path_exact:
  "serialize_path sha256 blake3 path node = Inr (nar, info) \<longleftrightarrow>
   (\<exists>t. tree_of node = Some t \<and> nar = nar_bytes t \<and>
      info = \<lparr>na_blake3 = blake3 nar, na_sha256 = sha256 nar, na_nar_size = of_nat (length nar)\<rparr>)"
  by (rule serialize_path_iff)

text \<open>
  C35: an archive determines what it archives: two file-system objects with the same archive hold
  the same tree.
\<close>

theorem nar_determines_tree:
  assumes "serialize_path sha256 blake3 path node = Inr (nar, info)"
    and "serialize_path sha256 blake3 path' node' = Inr (nar, info')"
    and "length nar < 2 ^ 64"
  shows "tree_of node = tree_of node'"
  using assms nar_node_inject [of _ "[]" _ "[]"] by (auto simp: serialize_path_iff nar_bytes_def)

theorem nar_determines_tree_witness:
  "\<exists>nar info info'.
     serialize_path (\<lambda>_. []) (\<lambda>_. []) ''a'' (FileNode 0x1ED 3 (Inr [Inr [1], Inr [2, 3]])) = Inr (nar, info) \<and>
     serialize_path (\<lambda>_. []) (\<lambda>_. []) ''b'' (FileNode 0x1C0 3 (Inr [Inr [1, 2, 3, 4]])) = Inr (nar, info') \<and>
     tree_of (FileNode 0x1ED 3 (Inr [Inr [1], Inr [2, 3]])) = tree_of (FileNode 0x1C0 3 (Inr [Inr [1, 2, 3, 4]]))"
proof -
  let ?n = "FileNode 0x1ED 3 (Inr [Inr [1], Inr [2, 3]])" and ?m = "FileNode 0x1C0 3 (Inr [Inr [1, 2, 3, 4]])"
  let ?nar = "nar_bytes (Reg True [1, 2, 3])"
  have t: "tree_of ?n = Some (Reg True [1, 2, 3])" "tree_of ?m = Some (Reg True [1, 2, 3])"
    by (simp_all add: file_contents_def)
  obtain i j where i: "serialize_path (\<lambda>_. []) (\<lambda>_. []) ''a'' ?n = Inr (?nar, i)"
    and j: "serialize_path (\<lambda>_. []) (\<lambda>_. []) ''b'' ?m = Inr (?nar, j)"
    unfolding serialize_path_iff using t by blast
  have "length ?nar < 2 ^ 64" by (simp add: nar_bytes_def str_enc_def zero_bytes_def NAR_MAGIC_def)
  with i j show ?thesis using nar_determines_tree [OF i j] by blast
qed

text \<open>
  C36: the archive does not depend on the order in which the file system lists its directories.
\<close>

theorem serialize_listing_independent:
  assumes "relisted node node'"
  shows "serialize_path sha256 blake3 path node = Inr r \<longleftrightarrow> serialize_path sha256 blake3 path node' = Inr r"
  by (cases r) (simp add: serialize_path_iff relisted_tree [OF assms])

theorem serialize_listing_independent_witness:
  "\<exists>node node'. node \<noteq> node' \<and> relisted node node' \<and>
     (\<forall>r. serialize_path (\<lambda>_. []) (\<lambda>_. []) ''d'' node = Inr r \<longleftrightarrow>
          serialize_path (\<lambda>_. []) (\<lambda>_. []) ''d'' node' = Inr r)"
proof -
  let ?a = "(''a'', LinkNode (Inr []))" and ?b = "(''b'', OtherNode)"
  have r: "relisted (DirNode None [?a, ?b]) (DirNode None [?b, ?a])"
    by (rule relisted.listed [of "[?a, ?b]" "[?a, ?b]"]) (simp_all add: relisted.same add_mset_commute)
  show ?thesis
    using r serialize_listing_independent [OF r, of "\<lambda>_. []" "\<lambda>_. []" "''d''"]
    by (intro exI [of _ "DirNode None [?a, ?b]"] exI [of _ "DirNode None [?b, ?a]"]) simp
qed

end
