(* ===== verification/Nix_Base32.thy ===== *)
theory Nix_Base32
  imports Errors
begin

text \<open>
  Nix's base-32 text of a hash: the encoder of \<open>hash_index.rs\<close> and the two decoders, of
  \<open>nix_info.rs\<close> and of \<open>http_cache.rs\<close>. All three are shown to move the same bits: character
  \<open>n\<close> from the right holds bits \<open>5 n\<close> to \<open>5 n + 4\<close> of the hash.
\<close>

definition nix_alphabet :: string where
  "nix_alphabet = ''0123456789abcdfghijklmnpqrsvwxyz''"

section \<open>The encoder\<close>

definition base32_digit :: "byte list \<Rightarrow> nat \<Rightarrow> byte" where
  "base32_digit h n =
     (let b = n * 5; byte_idx = b div 8; bit_idx = b mod 8;
          c = and (drop_bit bit_idx (h ! byte_idx)) 0x1f
      in if bit_idx > 3 \<and> byte_idx + 1 < length h
         then or c (and (push_bit (8 - bit_idx) (h ! (byte_idx + 1))) 0x1f) else c)"

definition to_nix_base32 :: "byte list \<Rightarrow> string" where
  "to_nix_base32 h =
     (let out_len = (length h * 8 + 4) div 5
      in map (\<lambda>n. nix_alphabet ! unat (base32_digit h n)) (rev [0..<out_len]))"

section \<open>The decoders\<close>

text \<open>\<open>c as u8\<close> keeps the low eight bits of a character's code.\<close>

definition nix32_step :: "byte list \<Rightarrow> nat \<Rightarrow> u64 \<Rightarrow> byte list" where
  "nix32_step result i digit =
     (let b = i * 5; byte_idx = b div 8; bit_idx = b mod 8;
          r1 = (if byte_idx < 32
                then result[byte_idx := or (result ! byte_idx) (ucast (push_bit bit_idx digit))] else result)
      in if bit_idx > 3 \<and> byte_idx + 1 < 32
         then r1[byte_idx + 1 := or (r1 ! (byte_idx + 1)) (ucast (drop_bit (8 - bit_idx) digit))] else r1)"

fun nix32_loop :: "nat \<Rightarrow> nat list \<Rightarrow> byte list \<Rightarrow> byte list result" where
  "nix32_loop i [] result = Inr result"
| "nix32_loop i (c # cs) result =
     (case position (\<lambda>x. of_char x = c mod 256) nix_alphabet of
        None \<Rightarrow> throw (Protocol (''invalid nix32 character: '' @ [char_of c]))
      | Some d \<Rightarrow> nix32_loop (i + 1) cs (nix32_step result i (of_nat d)))"

definition decode_nix32 :: "string \<Rightarrow> hash32 result" where
  "decode_nix32 s =
     (if length s \<noteq> 52 then throw (Protocol (''nix32 hash should be 52 chars, got '' @ show_nat (length s)))
      else nix32_loop 0 (rev (chars s)) (replicate 32 0))"

definition base32_lookup :: "byte list" where
  "base32_lookup = fold (\<lambda>i t. t[of_char (nix_alphabet ! i) := of_nat i]) [0..<length nix_alphabet]
     (replicate 128 255)"

definition base32_step :: "nat \<Rightarrow> byte list \<Rightarrow> nat \<Rightarrow> byte \<Rightarrow> byte list" where
  "base32_step out_len out n digit =
     (let b = n * 5; byte_idx = b div 8; bit_idx = b mod 8;
          o1 = (if byte_idx < out_len
                then out[byte_idx := or (out ! byte_idx) (push_bit bit_idx digit)] else out)
      in if bit_idx > 3 \<and> byte_idx + 1 < out_len
         then o1[byte_idx + 1 := or (o1 ! (byte_idx + 1)) (drop_bit (8 - bit_idx) digit)] else o1)"

fun base32_loop :: "nat list \<Rightarrow> nat \<Rightarrow> nat list \<Rightarrow> byte list \<Rightarrow> byte list result" where
  "base32_loop cs out_len [] out = Inr out"
| "base32_loop cs out_len (n # ns) out =
     (let c = cs ! (length cs - 1 - n)
      in if c \<ge> 128 then throw (HttpCache (''invalid base32 char: '' @ [char_of c]))
         else if base32_lookup ! c = 255 then throw (HttpCache (''invalid base32 char: '' @ [char_of c]))
         else base32_loop cs out_len ns (base32_step out_len out n (base32_lookup ! c)))"

definition decode_nix_base32 :: "string \<Rightarrow> byte list result" where
  "decode_nix_base32 s =
     (let cs = chars s; len = length cs; out_len = (len * 5) div 8
      in base32_loop cs out_len (rev [0..<len]) (replicate out_len 0))"

section \<open>Bits\<close>

definition hash_bit :: "byte list \<Rightarrow> nat \<Rightarrow> bool" where
  "hash_bit h k \<longleftrightarrow> k div 8 < length h \<and> bit (h ! (k div 8)) (k mod 8)"

lemma hash_bit_inject:
  assumes "length a = length b" "\<And>k. hash_bit a k = hash_bit b k"
  shows "a = b"
proof (rule nth_equalityI [OF assms(1)])
  fix i assume i: "i < length a"
  show "a ! i = b ! i"
  proof (rule bit_word_eqI)
    fix k assume "k < LENGTH(8)"
    then have "(8 * i + k) div 8 = i" "(8 * i + k) mod 8 = k" by simp_all
    with assms(2) [of "8 * i + k"] i assms(1) show "bit (a ! i) k = bit (b ! i) k"
      by (simp add: hash_bit_def)
  qed
qed

lemma bit_mask5: "bit (0x1f :: byte) k \<longleftrightarrow> k < 5"
proof -
  have "(0x1f :: byte) = mask 5" by (simp add: mask_eq_exp_minus_1)
  then show ?thesis by (simp only: bit_mask_iff) (auto simp: possible_bit_def)
qed

lemma bit_31 [simp]: "bit (31 :: int) k \<longleftrightarrow> k < 5"
proof -
  have "(31 :: int) = mask 5" by (simp add: mask_eq_exp_minus_1)
  then show ?thesis by (simp only: bit_mask_iff) simp
qed

lemma split_8: "x = 8 * a + r \<Longrightarrow> r < 8 \<Longrightarrow> x div 8 = a \<and> x mod 8 = (r :: nat)"
  by simp

lemma bit_base32_digit:
  assumes "5 * n < 8 * length h"
  shows "bit (base32_digit h n) j \<longleftrightarrow> j < 5 \<and> hash_bit h (5 * n + j)"
proof (cases "j < 5")
  case True
  define q where "q = n * 5 div 8"
  define r where "r = n * 5 mod 8"
  have b: "5 * n = 8 * q + r" "r < 8" by (simp_all add: q_def r_def)
  have inr: "q < length h" using assms b by linarith
  note digit = base32_digit_def [of h n, unfolded Let_def, folded q_def r_def]
  show ?thesis
  proof (cases "r + j < 8")
    case same: True
    have k: "(5 * n + j) div 8 = q" "(5 * n + j) mod 8 = r + j"
      using split_8 [of "5 * n + j" q "r + j"] same b(1) by simp_all
    have "\<not> 8 - r \<le> j" using same b(2) by simp
    then show ?thesis
      using True inr by (simp add: digit hash_bit_def k bit_or_iff bit_and_iff
        bit_drop_bit_eq bit_push_bit_iff)
  next
    case False
    have "5 * n + j = 8 * (q + 1) + (r + j - 8)" "r + j - 8 < 8" using False b True by simp_all
    then have k: "(5 * n + j) div 8 = q + 1" "(5 * n + j) mod 8 = r + j - 8"
      using split_8 [of "5 * n + j" "q + 1" "r + j - 8"] by simp_all
    have d: "r > 3" "8 - r \<le> j" "j - (8 - r) = r + j - 8" using False True b(2) by simp_all
    have "\<not> bit (h ! q) (r + j)" using False by (auto dest: bit_imp_le_length)
    then show ?thesis
      using True d by (simp add: digit hash_bit_def k bit_or_iff bit_and_iff
        bit_drop_bit_eq bit_push_bit_iff)
  qed
next
  case False
  then show ?thesis
    by (simp add: base32_digit_def Let_def bit_or_iff bit_and_iff bit_mask5)
qed

lemma base32_digit_less: "5 * n < 8 * length h \<Longrightarrow> unat (base32_digit h n) < 32"
proof -
  assume "5 * n < 8 * length h"
  then have "base32_digit h n = take_bit 5 (base32_digit h n)"
    by (intro bit_word_eqI) (auto simp: bit_take_bit_iff bit_base32_digit)
  then have "unat (base32_digit h n) = take_bit 5 (unat (base32_digit h n))"
    by (metis unsigned_take_bit_eq)
  also have "\<dots> < 2 ^ 5" by (rule take_bit_nat_less_exp)
  finally show ?thesis by simp
qed

section \<open>The alphabet\<close>

lemma length_alphabet [simp]: "length nix_alphabet = 32"
  by (simp add: nix_alphabet_def)

lemma distinct_alphabet: "distinct nix_alphabet"
  by (simp add: nix_alphabet_def)

lemma alphabet_ascii: "list_all (\<lambda>c. (of_char c :: nat) < 128) nix_alphabet"
  by (simp add: nix_alphabet_def)

lemma position_alphabet:
  assumes "d < 32"
  shows "position (\<lambda>x. of_char x = (of_char (nix_alphabet ! d) :: nat)) nix_alphabet = Some d"
  using position_nth [OF distinct_alphabet, of d] assms by simp

lemma fold_update:
  assumes "inj_on f {..<n}" "\<forall>i < n. f i < length t"
  shows "length (fold (\<lambda>i t. t[f i := g i]) [0..<n] t) = length t \<and>
    (\<forall>i < n. fold (\<lambda>i t. t[f i := g i]) [0..<n] t ! f i = g i) \<and>
    (\<forall>c. c \<notin> f ` {..<n} \<longrightarrow> fold (\<lambda>i t. t[f i := g i]) [0..<n] t ! c = t ! c)"
  using assms
proof (induction n)
  case (Suc n)
  have "inj_on f {..<n}" using Suc.prems(1) by (rule inj_on_subset) auto
  moreover have ne: "f n \<noteq> f i" if "i < n" for i using inj_onD [OF Suc.prems(1), of n i] that by auto
  moreover have "f n \<notin> f ` {..<n}" using ne by auto
  moreover have "\<forall>i < n. f i < length t" using Suc.prems(2) by simp
  ultimately show ?case
    using Suc.IH Suc.prems(2) by (auto simp: nth_list_update less_Suc_eq lessThan_Suc)
qed simp

lemma lookup_table:
  shows "d < 32 \<Longrightarrow> base32_lookup ! of_char (nix_alphabet ! d) = of_nat d"
    and "c \<notin> (of_char :: char \<Rightarrow> nat) ` set nix_alphabet \<Longrightarrow> c < 128 \<Longrightarrow> base32_lookup ! c = 255"
proof -
  let ?f = "\<lambda>i. of_char (nix_alphabet ! i) :: nat"
  have "inj_on ?f {..<32}"
    using distinct_alphabet by (auto simp: inj_on_def nth_eq_iff_index_eq)
  moreover have "\<forall>i < 32. ?f i < length (replicate 128 255 :: byte list)"
    using alphabet_ascii by (auto simp: list_all_length)
  moreover have "?f ` {..<32} = of_char ` set nix_alphabet"
    by (auto simp: in_set_conv_nth image_iff)
  ultimately show "d < 32 \<Longrightarrow> base32_lookup ! of_char (nix_alphabet ! d) = of_nat d"
    and "c \<notin> (of_char :: char \<Rightarrow> nat) ` set nix_alphabet \<Longrightarrow> c < 128 \<Longrightarrow> base32_lookup ! c = 255"
    using fold_update [of ?f 32 "replicate 128 255 :: byte list" of_nat]
    by (simp_all add: base32_lookup_def)
qed

lemma lookup_position:
  assumes "c < 128"
  shows "case position (\<lambda>x. of_char x = c) nix_alphabet of
     None \<Rightarrow> base32_lookup ! c = 255
   | Some d \<Rightarrow> base32_lookup ! c = of_nat d \<and> d < 32"
proof (cases "position (\<lambda>x. of_char x = c) nix_alphabet")
  case None
  then have "\<forall>x \<in> set nix_alphabet. of_char x \<noteq> c" by (simp add: position_None)
  then have "c \<notin> of_char ` set nix_alphabet" by auto
  with None assms show ?thesis by (simp add: lookup_table(2))
next
  case (Some d)
  from position_Some [OF this] obtain us x vs where
    "nix_alphabet = us @ x # vs" "length us = d" "of_char x = c" by blast
  then have "length (us @ x # vs) = 32" "of_char (nix_alphabet ! d) = c"
    using length_alphabet nth_append_length [of us x vs] by simp_all
  then have "d < 32" "of_char (nix_alphabet ! d) = c" using \<open>length us = d\<close> by simp_all
  with Some lookup_table(1) [of d] show ?thesis by simp
qed

lemma alphabet_code:
  assumes "d < 32"
  shows "(of_char (nix_alphabet ! d) :: nat) < 128" "base32_lookup ! of_char (nix_alphabet ! d) = of_nat d"
proof -
  show c: "(of_char (nix_alphabet ! d) :: nat) < 128"
    using alphabet_ascii assms by (auto simp: list_all_length)
  show "base32_lookup ! of_char (nix_alphabet ! d) = of_nat d"
    using lookup_position [OF c] position_alphabet [OF assms] by simp
qed

section \<open>The decoders move the same bits\<close>

definition small :: "'a::len word \<Rightarrow> bool" where
  "small d \<longleftrightarrow> (\<forall>k \<ge> 5. \<not> bit d k)"

lemma bit_lt_32: "d < 32 \<Longrightarrow> bit (d :: nat) k \<Longrightarrow> k < 5"
proof -
  assume d: "d < 32" and b: "bit d k"
  from d have "take_bit 5 d = d" by (simp add: take_bit_nat_eq_self)
  with b show "k < 5" by (metis bit_take_bit_iff)
qed

lemma small_of_nat: "d < 32 \<Longrightarrow> small (of_nat d :: 'a::len word)"
  by (auto simp: small_def bit_of_nat_iff dest: bit_lt_32)

lemma bit_of_nat_byte: "d < 32 \<Longrightarrow> bit (of_nat d :: byte) j \<longleftrightarrow> bit d j"
  by (auto simp: bit_of_nat_iff possible_bit_def dest: bit_lt_32)

lemma length_base32_step [simp]: "length (base32_step L out n d) = length out"
  by (simp add: base32_step_def Let_def)

lemma base32_step_bits:
  assumes "length out = L" "small d"
  shows "hash_bit (base32_step L out n d) k \<longleftrightarrow>
    hash_bit out k \<or> k < 8 * L \<and> 5 * n \<le> k \<and> bit d (k - 5 * n)"
proof -
  define q where "q = n * 5 div 8"
  define r where "r = n * 5 mod 8"
  define a where "a = k div 8"
  define s where "s = k mod 8"
  have b: "5 * n = 8 * q + r" "r < 8" by (simp_all add: q_def r_def)
  have k: "k = 8 * a + s" "s < 8" by (simp_all add: a_def s_def)
  have sm: "\<not> bit d j" if "j \<ge> 5" for j using assms(2) that by (simp add: small_def)
  note step = base32_step_def [of L out n d, unfolded Let_def, folded q_def r_def]
  have inL: "k < 8 * L \<longleftrightarrow> a < L" using k by auto
  consider "a < q" | "a = q" | "a = q + 1" | "a > q + 1" by linarith
  then show ?thesis
  proof cases
    case 1
    then have "\<not> 5 * n \<le> k" using b k by simp
    with 1 show ?thesis by (simp add: hash_bit_def step nth_list_update flip: a_def s_def)
  next
    case 2
    then have "5 * n \<le> k \<longleftrightarrow> r \<le> s" "r \<le> s \<Longrightarrow> k - 5 * n = s - r" using b k by simp_all
    with 2 show ?thesis
      using k(2) assms(1) unfolding inL
      by (auto simp: hash_bit_def step nth_list_update bit_or_iff bit_push_bit_iff simp flip: a_def s_def)
  next
    case 3
    then have e: "5 * n \<le> k" "k - 5 * n = 8 - r + s" using b k by simp_all
    show ?thesis
    proof (cases "r > 3")
      case True
      with 3 e show ?thesis
        using k(2) assms(1) unfolding inL
        by (auto simp: hash_bit_def step nth_list_update bit_or_iff bit_drop_bit_eq simp flip: a_def s_def)
    next
      case False
      then have "\<not> bit d (k - 5 * n)" using e by (intro sm) simp
      with False 3 show ?thesis by (simp add: hash_bit_def step nth_list_update flip: a_def s_def)
    qed
  next
    case 4
    then have "\<not> bit d (k - 5 * n)" using b k by (intro sm) simp
    with 4 show ?thesis by (simp add: hash_bit_def step nth_list_update flip: a_def s_def)
  qed
qed

lemma nix32_step_eq:
  assumes "d < 32" "length result = 32"
  shows "nix32_step result i (of_nat d) = base32_step 32 result i (of_nat d)"
proof -
  have push: "ucast (push_bit b (of_nat d :: u64)) = push_bit b (of_nat d :: byte)" for b
    by (rule bit_word_eqI) (auto simp: bit_ucast_iff bit_push_bit_iff bit_of_nat_iff)
  have sm: "\<not> bit d k" if "k \<ge> 5" for k
    using that bit_lt_32 [OF assms(1), of k] by auto
  have drop: "ucast (drop_bit b (of_nat d :: u64)) = drop_bit b (of_nat d :: byte)" for b
  proof (rule bit_word_eqI)
    fix n assume "n < LENGTH(8)"
    show "bit (ucast (drop_bit b (of_nat d :: u64)) :: byte) n \<longleftrightarrow> bit (drop_bit b (of_nat d :: byte)) n"
      using sm [of "b + n"] \<open>n < LENGTH(8)\<close> by (cases "b + n < 5") (auto simp: bit_ucast_iff bit_drop_bit_eq bit_of_nat_iff possible_bit_def)
  qed
  show ?thesis
    by (simp add: nix32_step_def base32_step_def Let_def push drop)
qed

lemma base32_loop_bits:
  assumes "length out = L"
    and "\<forall>n \<in> set ns. cs ! (length cs - 1 - n) = of_char (nix_alphabet ! D n) \<and> D n < 32"
  shows "\<exists>out'. base32_loop cs L ns out = Inr out' \<and> length out' = L \<and>
    (\<forall>k. hash_bit out' k \<longleftrightarrow> hash_bit out k \<or>
       (\<exists>n \<in> set ns. k < 8 * L \<and> 5 * n \<le> k \<and> bit (D n) (k - 5 * n)))"
  using assms
proof (induction ns arbitrary: out)
  case (Cons n ns)
  have D: "D n < 32" and c: "cs ! (length cs - 1 - n) = of_char (nix_alphabet ! D n)"
    using Cons.prems by simp_all
  have ne: "(of_nat (D n) :: byte) \<noteq> 255"
  proof
    assume "(of_nat (D n) :: byte) = 255"
    then have "unat (of_nat (D n) :: byte) = 255" by simp
    with D show False by (simp add: unat_of_nat)
  qed
  let ?out = "base32_step L out n (of_nat (D n))"
  have step: "base32_loop cs L (n # ns) out = base32_loop cs L ns ?out"
    using alphabet_code [OF D] ne by (simp add: c [simplified] Let_def)
  have bits: "hash_bit ?out k \<longleftrightarrow> hash_bit out k \<or> k < 8 * L \<and> 5 * n \<le> k \<and> bit (D n) (k - 5 * n)" for k
    using base32_step_bits [OF Cons.prems(1) small_of_nat [OF D]] by (simp add: bit_of_nat_byte D)
  from Cons.IH [of ?out] Cons.prems obtain out' where
    "base32_loop cs L ns ?out = Inr out'" "length out' = L"
    "\<forall>k. hash_bit out' k \<longleftrightarrow> hash_bit ?out k \<or>
       (\<exists>n \<in> set ns. k < 8 * L \<and> 5 * n \<le> k \<and> bit (D n) (k - 5 * n))" by auto
  then show ?case unfolding step by (auto simp: bits)
qed auto

lemma code_mod [simp]: "(of_char c :: nat) mod 256 = of_char c"
  using nat_of_char_less_256 [of c] by simp

lemma nix32_loop_bits:
  assumes "length out = 32"
    and "\<forall>j < length cs. cs ! j mod 256 = of_char (nix_alphabet ! D (i + j)) \<and> D (i + j) < 32"
  shows "\<exists>out'. nix32_loop i cs out = Inr out' \<and> length out' = 32 \<and>
    (\<forall>k. hash_bit out' k \<longleftrightarrow> hash_bit out k \<or>
       (\<exists>n. i \<le> n \<and> n < i + length cs \<and> k < 256 \<and> 5 * n \<le> k \<and> bit (D n) (k - 5 * n)))"
  using assms
proof (induction cs arbitrary: i out)
  case (Cons c cs)
  have D: "D i < 32" and c: "c mod 256 = of_char (nix_alphabet ! D i)"
    using Cons.prems(2) by force+
  let ?out = "base32_step 32 out i (of_nat (D i))"
  have step: "nix32_loop i (c # cs) out = nix32_loop (Suc i) cs ?out"
    using position_alphabet [OF D] nix32_step_eq [OF D Cons.prems(1)] by (simp add: c)
  have bits: "hash_bit ?out k \<longleftrightarrow> hash_bit out k \<or> k < 256 \<and> 5 * i \<le> k \<and> bit (D i) (k - 5 * i)" for k
    using base32_step_bits [OF Cons.prems(1) small_of_nat [OF D]] by (simp add: bit_of_nat_byte D)
  have "\<forall>j < length cs. cs ! j mod 256 = of_char (nix_alphabet ! D (Suc i + j)) \<and> D (Suc i + j) < 32"
    using Cons.prems(2) by force
  from Cons.IH [OF _ this, of ?out] Cons.prems(1) obtain out' where
    "nix32_loop (Suc i) cs ?out = Inr out'" "length out' = 32"
    "\<forall>k. hash_bit out' k \<longleftrightarrow> hash_bit ?out k \<or>
       (\<exists>n. Suc i \<le> n \<and> n < Suc i + length cs \<and> k < 256 \<and> 5 * n \<le> k \<and> bit (D n) (k - 5 * n))" by auto
  then show ?case unfolding step
    by (auto simp: bits) (metis Suc_leI le_neq_implies_less lessI less_add_Suc1 less_or_eq_imp_le)+
qed auto

section \<open>Properties of the base-32 text\<close>

lemma base32_bits_hash:
  assumes "length h = 32"
  shows "(\<exists>n < 52. k < 256 \<and> 5 * n \<le> k \<and> bit (unat (base32_digit h n)) (k - 5 * n)) \<longleftrightarrow> hash_bit h k"
proof -
  have digit: "bit (unat (base32_digit h n)) j \<longleftrightarrow> j < 5 \<and> hash_bit h (5 * n + j)" if "n < 52" for n j
    using that assms bit_base32_digit [of n h j]
    by (auto simp: bit_unsigned_iff dest: bit_imp_le_length)
  show ?thesis
  proof
    assume h: "hash_bit h k"
    then have k: "k < 256" using assms by (simp add: hash_bit_def div_less_iff_less_mult)
    let ?n = "k div 5"
    have "?n < 52" "5 * ?n \<le> k" "k - 5 * ?n < 5" "5 * ?n + (k - 5 * ?n) = k"
      using k by (simp_all add: minus_mult_div_eq_mod)
    with h k digit [of ?n "k - 5 * ?n"] show "\<exists>n < 52. k < 256 \<and> 5 * n \<le> k \<and> bit (unat (base32_digit h n)) (k - 5 * n)"
      by metis
  qed (use digit in auto)
qed

lemma hash_bit_zero: "hash_bit (replicate n 0) k = False"
  by (simp add: hash_bit_def)

lemma base32_text:
  assumes "length h = 32"
  shows "length (to_nix_base32 h) = 52" "is_ascii (to_nix_base32 h)"
    and "n < 52 \<Longrightarrow> to_nix_base32 h ! (51 - n) = nix_alphabet ! unat (base32_digit h n)"
    and "n < 52 \<Longrightarrow> unat (base32_digit h n) < 32"
proof -
  show len: "length (to_nix_base32 h) = 52" by (simp add: to_nix_base32_def assms)
  show d: "unat (base32_digit h n) < 32" if "n < 52" for n
    using base32_digit_less [of n h] that assms by simp
  show at: "to_nix_base32 h ! (51 - n) = nix_alphabet ! unat (base32_digit h n)" if "n < 52" for n
  proof -
    have "rev [0..<52] ! (51 - n) = n" using that by (subst rev_nth) auto
    moreover have "to_nix_base32 h ! (51 - n) = nix_alphabet ! unat (base32_digit h (rev [0..<52] ! (51 - n)))"
      using that by (simp add: to_nix_base32_def assms)
    ultimately show ?thesis by (simp only:)
  qed
  have "(of_char (to_nix_base32 h ! i) :: nat) < 128" if "i < 52" for i
    using at [of "51 - i"] alphabet_code(1) [OF d [of "51 - i"]] that by simp
  then show "is_ascii (to_nix_base32 h)" by (simp add: is_ascii_def list_all_length len)
qed

lemma base32_text_decodes:
  assumes "length h = 32"
  shows "length (to_nix_base32 h) = 52 \<and> is_ascii (to_nix_base32 h) \<and>
    decode_nix32 (to_nix_base32 h) = Inr h \<and> decode_nix_base32 (to_nix_base32 h) = Inr h"
proof -
  let ?s = "to_nix_base32 h" and ?D = "\<lambda>n. unat (base32_digit h n)"
  note tx = base32_text [OF assms]
  have cs: "chars ?s = map of_char ?s" by (rule chars_ascii [OF tx(2)])
  have "\<forall>n \<in> set (rev [0..<52]). chars ?s ! (length (chars ?s) - 1 - n) = of_char (nix_alphabet ! ?D n) \<and> ?D n < 32"
    using tx(1,3,4) by (simp add: cs)
  from base32_loop_bits [OF _ this, of "replicate 32 0" 32] obtain out where
    out: "base32_loop (chars ?s) 32 (rev [0..<52]) (replicate 32 0) = Inr out" "length out = 32"
      "\<forall>k. hash_bit out k \<longleftrightarrow> (\<exists>n \<in> set (rev [0..<52]). k < 256 \<and> 5 * n \<le> k \<and> bit (?D n) (k - 5 * n))"
    by (auto simp: hash_bit_zero)
  have "hash_bit out k = hash_bit h k" for k
    unfolding base32_bits_hash [OF assms, symmetric] using out(3) by auto
  then have "out = h"
    using out(2) assms by (intro hash_bit_inject) simp_all
  with out(1) have dec2: "decode_nix_base32 ?s = Inr h"
    using tx(1) by (simp add: decode_nix_base32_def Let_def cs)
  have "\<forall>j < length (rev (chars ?s)). rev (chars ?s) ! j mod 256 = of_char (nix_alphabet ! ?D (0 + j)) \<and> ?D (0 + j) < 32"
    using tx(1,3,4) by (simp add: cs rev_nth)
  from nix32_loop_bits [OF _ this, of "replicate 32 0"] obtain out where
    out: "nix32_loop 0 (rev (chars ?s)) (replicate 32 0) = Inr out" "length out = 32"
      "\<forall>k. hash_bit out k \<longleftrightarrow> (\<exists>n < 52. k < 256 \<and> 5 * n \<le> k \<and> bit (?D n) (k - 5 * n))"
    using tx(1) by (auto simp: hash_bit_zero cs)
  have "hash_bit out k = hash_bit h k" for k
    unfolding base32_bits_hash [OF assms, symmetric] using out(3) by auto
  then have "out = h"
    using out(2) assms by (intro hash_bit_inject) simp_all
  with out(1) have "decode_nix32 ?s = Inr h"
    using tx(1) by (simp add: decode_nix32_def)
  with dec2 tx show ?thesis by simp
qed

text \<open>
  C18: the base-32 text of a 32-byte hash has 52 ASCII characters, and both decoders, that of
  the Nix path info and that of the binary cache, give the hash back.
\<close>

theorem base32_roundtrip:
  assumes "length h = 32"
  shows "length (to_nix_base32 h) = 52 \<and> is_ascii (to_nix_base32 h) \<and>
    decode_nix32 (to_nix_base32 h) = Inr h \<and> decode_nix_base32 (to_nix_base32 h) = Inr h"
  using assms by (rule base32_text_decodes)

theorem base32_roundtrip_witness:
  "decode_nix32 (to_nix_base32 (replicate 32 0xA5)) = Inr (replicate 32 0xA5)"
  using base32_roundtrip [of "replicate 32 0xA5"] by simp

section \<open>Rejected and tolerated input\<close>

definition code_ok :: "nat \<Rightarrow> bool" where
  "code_ok c \<longleftrightarrow> (\<exists>d < 32. c = of_char (nix_alphabet ! d))"

lemma nix32_loop_codes:
  "nix32_loop i cs out = Inr r \<Longrightarrow> \<forall>c \<in> set cs. code_ok (c mod 256)"
proof (induction i cs out rule: nix32_loop.induct)
  case (2 i c cs out)
  then obtain d where d: "position (\<lambda>x. of_char x = c mod 256) nix_alphabet = Some d"
    and rest: "nix32_loop (i + 1) cs (nix32_step out i (of_nat d)) = Inr r"
    by (auto split: option.splits)
  from position_Some [OF d] obtain us x vs where
    "nix_alphabet = us @ x # vs" "length us = d" "of_char x = c mod 256" by blast
  then have "d < 32 \<and> c mod 256 = of_char (nix_alphabet ! d)"
    using length_alphabet nth_append_length [of us x vs]
    by (metis length_append length_Cons add_Suc_right less_add_Suc1)
  then have "code_ok (c mod 256)" unfolding code_ok_def by blast
  with "2.IH" [OF d rest] show ?case by simp
qed simp

lemma base32_loop_codes:
  "base32_loop cs L ns out = Inr r \<Longrightarrow> \<forall>n \<in> set ns. code_ok (cs ! (length cs - 1 - n))"
proof (induction cs L ns out rule: base32_loop.induct)
  case (2 cs L n ns out)
  let ?c = "cs ! (length cs - 1 - n)"
  from 2(2) have c: "\<not> ?c \<ge> 128" "base32_lookup ! ?c \<noteq> 255"
    and rest: "base32_loop cs L ns (base32_step L out n (base32_lookup ! ?c)) = Inr r"
    by (auto simp: Let_def split: if_splits)
  have "?c \<in> of_char ` set nix_alphabet" using lookup_table(2) [of ?c] c by auto
  then have "code_ok ?c" by (auto simp: code_ok_def in_set_conv_nth)
  with "2.IH" [OF refl c rest] show ?case by simp
qed simp

lemma code_ok_less: "code_ok c \<Longrightarrow> c < 128"
  using alphabet_code(1) by (auto simp: code_ok_def)

lemma decoders_same_codes:
  assumes "length s = 52" "is_ascii s" "\<forall>c \<in> set (chars s). code_ok c"
  shows "\<exists>r. decode_nix32 s = Inr r \<and> decode_nix_base32 s = Inr r"
proof -
  have len: "length (chars s) = 52" using assms(1,2) by (simp add: chars_ascii)
  have "\<exists>d. d < 32 \<and> chars s ! (51 - n) = of_char (nix_alphabet ! d)" if "n < 52" for n
    using assms(3) nth_mem [of "51 - n" "chars s"] len that by (auto simp: code_ok_def)
  then obtain D where D: "\<And>n. n < 52 \<Longrightarrow> D n < 32 \<and> chars s ! (51 - n) = of_char (nix_alphabet ! D n)"
    by metis
  have "\<forall>n \<in> set (rev [0..<52]). chars s ! (length (chars s) - 1 - n) = of_char (nix_alphabet ! D n) \<and> D n < 32"
    using D len by simp
  from base32_loop_bits [OF _ this, of "replicate 32 0" 32] obtain out where
    out: "base32_loop (chars s) 32 (rev [0..<52]) (replicate 32 0) = Inr out" "length out = 32"
      "\<forall>k. hash_bit out k \<longleftrightarrow> (\<exists>n \<in> set (rev [0..<52]). k < 256 \<and> 5 * n \<le> k \<and> bit (D n) (k - 5 * n))"
    by (auto simp: hash_bit_zero)
  have "\<forall>j < length (rev (chars s)). rev (chars s) ! j mod 256 = of_char (nix_alphabet ! D (0 + j)) \<and> D (0 + j) < 32"
    using D len by (simp add: rev_nth)
  from nix32_loop_bits [OF _ this, of "replicate 32 0"] obtain out' where
    out': "nix32_loop 0 (rev (chars s)) (replicate 32 0) = Inr out'" "length out' = 32"
      "\<forall>k. hash_bit out' k \<longleftrightarrow> (\<exists>n < 52. k < 256 \<and> 5 * n \<le> k \<and> bit (D n) (k - 5 * n))"
    using len by (auto simp: hash_bit_zero)
  have "hash_bit out k = hash_bit out' k" for k
    using out(3) out'(3) by auto
  then have "out = out'" using out(2) out'(2) by (intro hash_bit_inject) simp_all
  with out(1) out'(1) show ?thesis
    by (simp add: decode_nix32_def decode_nix_base32_def Let_def assms(1) len)
qed

text \<open>
  On ASCII text of the right length the two decoders accept the same strings and give the
  same hash.
\<close>

theorem base32_decoders_agree:
  assumes "length s = 52" "is_ascii s"
  shows "(decode_nix32 s = Inr r) = (decode_nix_base32 s = Inr r)"
proof -
  have len: "length (chars s) = 52" and small: "\<forall>c \<in> set (chars s). c mod 256 = c"
    using assms by (auto simp: chars_ascii is_ascii_def list_all_iff)
  have "\<forall>c \<in> set (chars s). code_ok c" if "decode_nix32 s = Inr r"
    using that nix32_loop_codes [of 0 "rev (chars s)"] small assms(1) by (auto simp: decode_nix32_def)
  moreover have "\<forall>c \<in> set (chars s). code_ok c" if "decode_nix_base32 s = Inr r"
  proof
    fix c assume "c \<in> set (chars s)"
    then obtain i where "i < 52" "c = chars s ! i" by (auto simp: in_set_conv_nth len)
    moreover from this(1) have "code_ok (chars s ! (length (chars s) - 1 - (51 - i)))"
      using that base32_loop_codes [of "chars s" 32 "rev [0..<52]"]
      by (intro bspec [of "set (rev [0..<52])" "\<lambda>n. code_ok (chars s ! (length (chars s) - 1 - n))"])
         (auto simp: decode_nix_base32_def Let_def len)
    ultimately show "code_ok c" using len by simp
  qed
  ultimately show ?thesis
    using decoders_same_codes [OF assms] by auto
qed

theorem base32_decoders_agree_witness:
  "(decode_nix32 (replicate 52 CHR ''z'') = Inr []) = (decode_nix_base32 (replicate 52 CHR ''z'') = Inr [])"
  by (rule base32_decoders_agree) (simp_all add: is_ascii_def list_all_iff)

definition zeros :: "nat \<Rightarrow> string" where
  "zeros n = replicate n CHR ''0''"

lemma chars_zeros: "chars (zeros n) = replicate n 48"
  by (simp add: chars_ascii is_ascii_def zeros_def list_all_iff)

lemma chars_low_zeros: "is_str ([CHR 0xC4, CHR 0xB0] @ zeros n)" "chars ([CHR 0xC4, CHR 0xB0] @ zeros n) = 0x130 # replicate n 48"
proof -
  have z: "is_str (zeros n)" by (simp add: is_ascii_def zeros_def list_all_iff)
  have b: "byte_of (CHR 0xC4) = 0xC4" "byte_of (CHR 0xB0) = 0xB0" by (simp_all add: byte_of_def)
  show "is_str ([CHR 0xC4, CHR 0xB0] @ zeros n)"
    using z by (simp add: is_str_def as_bytes_def b cont_def)
  show "chars ([CHR 0xC4, CHR 0xB0] @ zeros n) = 0x130 # replicate n 48"
    using chars_zeros [of n] by (simp add: chars_def as_bytes_def b)
qed

text \<open>The digits 0, with \<open>d\<close> at position 51, decode to zeros when bit 0 of \<open>d\<close> is clear.\<close>

lemma nix32_zeros:
  assumes "\<forall>j < length cs. cs ! j mod 256 = of_char (nix_alphabet ! (if j = 51 then d else 0))"
    and "even d" "d < 32"
  shows "nix32_loop 0 cs (replicate 32 0) = Inr (replicate 32 0)"
proof -
  let ?D = "\<lambda>n. if n = 51 then d else (0 :: nat)"
  have "\<forall>j < length cs. cs ! j mod 256 = of_char (nix_alphabet ! ?D (0 + j)) \<and> ?D (0 + j) < 32"
    using assms by simp
  from nix32_loop_bits [OF _ this, of "replicate 32 0"] obtain out where
    out: "nix32_loop 0 cs (replicate 32 0) = Inr out" "length out = 32"
      "\<forall>k. hash_bit out k \<longleftrightarrow> (\<exists>n. n < length cs \<and> k < 256 \<and> 5 * n \<le> k \<and> bit (?D n) (k - 5 * n))"
    by (auto simp: hash_bit_zero)
  have "\<not> hash_bit out k" for k
  proof
    assume "hash_bit out k"
    with out(3) obtain n where n: "k < 256" "5 * n \<le> k" "bit (?D n) (k - 5 * n)" by blast
    then have "n = 51" by (auto split: if_splits)
    with n have "k = 255" "bit d 0" by auto
    then show False using assms(2) by (simp add: bit_0)
  qed
  then have "out = replicate 32 0"
    using out(2) by (intro hash_bit_inject) (simp_all add: hash_bit_zero)
  with out(1) show ?thesis by simp
qed

lemma alphabet_0_2: "of_char (nix_alphabet ! 0) = (48 :: nat)" "of_char (nix_alphabet ! 2) = (50 :: nat)"
  by (simp_all add: nix_alphabet_def)

text \<open>
  The decoders are more liberal than the encoder: the four bits of the first character
  beyond the 256th are dropped by both, so different texts stand for the same hash, and the
  decoder of the Nix path info reads only the low eight bits of a character, so it accepts a
  text with a non-ASCII letter that the other decoder rejects.
\<close>

theorem base32_decoders_lenient:
  "decode_nix32 (CHR ''2'' # zeros 51) = Inr (replicate 32 0) \<and>
   decode_nix_base32 (CHR ''2'' # zeros 51) = Inr (replicate 32 0) \<and>
   decode_nix32 (zeros 52) = Inr (replicate 32 0) \<and>
   is_str ([CHR 0xC4, CHR 0xB0] @ zeros 50) \<and>
   decode_nix32 ([CHR 0xC4, CHR 0xB0] @ zeros 50) = Inr (replicate 32 0) \<and>
   is_ok (decode_nix_base32 ([CHR 0xC4, CHR 0xB0] @ zeros 50)) = False"
proof -
  let ?s = "CHR ''2'' # zeros 51" and ?t = "[CHR 0xC4, CHR 0xB0] @ zeros 50"
  have ascii: "is_ascii ?s" "length ?s = 52" by (simp_all add: is_ascii_def zeros_def list_all_iff)
  have "rev (chars ?s) = replicate 51 48 @ [50]"
    using ascii(1) by (simp add: chars_ascii zeros_def)
  then have 1: "decode_nix32 ?s = Inr (replicate 32 0)"
    using nix32_zeros [of "rev (chars ?s)" 2] ascii(2)
    by (simp add: decode_nix32_def nth_append alphabet_0_2)
  moreover have codes: "\<forall>c \<in> set (chars ?s). code_ok c"
    using nix32_loop_codes [of 0 "rev (chars ?s)"] 1 ascii by (auto simp: decode_nix32_def chars_ascii)
  moreover have "decode_nix_base32 ?s = Inr (replicate 32 0)"
    using decoders_same_codes [OF ascii(2,1) codes] 1 by auto
  moreover have "decode_nix32 (zeros 52) = Inr (replicate 32 0)"
    using nix32_zeros [of "replicate 52 48" 0]
    by (simp add: decode_nix32_def chars_zeros alphabet_0_2) (simp add: zeros_def)
  moreover have "decode_nix32 ?t = Inr (replicate 32 0)"
    using nix32_zeros [of "replicate 50 48 @ [0x130]" 0]
    by (simp add: decode_nix32_def chars_low_zeros [simplified] nth_append alphabet_0_2) (simp add: zeros_def)
  moreover have "[0..<51] = [0..<50] @ [50]"
    using upt_Suc_append [of 0 50] by simp
  then have "is_ok (decode_nix_base32 ?t) = False"
    by (simp add: decode_nix_base32_def Let_def chars_low_zeros [simplified])
  ultimately show ?thesis using chars_low_zeros(1) by blast
qed

end
