(* ===== verification/Nix_Info.thy ===== *)
theory Nix_Info
  imports Nix_Base32
begin

text \<open>
  The store-path metadata of \<open>nix_info.rs\<close>: the query through \<open>nix path-info --json\<close>, whose process,
  JSON library and lossy text conversion are parameters, the hash formats Nix prints and the check of a store path.
\<close>

record nix_path_info =
  np_path :: string
  np_nar_hash :: string
  np_nar_size :: u64
  np_references :: "string list"
  np_deriver :: "string option"
  np_signatures :: "string list"

text \<open>What running a process gives: why it did not start, or its success, output and error text.\<close>

type_synonym process_answer = "string + (bool \<times> byte list \<times> byte list)"

definition query_path_info :: "(string list \<Rightarrow> process_answer) \<Rightarrow> (byte list \<Rightarrow> string) \<Rightarrow>
    (byte list \<Rightarrow> string + 'j) \<Rightarrow> ('j \<Rightarrow> string \<Rightarrow> 'j option) \<Rightarrow> ('j \<Rightarrow> string + nix_path_info) \<Rightarrow>
    string \<Rightarrow> nix_path_info result" where
  "query_path_info run lossy json_parse json_get json_decode store_path =
     (case run [''nix'', ''path-info'', ''--json'', store_path] of
        Inl e \<Rightarrow> throw (Protocol (''failed to run nix path-info: '' @ e))
      | Inr (success, out, err) \<Rightarrow>
          if \<not> success then throw (StorePathNotFound (store_path @ '': '' @ trim (lossy err)))
          else case json_parse out of
            Inl e \<Rightarrow> throw (Protocol (''invalid json from nix path-info: '' @ e))
          | Inr json \<Rightarrow>
              rbind (ok_or (json_get json store_path) (StorePathNotFound store_path)) (\<lambda>info.
              case json_decode info of
                Inl e \<Rightarrow> throw (Protocol (''failed to parse nix path-info: '' @ e))
              | Inr x \<Rightarrow> Inr x))"

definition sha256_bytes :: "(string \<Rightarrow> string + byte list) \<Rightarrow> nix_path_info \<Rightarrow> hash32 result" where
  "sha256_bytes unb64 info =
     (case strip_prefix ''sha256-'' (np_nar_hash info) of
        Some b64 \<Rightarrow>
          (case unb64 b64 of
             Inl e \<Rightarrow> throw (Protocol (''invalid base64 in narHash: '' @ e))
           | Inr bytes \<Rightarrow> if length bytes = 32 then Inr bytes
                          else throw (Protocol ''narHash base64 is not 32 bytes''))
      | None \<Rightarrow>
          (case strip_prefix ''sha256:'' (np_nar_hash info) of
             Some nix32 \<Rightarrow> decode_nix32 nix32
           | None \<Rightarrow> throw (Protocol (''unsupported narHash format: '' @ np_nar_hash info))))"

definition path_exists :: "(string \<Rightarrow> bool) \<Rightarrow> string \<Rightarrow> bool" where
  "path_exists exists store_path = exists store_path"

definition is_valid_store_path :: "string \<Rightarrow> bool" where
  "is_valid_store_path path \<longleftrightarrow> starts_with path ''/nix/store/'' \<and> length path > length ''/nix/store/''"

lemma is_valid_store_path_iff:
  "is_valid_store_path path \<longleftrightarrow> (\<exists>w. w \<noteq> [] \<and> path = ''/nix/store/'' @ w)"
  by (auto simp: is_valid_store_path_def starts_with_def prefix_def)

text \<open>The check looks at the prefix only: a path that leaves the store passes it.\<close>

lemma store_path_check_shallow: "is_valid_store_path ''/nix/store/../../etc/passwd''"
  by (simp add: is_valid_store_path_def starts_with_def)

text \<open>Both formats Nix prints give the 32 bytes back.\<close>

lemma sha256_bytes_sri:
  "np_nar_hash info = ''sha256-'' @ b64 \<Longrightarrow> unb64 b64 = Inr h \<Longrightarrow> length h = 32 \<Longrightarrow> sha256_bytes unb64 info = Inr h"
  by (simp add: sha256_bytes_def strip_prefix_def)

lemma nix32_loop_length: "nix32_loop i cs out = Inr r \<Longrightarrow> length r = length out"
proof (induction i cs out rule: nix32_loop.induct)
  case (2 i c cs out)
  then show ?case by (auto simp: nix32_step_def Let_def split: option.splits if_splits)
qed simp

text \<open>Whatever the format, an accepted hash has 32 bytes.\<close>

lemma sha256_bytes_length: "sha256_bytes unb64 info = Inr h \<Longrightarrow> length h = 32"
  by (auto simp: sha256_bytes_def decode_nix32_def dest: nix32_loop_length
      split: option.splits sum.splits if_splits)

end
