(* ===== verification/Retry.thy ===== *)
theory Retry
  imports Complex_Main Errors
begin

text \<open>
  Retrying of \<open>retry.rs\<close>. The operation is a function on a state, so that its successive calls
  may differ. The \<open>f64\<close> arithmetic of the delays is exact arithmetic on reals (seconds) here;
  \<open>rnd k\<close> is the random number in [0, 1) drawn for attempt \<open>k\<close>.
\<close>

record retry_stats =
  rs_attempts :: nat
  rs_total_delay :: real
  rs_succeeded :: bool

record retry_config =
  max_retries :: nat
  initial_delay :: real
  max_delay :: real
  backoff_multiplier :: real
  jitter_fraction :: real

definition default_config :: retry_config where
  "default_config = \<lparr>max_retries = 3, initial_delay = 1 / 2, max_delay = 30, backoff_multiplier = 2,
     jitter_fraction = 1 / 10\<rparr>"

definition no_retry :: retry_config where
  "no_retry = default_config\<lparr>max_retries := 0\<rparr>"

definition aggressive :: retry_config where
  "aggressive = \<lparr>max_retries = 5, initial_delay = 1 / 5, max_delay = 10, backoff_multiplier = 3 / 2,
     jitter_fraction = 1 / 5\<rparr>"

definition patient :: retry_config where
  "patient = \<lparr>max_retries = 10, initial_delay = 1, max_delay = 60, backoff_multiplier = 2,
     jitter_fraction = 1 / 4\<rparr>"

definition delay_for_attempt :: "retry_config \<Rightarrow> real \<Rightarrow> nat \<Rightarrow> real" where
  "delay_for_attempt cfg rnd attempt =
     (if attempt = 0 then 0
      else let base_delay = initial_delay cfg * backoff_multiplier cfg ^ (attempt - 1);
               capped_delay = min base_delay (max_delay cfg);
               jitter_range = capped_delay * jitter_fraction cfg;
               jitter = (if jitter_range > 0 then (rnd - 1 / 2) * 2 * jitter_range else 0)
           in max (capped_delay + jitter) 0)"

fun is_retryable :: "error \<Rightarrow> bool" where
  "is_retryable (Connection _) = True"
| "is_retryable (Timeout _) = True"
| "is_retryable (Protocol msg) =
     (contains msg ''stream'' \<or> contains msg ''connection'' \<or> contains msg ''timeout'' \<or> contains msg ''reset'')"
| "is_retryable (Remote msg) = (\<not> contains msg ''not found'')"
| "is_retryable (Io kind _) = (kind \<in> {ConnectionReset, ConnectionAborted, TimedOut, Interrupted, WouldBlock})"
| "is_retryable (HashNotFound _) = False"
| "is_retryable (StorePathNotFound _) = False"
| "is_retryable (InvalidStorePath _) = False"
| "is_retryable (Database _) = False"
| "is_retryable (Nar _) = False"
| "is_retryable (Signing _) = False"
| "is_retryable (Iroh _) = True"
| "is_retryable (Gossip _) = True"
| "is_retryable (Build _) = False"
| "is_retryable (JobNotFound _) = False"
| "is_retryable (InvalidBuilder _) = False"
| "is_retryable (Internal _) = False"
| "is_retryable (HttpCache msg) = (\<not> contains msg ''not found'' \<and> \<not> contains msg ''mismatch'')"

text \<open>The loop over the attempts; it also returns the calls of the progress callback.\<close>

type_synonym ('s, 'a) operation = "'s \<Rightarrow> 'a result \<times> 's"

fun retry_loop :: "retry_config \<Rightarrow> (nat \<Rightarrow> real) \<Rightarrow> ('s, 'a) operation \<Rightarrow> nat list \<Rightarrow> error option \<Rightarrow>
    retry_stats \<Rightarrow> (nat \<times> nat \<times> real) list \<Rightarrow> 's \<Rightarrow>
    'a result \<times> retry_stats \<times> (nat \<times> nat \<times> real) list \<times> 's" where
  "retry_loop cfg rnd oper [] last_error stats cbs s =
     (throw (case last_error of Some e \<Rightarrow> e | None \<Rightarrow> Timeout ''all retries exhausted''), stats, cbs, s)"
| "retry_loop cfg rnd oper (attempt # attempts) last_error stats cbs s =
     (let delay = delay_for_attempt cfg (rnd attempt) attempt;
          stats1 = stats\<lparr>rs_attempts := attempt + 1, rs_total_delay := rs_total_delay stats + delay\<rparr>;
          cbs1 = (if delay \<noteq> 0 then cbs @ [(attempt, max_retries cfg, delay)] else cbs)
      in case oper s of
           (Inr x, s') \<Rightarrow> (Inr x, stats1\<lparr>rs_succeeded := True\<rparr>, cbs1, s')
         | (Inl (Panic m), s') \<Rightarrow> (panic m, stats1, cbs1, s')
         | (Inl (Err e), s') \<Rightarrow>
             (let is_last = attempt \<ge> max_retries cfg;
                  should_retry = (\<not> is_last \<and> is_retryable e)
              in if should_retry \<or> is_last
                 then retry_loop cfg rnd oper attempts (Some e) stats1 cbs1 s'
                 else (throw e, stats1, cbs1, s')))"

definition with_retry_stats :: "retry_config \<Rightarrow> (nat \<Rightarrow> real) \<Rightarrow> ('s, 'a) operation \<Rightarrow> 's \<Rightarrow>
    'a result \<times> retry_stats \<times> (nat \<times> nat \<times> real) list \<times> 's" where
  "with_retry_stats cfg rnd oper s = retry_loop cfg rnd oper [0..<max_retries cfg + 1] None
     \<lparr>rs_attempts = 0, rs_total_delay = 0, rs_succeeded = False\<rparr> [] s"

definition with_retry :: "retry_config \<Rightarrow> (nat \<Rightarrow> real) \<Rightarrow> ('s, 'a) operation \<Rightarrow> 's \<Rightarrow> 'a result \<times> 's" where
  "with_retry cfg rnd oper s = (case with_retry_stats cfg rnd oper s of (res, _, _, s') \<Rightarrow> (res, s'))"

fun providers_loop :: "retry_config \<Rightarrow> (nat \<Rightarrow> nat \<Rightarrow> real) \<Rightarrow> ('p \<Rightarrow> ('s, 'a) operation) \<Rightarrow> nat \<Rightarrow> 'p list \<Rightarrow>
    error option \<Rightarrow> 's \<Rightarrow> 'a result \<times> 's" where
  "providers_loop cfg rnd oper k [] last_error s =
     (throw (case last_error of Some e \<Rightarrow> e | None \<Rightarrow> Protocol ''all providers failed''), s)"
| "providers_loop cfg rnd oper k (p # ps) last_error s =
     (case with_retry cfg (rnd k) (oper p) s of
        (Inr x, s') \<Rightarrow> (Inr x, s')
      | (Inl (Panic m), s') \<Rightarrow> (panic m, s')
      | (Inl (Err e), s') \<Rightarrow> providers_loop cfg rnd oper (k + 1) ps (Some e) s')"

definition provider_config :: "retry_config \<Rightarrow> 'p list \<Rightarrow> retry_config" where
  "provider_config cfg providers =
     (if length providers > 1 then cfg\<lparr>max_retries := min (max_retries cfg) 2\<rparr> else cfg)"

definition with_retry_providers :: "retry_config \<Rightarrow> (nat \<Rightarrow> nat \<Rightarrow> real) \<Rightarrow> 'p list \<Rightarrow>
    ('p \<Rightarrow> ('s, 'a) operation) \<Rightarrow> 's \<Rightarrow> 'a result \<times> 's" where
  "with_retry_providers cfg rnd providers oper s =
     (if providers = [] then (throw (Protocol ''no providers available''), s)
      else providers_loop (provider_config cfg providers) rnd oper 0 providers None s)"

section \<open>The calls a retry makes\<close>

text \<open>The state before the \<open>n\<close>-th call and its result, when the operation is just repeated.\<close>

fun state_at :: "('s, 'a) operation \<Rightarrow> nat \<Rightarrow> 's \<Rightarrow> 's" where
  "state_at oper 0 s = s"
| "state_at oper (Suc n) s = state_at oper n (snd (oper s))"

definition result_at :: "('s, 'a) operation \<Rightarrow> nat \<Rightarrow> 's \<Rightarrow> 'a result" where
  "result_at oper n s = fst (oper (state_at oper n s))"

definition retryable_result :: "'a result \<Rightarrow> bool" where
  "retryable_result r = (case r of Inl (Err e) \<Rightarrow> is_retryable e | _ \<Rightarrow> False)"

lemma result_at_0: "result_at oper 0 s = fst (oper s)"
  by (simp add: result_at_def)

lemma result_at_Suc: "result_at oper (Suc n) s = result_at oper n (snd (oper s))"
  by (simp add: result_at_def)

text \<open>
  From attempt \<open>a\<close> on, the loop stops at the first result that is not a retryable error, or at
  the last attempt, and returns that result.
\<close>

lemma retry_loop_spec:
  assumes "a + k = max_retries cfg"
    and "retry_loop cfg rnd oper [a..<max_retries cfg + 1] le st cbs s = (res, stats, cbs', s')"
  shows "\<exists>n \<le> k. rs_attempts stats = a + n + 1 \<and> res = result_at oper n s \<and>
    s' = state_at oper (n + 1) s \<and> (\<forall>i < n. retryable_result (result_at oper i s)) \<and>
    (n = k \<or> \<not> retryable_result res) \<and> rs_succeeded stats = (rs_succeeded st \<or> is_ok res)"
  using assms
proof (induction k arbitrary: a le st cbs s)
  case 0
  then have list: "[a..<max_retries cfg + 1] = [a]" by simp
  obtain r s1 where op: "oper s = (r, s1)" by fastforce
  show ?case
    using 0 op unfolding list
    by (cases r rule: sum.exhaust; cases "projl r")
       (auto simp: Let_def result_at_0 split: fault.splits)
next
  case (Suc k)
  then have list: "[a..<max_retries cfg + 1] = a # [Suc a..<max_retries cfg + 1]" and lt: "a < max_retries cfg"
    by (simp_all add: upt_conv_Cons)
  obtain r s1 where op: "oper s = (r, s1)" by fastforce
  show ?case
  proof (cases "retryable_result r")
    case False
    then show ?thesis
      using Suc.prems(2) op lt unfolding list
      by (intro exI [of _ 0])
         (auto simp: Let_def result_at_0 retryable_result_def split: sum.splits fault.splits if_splits)
  next
    case True
    then obtain e where r: "r = Inl (Err e)" "is_retryable e"
      by (auto simp: retryable_result_def split: sum.splits fault.splits)
    define st1 where "st1 = st\<lparr>rs_attempts := a + 1,
      rs_total_delay := rs_total_delay st + delay_for_attempt cfg (rnd a) a\<rparr>"
    obtain cbs1 where "retry_loop cfg rnd oper [Suc a..<max_retries cfg + 1] (Some e) st1 cbs1 s1 =
        (res, stats, cbs', s')"
      using Suc.prems(2) op r lt unfolding list by (auto simp: Let_def st1_def)
    with Suc.IH [of "Suc a" "Some e" st1 cbs1 s1] Suc.prems(1) obtain n where n: "n \<le> k"
      "rs_attempts stats = Suc a + n + 1" "res = result_at oper n s1" "s' = state_at oper (n + 1) s1"
      "\<forall>i < n. retryable_result (result_at oper i s1)" "n = k \<or> \<not> retryable_result res"
      "rs_succeeded stats = (rs_succeeded st1 \<or> is_ok res)" by auto
    have "retryable_result (result_at oper i s)" if "i < Suc n" for i
      using that n(5) True op by (cases i) (auto simp: result_at_0 result_at_Suc)
    with n op show ?thesis
      by (intro exI [of _ "Suc n"]) (auto simp: result_at_Suc st1_def)
  qed
qed

lemma retry_stats_spec:
  assumes "with_retry_stats cfg rnd oper s = (res, stats, cbs, s')"
  shows "\<exists>n \<le> max_retries cfg. rs_attempts stats = n + 1 \<and> res = result_at oper n s \<and>
    s' = state_at oper (n + 1) s \<and> (\<forall>i < n. retryable_result (result_at oper i s)) \<and>
    (n = max_retries cfg \<or> \<not> retryable_result res) \<and> rs_succeeded stats = is_ok res"
  using retry_loop_spec [OF _ assms [unfolded with_retry_stats_def], of "max_retries cfg"] by simp

lemma state_at_count:
  "snd (state_at (\<lambda>(s, n). case oper s of (r, s') \<Rightarrow> (r, (s', n + 1))) k (s, n)) = n + (k :: nat)"
  by (induction k arbitrary: s n) (auto split: prod.split)

lemma with_retry_calls:
  "snd (snd (with_retry cfg rnd (\<lambda>(s, n). case oper s of (r, s') \<Rightarrow> (r, (s', n + 1))) (s, n)))
     \<le> n + (max_retries cfg + 1)"
proof -
  let ?op = "\<lambda>(s, n). case oper s of (r, s') \<Rightarrow> (r, (s', n + 1))"
  obtain res stats cbs s' where run: "with_retry_stats cfg rnd ?op (s, n) = (res, stats, cbs, s')"
    by (metis prod.exhaust)
  from retry_stats_spec [OF this] obtain m where "m \<le> max_retries cfg" "s' = state_at ?op (m + 1) (s, n)"
    by blast
  then show ?thesis
    using state_at_count [of oper "m + 1" s n] run by (simp add: with_retry_def)
qed

lemma providers_loop_calls:
  "snd (snd (providers_loop cfg rnd (\<lambda>p (s, n). case oper p s of (r, s') \<Rightarrow> (r, (s', n + 1))) k ps le (s, n)))
     \<le> n + length ps * (max_retries cfg + 1)"
proof (induction ps arbitrary: k le s n)
  case (Cons p ps)
  let ?op = "\<lambda>(s, n). case oper p s of (r, s') \<Rightarrow> (r, (s', n + 1))"
  obtain r s1 n1 where w: "with_retry cfg (rnd k) ?op (s, n) = (r, (s1, n1))"
    by (metis prod.exhaust)
  have n1: "n1 \<le> n + (max_retries cfg + 1)"
    using with_retry_calls [of cfg "rnd k" "oper p" s n] w by simp
  show ?case
  proof (cases r)
    case (Inl f)
    show ?thesis
    proof (cases f)
      case (Err e)
      then show ?thesis
        using w Inl n1 Cons [of "k + 1" "Some e" s1 n1] by simp
    qed (use w Inl n1 in simp)
  qed (use w n1 in simp)
qed simp

section \<open>Properties of retrying\<close>

text \<open>
  C34: a retried operation is called at least once and at most \<open>max_retries + 1\<close> times, as often
  as the statistics say; every call but the last ended in a retryable error; the result is the
  last call's own result, never the message "all retries exhausted"; the loop stops early only
  on a success or an error that is not retryable, and the statistics report the success.
\<close>

theorem retry_exact:
  "case with_retry_stats cfg rnd oper s of (res, stats, cbs, s') \<Rightarrow>
     let n = rs_attempts stats in
     1 \<le> n \<and> n \<le> max_retries cfg + 1 \<and> res = result_at oper (n - 1) s \<and> s' = state_at oper n s \<and>
     list_all (\<lambda>i. retryable_result (result_at oper i s)) [0..<n - 1] \<and>
     (n = max_retries cfg + 1 \<or> retryable_result res = False) \<and> rs_succeeded stats = is_ok res"
proof -
  obtain res stats cbs s' where run: "with_retry_stats cfg rnd oper s = (res, stats, cbs, s')"
    by (metis prod.exhaust)
  from retry_stats_spec [OF this] show ?thesis
    unfolding run by (auto simp: Let_def list_all_iff)
qed

text \<open>
  With a non-negative configuration and a jitter of at most the whole delay, the first
  attempt is not delayed and every later one by between 0 and the maximal delay plus its
  jitter.
\<close>

theorem delay_bounds:
  assumes "0 \<le> initial_delay cfg" "0 \<le> backoff_multiplier cfg" "0 \<le> max_delay cfg"
    and "0 \<le> jitter_fraction cfg" "0 \<le> rnd" "rnd < 1"
  shows "0 \<le> delay_for_attempt cfg rnd attempt \<and>
    delay_for_attempt cfg rnd attempt \<le> max_delay cfg * (1 + jitter_fraction cfg) \<and>
    delay_for_attempt cfg rnd 0 = 0"
proof -
  define c where "c = min (initial_delay cfg * backoff_multiplier cfg ^ (attempt - 1)) (max_delay cfg)"
  define j where "j = c * jitter_fraction cfg"
  have c: "0 \<le> c" "c \<le> max_delay cfg" using assms by (simp_all add: c_def)
  then have j: "0 \<le> j" "j \<le> max_delay cfg * jitter_fraction cfg"
    using assms(4) by (simp_all add: j_def mult_right_mono)
  have "(rnd - 1 / 2) * 2 * j \<le> 1 * j"
    using j(1) assms(6) by (intro mult_right_mono) simp_all
  then have "max (c + (if j > 0 then (rnd - 1 / 2) * 2 * j else 0)) 0 \<le> max_delay cfg * (1 + jitter_fraction cfg)"
    using c j by (simp add: distrib_left)
  moreover have "attempt = 0 \<or> delay_for_attempt cfg rnd attempt =
      max (c + (if j > 0 then (rnd - 1 / 2) * 2 * j else 0)) 0"
    unfolding delay_for_attempt_def Let_def c_def [symmetric] j_def [symmetric] by simp
  moreover have "delay_for_attempt cfg rnd 0 = 0" by (simp add: delay_for_attempt_def)
  moreover have "0 \<le> max_delay cfg * (1 + jitter_fraction cfg)" using assms by simp
  ultimately show ?thesis by auto
qed

theorem delay_bounds_witness:
  "delay_for_attempt patient (1 / 2) 9 \<le> 75"
  using delay_bounds [of patient "1 / 2" 9] by (simp add: patient_def)

text \<open>
  Trying several providers, an operation that counts its calls is called at most three times
  per provider (\<open>max_retries + 1\<close> times when there is one provider only); with no provider it is
  not called and the error says so.
\<close>

theorem providers_calls_bounded:
  "snd (snd (with_retry_providers cfg rnd ps (\<lambda>p (s, n). case oper p s of (r, s') \<Rightarrow> (r, (s', n + 1))) (s, 0)))
     \<le> length ps * (if length ps > 1 then min (max_retries cfg) 2 + 1 else max_retries cfg + 1) \<and>
   fst (with_retry_providers cfg rnd [] oper s) = throw (Protocol ''no providers available'')"
  using providers_loop_calls [of "provider_config cfg ps" rnd oper 0 ps None s 0]
  by (auto simp: with_retry_providers_def provider_config_def)

text \<open>
  The two classifications of errors disagree only on the text of the message: an error that
  counts as transient is not retried exactly when it is a remote error that says "not found",
  or an HTTP cache error that says "not found" or "mismatch".
\<close>

theorem transient_not_retried:
  "(is_transient e \<and> is_retryable e = False) =
     (case e of Remote m \<Rightarrow> contains m ''not found''
      | HttpCache m \<Rightarrow> contains m ''not found'' \<or> contains m ''mismatch''
      | _ \<Rightarrow> False)"
  by (cases e) auto

end
