(* ===== verification/Http_Cache.thy ===== *)
theory Http_Cache
  imports Nix_Base32 Nix_Protocol Hash_Index
begin

text \<open>
  The binary-cache client of \<open>http_cache.rs\<close>: parsing of narinfo files, the lookup in the
  configured caches in order of priority, the verified download of a NAR and the export format
  given to \<open>nix-store --import\<close>. The libraries are parameters: \<open>unhex\<close> and \<open>unb64\<close> decode
  hexadecimal and base-64 text, \<open>join_url\<close> resolves a path, \<open>get\<close> answers a request,
  \<open>decompress\<close> undoes a compression, \<open>sha256\<close>, \<open>blake3\<close> and \<open>hex\<close> are the hashes and their
  display.
\<close>

section \<open>The narinfo parser\<close>

datatype compression = NoCompression | Xz | Zstd | Bzip2

definition from_extension :: "string \<Rightarrow> compression" where
  "from_extension ext =
     (if ext = ''xz'' then Xz
      else if ext = ''zst'' \<or> ext = ''zstd'' then Zstd
      else if ext = ''bz2'' then Bzip2
      else NoCompression)"

text \<open>
  The names compared with are ASCII and no other letter's lower case is one of theirs, so the
  lower case of the ASCII letters is enough.
\<close>

definition ascii_lower :: "char \<Rightarrow> char" where
  "ascii_lower c = (let n = (of_char c :: nat) in if 65 \<le> n \<and> n \<le> 90 then char_of (n + 32) else c)"

definition from_narinfo :: "string \<Rightarrow> compression" where
  "from_narinfo value =
     (let v = map ascii_lower value
      in if v = ''xz'' then Xz
         else if v = ''zstd'' then Zstd
         else if v = ''bzip2'' then Bzip2
         else if v = ''none'' then NoCompression
         else Bzip2)"

record cache_nar_info =
  cn_store_path :: string
  cn_url :: string
  cn_compression :: compression
  cn_nar_hash :: hash32
  cn_nar_size :: u64
  cn_file_size :: "u64 option"
  cn_references :: "string list"
  cn_deriver :: "string option"

type_synonym text_decoder = "string \<Rightarrow> string + byte list"

definition is_hexdigit :: "char \<Rightarrow> bool" where
  "is_hexdigit c = (let n = (of_char c :: nat) in 48 \<le> n \<and> n \<le> 57 \<or> 65 \<le> n \<and> n \<le> 70 \<or> 97 \<le> n \<and> n \<le> 102)"

definition sha256_from_hex :: "text_decoder \<Rightarrow> string \<Rightarrow> hash32 result" where
  "sha256_from_hex unhex s = (case unhex s of
     Inl e \<Rightarrow> throw (Protocol (''invalid hex: '' @ e)) | Inr bytes \<Rightarrow> sha256_from_slice bytes)"

definition parse_sha256_hash :: "text_decoder \<Rightarrow> string \<Rightarrow> hash32 result" where
  "parse_sha256_hash unhex s =
     (if length s = 64 \<and> list_all is_hexdigit s then sha256_from_hex unhex s
      else if length s = 52 then rbind (decode_nix_base32 s) sha256_from_slice
      else throw (HttpCache (''invalid SHA256 hash format: '' @ s @ '' (len='' @ show_nat (length s) @ '')'')))"

definition parse_sha256_base64 :: "text_decoder \<Rightarrow> string \<Rightarrow> hash32 result" where
  "parse_sha256_base64 unb64 s = (case unb64 s of
     Inl e \<Rightarrow> throw (HttpCache (''invalid base64 in SRI hash: '' @ e)) | Inr bytes \<Rightarrow> sha256_from_slice bytes)"

definition parse_prefixed_sha256 :: "text_decoder \<Rightarrow> text_decoder \<Rightarrow> string \<Rightarrow> hash32 result" where
  "parse_prefixed_sha256 unhex unb64 s =
     (case strip_prefix ''sha256:'' s of
        Some hash_str \<Rightarrow> parse_sha256_hash unhex hash_str
      | None \<Rightarrow> (case strip_prefix ''sha256-'' s of
          Some b64_str \<Rightarrow> parse_sha256_base64 unb64 b64_str
        | None \<Rightarrow> throw (HttpCache (''unsupported hash format (expected sha256:... or sha256-...): '' @ s))))"

record parse_state =
  ps_store_path :: "string option"
  ps_url :: "string option"
  ps_compression :: compression
  ps_nar_hash :: "hash32 option"
  ps_nar_size :: "u64 option"
  ps_file_size :: "u64 option"
  ps_references :: "string list"
  ps_deriver :: "string option"

definition parse_start :: parse_state where
  "parse_start = \<lparr>ps_store_path = None, ps_url = None, ps_compression = Bzip2, ps_nar_hash = None,
     ps_nar_size = None, ps_file_size = None, ps_references = [], ps_deriver = None\<rparr>"

definition parse_field :: "text_decoder \<Rightarrow> text_decoder \<Rightarrow> string \<Rightarrow> string \<Rightarrow> parse_state \<Rightarrow> parse_state result" where
  "parse_field unhex unb64 key value st =
     (if key = ''StorePath'' then Inr (st\<lparr>ps_store_path := Some value\<rparr>)
      else if key = ''URL'' then Inr (st\<lparr>ps_url := Some value\<rparr>)
      else if key = ''Compression'' then Inr (st\<lparr>ps_compression := from_narinfo value\<rparr>)
      else if key = ''NarHash'' then
        rbind (parse_prefixed_sha256 unhex unb64 value) (\<lambda>h. Inr (st\<lparr>ps_nar_hash := Some h\<rparr>))
      else if key = ''NarSize'' then Inr (st\<lparr>ps_nar_size := parse_u64 value\<rparr>)
      else if key = ''FileSize'' then Inr (st\<lparr>ps_file_size := parse_u64 value\<rparr>)
      else if key = ''References'' then Inr (st\<lparr>ps_references := basenames_to_references value\<rparr>)
      else if key = ''Deriver'' then
        (let v = trim value
         in if v \<noteq> [] \<and> v \<noteq> ''unknown-deriver'' then Inr (st\<lparr>ps_deriver := Some (store_prefix @ v)\<rparr>)
            else Inr st)
      else Inr st)"

definition parse_line :: "text_decoder \<Rightarrow> text_decoder \<Rightarrow> string \<Rightarrow> parse_state \<Rightarrow> parse_state result" where
  "parse_line unhex unb64 raw st =
     (let line = trim raw
      in if line = [] \<or> starts_with line ''#'' then Inr st
         else case split_once CHR '':'' line of
           Some (k, v) \<Rightarrow> parse_field unhex unb64 (trim k) (trim v) st
         | None \<Rightarrow> Inr st)"

fun parse_lines :: "text_decoder \<Rightarrow> text_decoder \<Rightarrow> string list \<Rightarrow> parse_state \<Rightarrow> parse_state result" where
  "parse_lines unhex unb64 [] st = Inr st"
| "parse_lines unhex unb64 (l # ls) st = rbind (parse_line unhex unb64 l st) (parse_lines unhex unb64 ls)"

definition parse_finish :: "parse_state \<Rightarrow> cache_nar_info result" where
  "parse_finish st =
     rbind (ok_or (ps_store_path st) (HttpCache ''missing StorePath'')) (\<lambda>store_path.
     rbind (ok_or (ps_url st) (HttpCache ''missing URL'')) (\<lambda>url.
     rbind (ok_or (ps_nar_hash st) (HttpCache ''missing or invalid NarHash'')) (\<lambda>nar_hash.
     rbind (ok_or (ps_nar_size st) (HttpCache ''missing NarSize'')) (\<lambda>nar_size.
     Inr \<lparr>cn_store_path = store_path, cn_url = url, cn_compression = ps_compression st,
          cn_nar_hash = nar_hash, cn_nar_size = nar_size, cn_file_size = ps_file_size st,
          cn_references = ps_references st, cn_deriver = ps_deriver st\<rparr>))))"

definition parse_narinfo :: "text_decoder \<Rightarrow> text_decoder \<Rightarrow> string \<Rightarrow> cache_nar_info result" where
  "parse_narinfo unhex unb64 txt =
     rbind (parse_lines unhex unb64 (lines txt) parse_start) parse_finish"

section \<open>Parsing lines of fields\<close>

text \<open>A key the parser reads back: visible ASCII without a colon, not starting a comment.\<close>

definition key_ok :: "string \<Rightarrow> bool" where
  "key_ok k \<longleftrightarrow> tidy k \<and> CHR '':'' \<notin> set k \<and> hd k \<noteq> CHR ''#''"

definition field_line :: "string \<times> string \<Rightarrow> string" where
  "field_line f = fst f @ '': '' @ snd f"

lemma trim_field_line:
  assumes "key_ok k" "v = [] \<or> tidy v"
  shows "trim (k @ '': '' @ v) = (if v = [] then k @ '':'' else k @ '': '' @ v)"
proof (cases "v = []")
  case True
  have "tidy (k @ '':'')"
    using assms(1) by (auto simp: key_ok_def tidy_def visible_def)
  then have "trim (k @ '':'') = k @ '':''" by (rule trim_tidy)
  moreover have "trim_start (k @ '': '') = k @ '': ''" "trim_start (k @ '':'') = k @ '':''"
    using assms(1) by (cases k; auto simp: key_ok_def tidy_def visible_ws intro!: trim_start_id)+
  moreover have "trim_end ((k @ '':'') @ '' '') = trim_end (k @ '':'')" by (rule trim_end_space)
  ultimately show ?thesis using True by (simp add: trim_def)
next
  case False
  with assms have "tidy (k @ '': '' @ v)"
    by (auto simp: key_ok_def tidy_def hd_append)
  with False show ?thesis by (simp add: trim_tidy)
qed

lemma parse_line_field:
  assumes "key_ok k" "v = [] \<or> tidy v"
  shows "parse_line unhex unb64 (field_line (k, v)) st = parse_field unhex unb64 k v st"
proof -
  obtain c cs where k: "k = c # cs" using assms(1) by (cases k) (auto simp: key_ok_def tidy_def)
  have split: "split_once CHR '':'' (trim (k @ '': '' @ v)) = Some (k, if v = [] then [] else CHR '' '' # v)"
    using assms(1) split_once_append [of "CHR '':''" k "[]"] split_once_append [of "CHR '':''" k "CHR '' '' # v"]
    unfolding trim_field_line [OF assms] by (simp add: key_ok_def)
  have "trim (if v = [] then [] else CHR '' '' # v) = v" "trim k = k"
    using assms by (auto simp: trim_space trim_tidy key_ok_def)
  moreover have "\<not> (trim (k @ '': '' @ v) = [] \<or> starts_with (trim (k @ '': '' @ v)) ''#'')"
    using assms(1) unfolding trim_field_line [OF assms]
    by (auto simp: starts_with_def k key_ok_def prefix_Cons)
  ultimately show ?thesis
    using split by (simp add: parse_line_def field_line_def Let_def)
qed

fun parse_fields :: "text_decoder \<Rightarrow> text_decoder \<Rightarrow> (string \<times> string) list \<Rightarrow> parse_state \<Rightarrow> parse_state result" where
  "parse_fields unhex unb64 [] st = Inr st"
| "parse_fields unhex unb64 ((k, v) # fs) st = rbind (parse_field unhex unb64 k v st) (parse_fields unhex unb64 fs)"

lemma parse_lines_fields:
  "\<forall>(k, v) \<in> set fs. key_ok k \<and> (v = [] \<or> tidy v) \<Longrightarrow>
     parse_lines unhex unb64 (map field_line fs) st = parse_fields unhex unb64 fs st"
  by (induction fs arbitrary: st) (auto simp: parse_line_field cong: rbind_cong)

lemma parse_narinfo_fields:
  assumes "txt = concat (map (\<lambda>f. field_line f @ newline) fs)"
    and "\<forall>(k, v) \<in> set fs. key_ok k \<and> (v = [] \<or> tidy v)"
  shows "parse_narinfo unhex unb64 txt = rbind (parse_fields unhex unb64 fs parse_start) parse_finish"
proof -
  have "lines txt = map strip_cr (map field_line fs)"
  proof -
    have "txt = concat (map (\<lambda>l. l @ [CHR 0x0A]) (map field_line fs))"
      by (simp add: assms(1) newline_def comp_def)
    moreover have "\<forall>l \<in> set (map field_line fs). CHR 0x0A \<notin> set l"
      using assms(2) by (fastforce simp: field_line_def key_ok_def tidy_def)
    ultimately show ?thesis by (simp only: lines_concat)
  qed
  moreover have "strip_cr (field_line f) = field_line f" if "f \<in> set fs" for f
  proof -
    obtain k v where "f = (k, v)" by (cases f)
    with that assms(2) have "v = [] \<or> visible (last v)" by (auto simp: tidy_def)
    then show ?thesis using \<open>f = (k, v)\<close>
      by (auto simp: field_line_def strip_cr_def visible_def)
  qed
  then have "map strip_cr (map field_line fs) = map field_line fs" by simp
  ultimately show ?thesis
    by (simp only: parse_narinfo_def parse_lines_fields [OF assms(2)])
qed

section \<open>The client\<close>

text \<open>Durations are in nanoseconds.\<close>

definition seconds :: "nat \<Rightarrow> nat" where
  "seconds n = n * 1000000000"

record 'u cache_config =
  cc_url :: 'u
  cc_priority :: u32
  cc_timeout :: nat

definition cache_config_new :: "(string \<Rightarrow> string + 'u) \<Rightarrow> string \<Rightarrow> 'u cache_config result" where
  "cache_config_new parse_url url = (case parse_url url of
     Inl e \<Rightarrow> throw (HttpCache (''invalid cache URL '' @ [CHR 0x27] @ url @ [CHR 0x27] @ '': '' @ e))
   | Inr parsed \<Rightarrow> Inr \<lparr>cc_url = parsed, cc_priority = 40, cc_timeout = seconds 60\<rparr>)"

definition with_priority :: "u32 \<Rightarrow> 'u cache_config \<Rightarrow> 'u cache_config" where
  "with_priority p c = c\<lparr>cc_priority := p\<rparr>"

definition with_timeout :: "nat \<Rightarrow> 'u cache_config \<Rightarrow> 'u cache_config" where
  "with_timeout timeout c = c\<lparr>cc_timeout := timeout\<rparr>"

text \<open>\<open>sort_by_key\<close> is stable, as \<open>sort_key\<close> is.\<close>

definition http_client_new :: "'u cache_config list \<Rightarrow> 'u cache_config list" where
  "http_client_new configs = sort_key cc_priority configs"

definition no_caches :: "'u cache_config list \<Rightarrow> bool" where
  "no_caches configs \<longleftrightarrow> configs = []"

text \<open>The answer to a request, which may depend on its timeout: no answer, or a status and the body or why it cannot be read.\<close>

datatype 'b http_response = SendFailed string | Response bool string "string + 'b"

fun fetch_narinfo :: "text_decoder \<Rightarrow> text_decoder \<Rightarrow> ('u \<Rightarrow> string \<Rightarrow> string + 'u) \<Rightarrow>
    (nat \<Rightarrow> 'u \<Rightarrow> string http_response) \<Rightarrow> 'u cache_config list \<Rightarrow> string \<Rightarrow> (cache_nar_info \<times> 'u) result" where
  "fetch_narinfo unhex unb64 join_url get [] store_hash =
     throw (HttpCache (''narinfo not found in any cache: '' @ store_hash))"
| "fetch_narinfo unhex unb64 join_url get (c # cs) store_hash =
     (case join_url (cc_url c) (store_hash @ ''.narinfo'') of
        Inl e \<Rightarrow> throw (HttpCache (''invalid narinfo URL: '' @ e))
      | Inr url \<Rightarrow>
          (case get (cc_timeout c) url of
             SendFailed _ \<Rightarrow> fetch_narinfo unhex unb64 join_url get cs store_hash
           | Response ok status body \<Rightarrow>
               if \<not> ok then fetch_narinfo unhex unb64 join_url get cs store_hash
               else (case body of
                  Inl e \<Rightarrow> throw (HttpCache (''failed to read narinfo: '' @ e))
                | Inr txt \<Rightarrow> rbind (parse_narinfo unhex unb64 txt) (\<lambda>ni. Inr (ni, cc_url c)))))"

record fetch_result =
  fr_nar_data :: "byte list"
  fr_blake3 :: hash32
  fr_sha256 :: hash32
  fr_nar_size :: u64
  fr_store_path :: string
  fr_references :: "string list"
  fr_deriver :: "string option"

definition read_error :: "compression \<Rightarrow> string" where
  "read_error c = (case c of
     NoCompression \<Rightarrow> ''failed to read NAR: '' | Xz \<Rightarrow> ''failed to decompress xz: ''
   | Zstd \<Rightarrow> ''failed to decompress zstd: '' | Bzip2 \<Rightarrow> ''failed to decompress bzip2: '')"

definition fetch_nar :: "('u \<Rightarrow> string \<Rightarrow> string + 'u) \<Rightarrow> (nat \<Rightarrow> 'u \<Rightarrow> 'b http_response) \<Rightarrow>
    (compression \<Rightarrow> string + 'b \<Rightarrow> string + byte list) \<Rightarrow> (byte list \<Rightarrow> hash32) \<Rightarrow> (byte list \<Rightarrow> hash32) \<Rightarrow>
    (byte list \<Rightarrow> string) \<Rightarrow> cache_nar_info \<Rightarrow> 'u \<Rightarrow> fetch_result result" where
  "fetch_nar join_url get decompress sha256 blake3 hex ni base_url =
     (case join_url base_url (cn_url ni) of
        Inl e \<Rightarrow> throw (HttpCache (''invalid NAR URL: '' @ e))
      | Inr nar_url \<Rightarrow>
          (case get (seconds 300) nar_url of
             SendFailed e \<Rightarrow> throw (HttpCache (''failed to fetch NAR: '' @ e))
           | Response ok status body \<Rightarrow>
               if \<not> ok then throw (HttpCache (''NAR fetch failed: '' @ status))
               else (case decompress (cn_compression ni) body of
                  Inl e \<Rightarrow> throw (HttpCache (read_error (cn_compression ni) @ e))
                | Inr nar_data \<Rightarrow>
                    (let sha = sha256 nar_data
                     in if sha \<noteq> cn_nar_hash ni
                        then throw (HttpCache (''SHA256 mismatch: expected '' @ hex (cn_nar_hash ni) @
                               '', got '' @ hex sha))
                        else Inr \<lparr>fr_nar_data = nar_data, fr_blake3 = blake3 nar_data, fr_sha256 = sha,
                               fr_nar_size = of_nat (length nar_data), fr_store_path = cn_store_path ni,
                               fr_references = cn_references ni, fr_deriver = cn_deriver ni\<rparr>))))"

text \<open>The slice \<open>path[..32]\<close> ends before the dash at byte 32, which is a character boundary.\<close>

definition cache_store_hash :: "string \<Rightarrow> string result" where
  "cache_store_hash store_path =
     (case strip_prefix store_prefix store_path of
        None \<Rightarrow> throw (InvalidStorePath store_path)
      | Some path \<Rightarrow>
          if length path < 33 \<or> path ! 32 \<noteq> CHR ''-'' then throw (InvalidStorePath store_path)
          else Inr (take 32 path))"

definition fetch_by_store_path where
  "fetch_by_store_path unhex unb64 join_url get_text get decompress sha256 blake3 hex configs store_path =
     rbind (cache_store_hash store_path) (\<lambda>store_hash.
     rbind (fetch_narinfo unhex unb64 join_url get_text configs store_hash) (\<lambda>(ni, base_url).
     if cn_store_path ni \<noteq> store_path
     then throw (HttpCache (''store path mismatch: expected '' @ store_path @ '', got '' @ cn_store_path ni))
     else fetch_nar join_url get decompress sha256 blake3 hex ni base_url))"

section \<open>The export format\<close>

definition write_nix_string :: "byte list \<Rightarrow> byte list \<Rightarrow> byte list" where
  "write_nix_string buf s =
     (let buf1 = buf @ u64_le (of_nat (length s)) @ s;
          pad = (8 - length s mod 8) mod 8
      in if pad > 0 then buf1 @ take pad (replicate 8 0) else buf1)"

definition build_export_data :: "fetch_result \<Rightarrow> byte list" where
  "build_export_data r =
     (let b1 = u64_le 1 @ fr_nar_data r @ u64_le 0x4558494e;
          b2 = write_nix_string b1 (as_bytes (fr_store_path r));
          b3 = b2 @ u64_le (of_nat (length (fr_references r)));
          b4 = fold (\<lambda>ref buf. write_nix_string buf (as_bytes ref)) (fr_references r) b3;
          b5 = write_nix_string b4 (as_bytes (case fr_deriver r of Some d \<Rightarrow> d | None \<Rightarrow> []))
      in b5 @ u64_le 0 @ u64_le 0)"

section \<open>Properties of the client\<close>

text \<open>
  The import of a fetched path by \<open>nix-store --import\<close>. The process is a parameter: what it makes
  of the bytes written to its input is the error of the write, or the error of the wait, or
  whether it succeeded and what it wrote to its error output.
\<close>

definition import_command :: "string list" where
  "import_command = [''nix-store'', ''--import'']"

definition import_to_store :: "(string list \<Rightarrow> string + (byte list \<Rightarrow> string + (string + bool \<times> byte list))) \<Rightarrow>
    (byte list \<Rightarrow> string) \<Rightarrow> fetch_result \<Rightarrow> string result" where
  "import_to_store spawn_child lossy r =
     (case spawn_child import_command of
        Inl e \<Rightarrow> throw (HttpCache (''failed to spawn nix-store: '' @ e))
      | Inr child \<Rightarrow>
          (case child (build_export_data r) of
             Inl e \<Rightarrow> throw (HttpCache (''failed to write export data: '' @ e))
           | Inr (Inl e) \<Rightarrow> throw (HttpCache (''nix-store failed: '' @ e))
           | Inr (Inr (success, stderr)) \<Rightarrow>
               if \<not> success then throw (HttpCache (''nix-store --import failed: '' @ lossy stderr))
               else Inr (fr_store_path r)))"

lemma write_nix_string_padded: "write_nix_string buf s = buf @ padded s"
proof -
  have "take (padding n) (replicate 8 (0 :: byte)) = replicate (padding n) 0" for n
  proof -
    have "padding n < 8" by (simp add: padding_def)
    then show ?thesis by simp
  qed
  then show ?thesis
    by (auto simp: write_nix_string_def Let_def padded_def padding_def)
qed

lemma fold_write_nix_string:
  "fold (\<lambda>ref buf. write_nix_string buf (as_bytes ref)) refs buf = buf @ concat (map string_enc refs)"
  by (induction refs arbitrary: buf) (simp_all add: write_nix_string_padded string_enc_def)

lemma build_export_data_eq:
  "build_export_data r = u64_le 1 @ fr_nar_data r @ u64_le 0x4558494e @ string_enc (fr_store_path r) @
     string_set_enc (fr_references r) @ string_enc (case fr_deriver r of Some d \<Rightarrow> d | None \<Rightarrow> []) @
     u64_le 0 @ u64_le 0"
  by (simp add: build_export_data_def Let_def fold_write_nix_string)
     (simp add: write_nix_string_padded string_enc_def string_set_enc_def)

text \<open>
  The export data is read back by the Nix wire-format readers as the marker 1, the NAR
  bytes, the magic number, the store path, the references in order, the deriver (empty when
  there is none) and two zeros, and nothing is left over.
\<close>

theorem export_roundtrip:
  assumes "string_ok (fr_store_path r)" "string_set_ok (fr_references r)"
    and "case fr_deriver r of Some d \<Rightarrow> string_ok d | None \<Rightarrow> True"
  shows "rbind (read_u64 (cursor (build_export_data r))) (\<lambda>(marker, r1).
    rbind (eof_as ''nar'' (read_exact (length (fr_nar_data r)) r1)) (\<lambda>(nar, r2).
    rbind (read_u64 r2) (\<lambda>(magic, r3).
    rbind (read_string ue r3) (\<lambda>(path, r4).
    rbind (read_string_set ue r4) (\<lambda>(refs, r5).
    rbind (read_string ue r5) (\<lambda>(deriver, r6).
    rbind (read_u64 r6) (\<lambda>(sig, r7).
    rbind (read_u64 r7) (\<lambda>(last, r8). Inr (marker, nar, magic, path, refs, deriver, sig, last, r8))))))))) =
    Inr (1, fr_nar_data r, 0x4558494e, fr_store_path r, fr_references r,
      (case fr_deriver r of Some d \<Rightarrow> d | None \<Rightarrow> []), 0, 0, cursor [])"
proof -
  have d: "string_ok (case fr_deriver r of Some d \<Rightarrow> d | None \<Rightarrow> [])"
    using assms(3) by (cases "fr_deriver r") (simp_all add: string_ok_def is_ascii_def)
  have "cursor (build_export_data r) = feed (u64_le 1) (feed (fr_nar_data r) (feed (u64_le 0x4558494e)
      (feed (string_enc (fr_store_path r)) (feed (string_set_enc (fr_references r))
      (feed (string_enc (case fr_deriver r of Some d \<Rightarrow> d | None \<Rightarrow> [])) (feed (u64_le 0) (feed (u64_le 0)
      (cursor []))))))))"
    by (simp only: build_export_data_eq feed_cursor append_Nil2 append.assoc)
  then show ?thesis
    by (simp add: codec_simps assms(1,2) d eof_as_def)
qed

definition sample_fetch :: fetch_result where
  "sample_fetch = \<lparr>fr_nar_data = [1, 2, 3], fr_blake3 = [], fr_sha256 = [], fr_nar_size = 3,
     fr_store_path = ''/nix/store/a'', fr_references = [''/nix/store/b''], fr_deriver = None\<rparr>"

theorem export_roundtrip_witness:
  "is_ok (read_u64 (cursor (build_export_data sample_fetch)))"
  using export_roundtrip [of sample_fetch "\<lambda>_. []"]
  by (auto simp: sample_fetch_def string_ok_def string_set_ok_def is_ascii_def isize_max_def is_ok_iff)

text \<open>
  The store hash of a path is taken exactly when 32 bytes and a dash follow the store
  prefix, every other path is an error and none a panic; when the hash has no dash of its own
  it is the one the index files the path under.
\<close>

theorem cache_store_hash_exact:
  "(cache_store_hash p = Inr h) = (\<exists>name. p = store_prefix @ h @ CHR ''-'' # name \<and> length h = 32) \<and>
   cache_store_hash p \<in> {throw (InvalidStorePath p), Inr (take 32 (drop (length store_prefix) p))} \<and>
   extract_store_hash (store_prefix @ filter (\<lambda>c. c \<noteq> CHR ''-'') h @ CHR ''-'' # name') =
     Some (filter (\<lambda>c. c \<noteq> CHR ''-'') h)"
proof (intro conjI)
  show "(cache_store_hash p = Inr h) = (\<exists>name. p = store_prefix @ h @ CHR ''-'' # name \<and> length h = 32)"
  proof
    assume "cache_store_hash p = Inr h"
    then obtain path where p: "p = store_prefix @ path" and len: "32 < length path"
      and dash: "path ! 32 = CHR ''-''" and h: "h = take 32 path"
      by (auto simp: cache_store_hash_def strip_prefix_Some_iff split: option.splits if_splits)
    have "path = h @ CHR ''-'' # drop 33 path"
      using id_take_nth_drop [OF len] dash h by simp
    with p len h show "\<exists>name. p = store_prefix @ h @ CHR ''-'' # name \<and> length h = 32" by auto
  qed (auto simp: cache_store_hash_def nth_append)
  show "cache_store_hash p \<in> {throw (InvalidStorePath p), Inr (take 32 (drop (length store_prefix) p))}"
    by (auto simp: cache_store_hash_def strip_prefix_def)
  show "extract_store_hash (store_prefix @ filter (\<lambda>c. c \<noteq> CHR ''-'') h @ CHR ''-'' # name') =
      Some (filter (\<lambda>c. c \<noteq> CHR ''-'') h)"
    by (simp add: extract_store_hash_def)
qed

text \<open>Whether a cache settles the lookup of a narinfo, and how.\<close>

definition answers :: "('u \<Rightarrow> string \<Rightarrow> string + 'u) \<Rightarrow> (nat \<Rightarrow> 'u \<Rightarrow> string http_response) \<Rightarrow> string \<Rightarrow>
    'u cache_config \<Rightarrow> bool" where
  "answers join_url get h c = (case join_url (cc_url c) (h @ ''.narinfo'') of
     Inl _ \<Rightarrow> True | Inr url \<Rightarrow> (case get (cc_timeout c) url of Response ok _ _ \<Rightarrow> ok | SendFailed _ \<Rightarrow> False))"

text \<open>
  The lookup of a narinfo is settled by one cache: the first one, in order of priority and
  among equal priorities in the configured order, that answers with success (or whose URL is
  invalid); an unreachable cache or an error status is passed over, but a narinfo that does
  not parse is an error even when a later cache has a good one.
\<close>

theorem fetch_narinfo_first_answer:
  "fetch_narinfo unhex unb64 join_url get (http_client_new configs) h =
    (case find (answers join_url get h) (sort_key cc_priority configs) of
       None \<Rightarrow> throw (HttpCache (''narinfo not found in any cache: '' @ h))
     | Some c \<Rightarrow> (case join_url (cc_url c) (h @ ''.narinfo'') of
         Inl e \<Rightarrow> throw (HttpCache (''invalid narinfo URL: '' @ e))
       | Inr url \<Rightarrow> (case get (cc_timeout c) url of
           SendFailed e \<Rightarrow> throw (HttpCache e)
         | Response ok status body \<Rightarrow> (case body of
             Inl e \<Rightarrow> throw (HttpCache (''failed to read narinfo: '' @ e))
           | Inr txt \<Rightarrow> rbind (parse_narinfo unhex unb64 txt) (\<lambda>ni. Inr (ni, cc_url c))))))"
proof -
  have "fetch_narinfo unhex unb64 join_url get cs h =
    (case find (answers join_url get h) cs of
       None \<Rightarrow> throw (HttpCache (''narinfo not found in any cache: '' @ h))
     | Some c \<Rightarrow> (case join_url (cc_url c) (h @ ''.narinfo'') of
         Inl e \<Rightarrow> throw (HttpCache (''invalid narinfo URL: '' @ e))
       | Inr url \<Rightarrow> (case get (cc_timeout c) url of
           SendFailed e \<Rightarrow> throw (HttpCache e)
         | Response ok status body \<Rightarrow> (case body of
             Inl e \<Rightarrow> throw (HttpCache (''failed to read narinfo: '' @ e))
           | Inr txt \<Rightarrow> rbind (parse_narinfo unhex unb64 txt) (\<lambda>ni. Inr (ni, cc_url c))))))" for cs
    by (induction cs) (auto simp: answers_def split: sum.split http_response.split)
  then show ?thesis by (simp add: http_client_new_def)
qed

text \<open>
  C38: a NAR fetched for a store path is the one the cache describes for that path: its SHA256
  hash is the hash of the narinfo the lookup found, which names the requested path; the BLAKE3
  hash and the size are those of the returned data.
\<close>

theorem fetch_verified:
  assumes "fetch_by_store_path unhex unb64 join_url get_text get decompress sha256 blake3 hex configs p = Inr r"
  shows "\<exists>h ni base. cache_store_hash p = Inr h \<and>
    fetch_narinfo unhex unb64 join_url get_text configs h = Inr (ni, base) \<and>
    cn_store_path ni = p \<and> fr_store_path r = p \<and> cn_nar_hash ni = sha256 (fr_nar_data r) \<and>
    fr_sha256 r = sha256 (fr_nar_data r) \<and> fr_blake3 r = blake3 (fr_nar_data r) \<and>
    fr_nar_size r = of_nat (length (fr_nar_data r)) \<and> fr_references r = cn_references ni"
proof -
  obtain h ni base where "cache_store_hash p = Inr h"
    "fetch_narinfo unhex unb64 join_url get_text configs h = Inr (ni, base)" "cn_store_path ni = p"
    and f: "fetch_nar join_url get decompress sha256 blake3 hex ni base = Inr r"
    using assms by (auto simp: fetch_by_store_path_def split: if_splits)
  moreover have "cn_nar_hash ni = sha256 (fr_nar_data r)" "fr_store_path r = cn_store_path ni"
    "fr_sha256 r = sha256 (fr_nar_data r)" "fr_blake3 r = blake3 (fr_nar_data r)"
    "fr_nar_size r = of_nat (length (fr_nar_data r))" "fr_references r = cn_references ni"
    using f by (auto simp: fetch_nar_def Let_def split: sum.splits http_response.splits if_splits)
  ultimately show ?thesis by blast
qed

definition sample_path :: string where
  "sample_path = store_prefix @ zeros 32 @ ''-x''"

definition sample_narinfo :: string where
  "sample_narinfo = concat (map (\<lambda>l. l @ newline)
     [''StorePath: '' @ sample_path, ''URL: nar/x.nar'', ''Compression: none'',
      ''NarHash: sha256:'' @ zeros 64, ''NarSize: 3''])"

lemma sample_narinfo_parses:
  "parse_narinfo (\<lambda>_. Inr (replicate 32 0)) (\<lambda>_. Inl []) sample_narinfo =
     Inr \<lparr>cn_store_path = sample_path, cn_url = ''nar/x.nar'', cn_compression = NoCompression,
       cn_nar_hash = replicate 32 0, cn_nar_size = 3, cn_file_size = None, cn_references = [],
       cn_deriver = None\<rparr>"
proof -
  have vals: "tidy sample_path" "tidy ''nar/x.nar''" "tidy ''none''" "tidy (''sha256:'' @ zeros 64)" "tidy ''3''"
    by (simp_all add: tidy_def visible_def sample_path_def store_prefix_def zeros_def)
  have "strip_prefix ''sha256:'' (''sha256:'' @ zeros 64) = Some (zeros 64)"
    by (rule strip_prefix_append)
  then have "parse_prefixed_sha256 (\<lambda>_. Inr (replicate 32 0)) (\<lambda>_. Inl []) (''sha256:'' @ zeros 64) = Inr (replicate 32 0)"
    unfolding parse_prefixed_sha256_def
    by (simp only: option.simps) (simp add: parse_sha256_hash_def sha256_from_hex_def sha256_from_slice_def
        zeros_def list_all_iff is_hexdigit_def)
  moreover have "parse_u64 ''3'' = Some 3" 
    by (simp add: parse_u64_def is_digit_def dec_val_def digit_val_def)
  moreover have "from_narinfo ''none'' = NoCompression" by (simp add: from_narinfo_def ascii_lower_def)
  moreover have "parse_narinfo unhex unb64 sample_narinfo = rbind (parse_fields unhex unb64
      [(''StorePath'', sample_path), (''URL'', ''nar/x.nar''), (''Compression'', ''none''),
       (''NarHash'', ''sha256:'' @ zeros 64), (''NarSize'', ''3'')] parse_start) parse_finish" for unhex unb64
  proof (rule parse_narinfo_fields)
    show "\<forall>(k, v) \<in> set [(''StorePath'', sample_path), (''URL'', ''nar/x.nar''), (''Compression'', ''none''),
       (''NarHash'', ''sha256:'' @ zeros 64), (''NarSize'', ''3'')]. key_ok k \<and> (v = [] \<or> tidy v)"
      using vals by (simp add: key_ok_def) (simp add: tidy_def visible_def)
  qed (simp add: sample_narinfo_def field_line_def)
  ultimately show ?thesis
    by (simp add: parse_field_def parse_start_def parse_finish_def)
qed

theorem fetch_verified_witness:
  "\<exists>r. fetch_by_store_path (\<lambda>_. Inr (replicate 32 0)) (\<lambda>_. Inl []) (\<lambda>u p. Inr u)
     (\<lambda>_ _. Response True [] (Inr sample_narinfo)) (\<lambda>_ _. Response True [] (Inr [1, 2, 3])) (\<lambda>c b. b)
     (\<lambda>_. replicate 32 0) (\<lambda>_. replicate 32 9) (\<lambda>_. []) [\<lparr>cc_url = (), cc_priority = 40, cc_timeout = 0\<rparr>] sample_path = Inr r
   \<and> fr_blake3 r = replicate 32 9"
proof -
  have h: "cache_store_hash sample_path = Inr (zeros 32)"
    by (simp add: cache_store_hash_def sample_path_def nth_append zeros_def)
  have "\<exists>r. fetch_by_store_path (\<lambda>_. Inr (replicate 32 0)) (\<lambda>_. Inl []) (\<lambda>u p. Inr u)
     (\<lambda>_ _. Response True [] (Inr sample_narinfo)) (\<lambda>_ _. Response True [] (Inr [1, 2, 3])) (\<lambda>c b. b)
     (\<lambda>_. replicate 32 0) (\<lambda>_. replicate 32 9) (\<lambda>_. []) [\<lparr>cc_url = (), cc_priority = 40, cc_timeout = 0\<rparr>] sample_path = Inr r"
    by (simp add: fetch_by_store_path_def h sample_narinfo_parses fetch_nar_def Let_def)
  then show ?thesis using fetch_verified by fastforce
qed

end
