(* ===== verification/Nar_Transfer.thy ===== *)
theory Nar_Transfer
  imports Nar Nix_Info Protocol Retry Http_Cache
begin

text \<open>
  The NAR transfer of \<open>transfer.rs\<close>: the server that answers one request per connection, from the
  file system or from a binary cache, and the client that fetches a NAR and checks its BLAKE3
  hash. The client's receive stream is a reader that is cut into chunks in any way. The
  postcard encodings, the network and the collaborators of other processes are parameters.
\<close>

definition MAX_NAR_SIZE :: u64 where
  "MAX_NAR_SIZE = 10 * 1024 * 1024 * 1024"

definition TRANSFER_BUFFER_SIZE :: nat where
  "TRANSFER_BUFFER_SIZE = 64 * 1024"

section \<open>Sending\<close>

definition send_part :: "string \<Rightarrow> byte list \<Rightarrow> send_stream \<Rightarrow> unit result \<times> send_stream" where
  "send_part what bs s =
     (case stream_write bs s of
        (Inl e, s') \<Rightarrow> (throw (Protocol (''failed to write '' @ what @ '': '' @ e)), s')
      | (Inr _, s') \<Rightarrow> (Inr (), s'))"

text \<open>\<open>slice::chunks\<close>\<close>

function chunks :: "nat \<Rightarrow> 'a list \<Rightarrow> 'a list list" where
  "chunks n xs = (if xs = [] \<or> n = 0 then [] else take n xs # chunks n (drop n xs))"
  by pat_completeness auto
termination by (relation "measure (\<lambda>(n, xs). length xs)") auto

declare chunks.simps [simp del]

fun send_parts :: "string \<Rightarrow> byte list list \<Rightarrow> send_stream \<Rightarrow> unit result \<times> send_stream" where
  "send_parts what [] s = (Inr (), s)"
| "send_parts what (c # cs) s = st_bind (send_part what c s) (\<lambda>_. send_parts what cs)"

definition send_header :: "(nar_response_header \<Rightarrow> string + byte list) \<Rightarrow> nar_response_header \<Rightarrow>
    send_stream \<Rightarrow> unit result \<times> send_stream" where
  "send_header encode header s =
     (case encode header of
        Inl e \<Rightarrow> (throw (Protocol (''failed to serialize header: '' @ e)), s)
      | Inr header_bytes \<Rightarrow>
          st_bind (send_part ''success marker'' [1] s) (\<lambda>_ s1.
          st_bind (send_part ''header length'' (u32_le (of_nat (length header_bytes))) s1) (\<lambda>_ s2.
          send_part ''header'' header_bytes s2)))"

definition send_error_response :: "string \<Rightarrow> send_stream \<Rightarrow> unit result \<times> send_stream" where
  "send_error_response message s =
     st_bind (send_part ''error marker'' [0] s) (\<lambda>_ s1.
     st_bind (send_part ''error length'' (u32_le (of_nat (length message))) s1) (\<lambda>_ s2.
     send_part ''error message'' (as_bytes message) s2))"

section \<open>The server\<close>

text \<open>What the server's operations find outside: the store, Nix, the binary cache, the codecs.\<close>

record transfer_env =
  te_exists :: "string \<Rightarrow> bool"
  te_node :: "string \<Rightarrow> fs_node"
  te_sha256 :: "byte list \<Rightarrow> hash32"
  te_blake3 :: "byte list \<Rightarrow> hash32"
  te_hex :: "byte list \<Rightarrow> string"
  te_unb64 :: "string \<Rightarrow> string + byte list"
  te_query :: "string \<Rightarrow> nix_path_info result"
  te_http_cache :: "(string \<Rightarrow> fetch_result result) option"
  te_poisoned :: bool
  te_sql :: "string option"
  te_encode_header :: "nar_response_header \<Rightarrow> string + byte list"
  te_decode_request :: "byte list \<Rightarrow> string + nar_request"

record server_state =
  sv_send :: send_stream
  sv_index :: index_table

definition on_send :: "(send_stream \<Rightarrow> 'a result \<times> send_stream) \<Rightarrow> server_state \<Rightarrow> 'a result \<times> server_state" where
  "on_send f s = (case f (sv_send s) of (res, snd') \<Rightarrow> (res, s\<lparr>sv_send := snd'\<rparr>))"

text \<open>\<open>spawn_blocking\<close>: a panic of the task is its join error.\<close>

definition join_task :: "string \<Rightarrow> 'a result \<Rightarrow> 'a result" where
  "join_task what res = (case res of
     Inl (Panic m) \<Rightarrow> throw (Protocol (what @ m)) | Inl (Err e) \<Rightarrow> throw e | Inr x \<Rightarrow> Inr x)"

definition stream_nar_from_path :: "transfer_env \<Rightarrow> string \<Rightarrow> u64 \<Rightarrow> hash32 \<Rightarrow> send_stream \<Rightarrow>
    unit result \<times> send_stream" where
  "stream_nar_from_path env store_path nar_size sha256 s =
     st_bind (send_header (te_encode_header env) (nar_response_header_new nar_size sha256 store_path) s) (\<lambda>_ s1.
     case join_task ''NAR serialization task failed: ''
            (serialize_path (te_sha256 env) (te_blake3 env) store_path (te_node env store_path)) of
       Inl e \<Rightarrow> (Inl e, s1)
     | Inr (nar_data, _) \<Rightarrow> send_parts ''NAR data'' (chunks TRANSFER_BUFFER_SIZE nar_data) s1)"

definition fetch_and_stream_from_http :: "transfer_env \<Rightarrow> (string \<Rightarrow> fetch_result result) \<Rightarrow> string \<Rightarrow>
    hash32 option \<Rightarrow> server_state \<Rightarrow> unit result \<times> server_state" where
  "fetch_and_stream_from_http env cache store_path expected_blake3 s =
     (case cache store_path of
        Inl e \<Rightarrow> (Inl e, s)
      | Inr r \<Rightarrow>
          let mismatch = (case expected_blake3 of
                None \<Rightarrow> None
              | Some expected \<Rightarrow>
                  if fr_blake3 r \<noteq> expected
                  then Some (''BLAKE3 mismatch from HTTP cache: expected '' @ te_hex env expected @
                             '', got '' @ te_hex env (fr_blake3 r))
                  else None)
          in case mismatch of Some m \<Rightarrow> (throw (Protocol m), s)
          | None \<Rightarrow> let entry = \<lparr>he_blake3 = fr_blake3 r, he_sha256 = fr_sha256 r, he_store_path = fr_store_path r,
                            he_nar_size = fr_nar_size r, he_references = fr_references r, he_deriver = fr_deriver r\<rparr>
               in case lock_or_err (te_poisoned env) () of
                    Inl e \<Rightarrow> (Inl e, s)
                  | Inr _ \<Rightarrow>
                      (case index_insert (te_sql env) entry (sv_index s) of
                         (Inl e, t) \<Rightarrow> (Inl e, s\<lparr>sv_index := t\<rparr>)
                       | (Inr _, t) \<Rightarrow>
                           st_bind (on_send (send_header (te_encode_header env)
                               (nar_response_header_new (fr_nar_size r) (fr_sha256 r) (fr_store_path r)))
                             (s\<lparr>sv_index := t\<rparr>)) (\<lambda>_.
                           on_send (send_parts ''NAR data'' (chunks TRANSFER_BUFFER_SIZE (fr_nar_data r))))))"

definition handle_nar_by_blake3 :: "transfer_env \<Rightarrow> hash32 \<Rightarrow> server_state \<Rightarrow> unit result \<times> server_state" where
  "handle_nar_by_blake3 env blake3 s =
     (case rbind (lock_or_err (te_poisoned env) ()) (\<lambda>_. get_by_blake3 (te_sql env) blake3 (sv_index s)) of
        Inl e \<Rightarrow> (Inl e, s)
      | Inr (Some entry) \<Rightarrow>
          if te_exists env (he_store_path entry)
          then on_send (stream_nar_from_path env (he_store_path entry) (he_nar_size entry) (he_sha256 entry)) s
          else (case te_http_cache env of
                  Some cache \<Rightarrow> fetch_and_stream_from_http env cache (he_store_path entry) (Some blake3) s
                | None \<Rightarrow> on_send (send_error_response ''store path not found on disk'') s)
      | Inr None \<Rightarrow> on_send (send_error_response ''hash not found in index'') s)"

definition handle_nar_by_store_path :: "transfer_env \<Rightarrow> string \<Rightarrow> server_state \<Rightarrow> unit result \<times> server_state" where
  "handle_nar_by_store_path env store_path s =
     (if \<not> is_valid_store_path store_path then on_send (send_error_response ''invalid store path format'') s
      else if te_exists env store_path
      then (case rbind (lock_or_err (te_poisoned env) ()) (\<lambda>_. get_by_store_path (te_sql env) store_path (sv_index s)) of
              Inl e \<Rightarrow> (Inl e, s)
            | Inr (Some entry) \<Rightarrow> on_send (stream_nar_from_path env store_path (he_nar_size entry) (he_sha256 entry)) s
            | Inr None \<Rightarrow>
                (case te_query env store_path of
                   Inl e \<Rightarrow> (Inl e, s)
                 | Inr nix_info \<Rightarrow>
                     (case sha256_bytes (te_unb64 env) nix_info of
                        Inl e \<Rightarrow> (Inl e, s)
                      | Inr sha256 \<Rightarrow>
                          on_send (stream_nar_from_path env store_path (np_nar_size nix_info) sha256) s)))
      else (case te_http_cache env of
              Some cache \<Rightarrow> fetch_and_stream_from_http env cache store_path None s
            | None \<Rightarrow> on_send (send_error_response ''store path not found'') s))"

definition read_nar_request :: "(byte list \<Rightarrow> string + nar_request) \<Rightarrow> reader \<Rightarrow> nar_request result" where
  "read_nar_request decode recv =
     (case read_exact 4 recv of
        Inl (k, e) \<Rightarrow> throw (Protocol (''failed to read request length: '' @ e))
      | Inr (len_buf, recv1) \<Rightarrow>
          (let len = unat (u32_of_le len_buf)
           in if len > 1024 then throw (Protocol ''request too large'')
              else case read_exact len recv1 of
                Inl (k, e) \<Rightarrow> throw (Protocol (''failed to read request: '' @ e))
              | Inr (buf, _) \<Rightarrow>
                  (case decode buf of
                     Inl e \<Rightarrow> throw (Protocol (''invalid request: '' @ e))
                   | Inr request \<Rightarrow> Inr request)))"

text \<open>\<open>accept\<close> is the error of \<open>accept_bi\<close>, or the request stream.\<close>

definition handle_nar_accepted :: "transfer_env \<Rightarrow> string + reader \<Rightarrow> server_state \<Rightarrow> unit result \<times> server_state" where
  "handle_nar_accepted env accept s =
     (case accept of
        Inl e \<Rightarrow> (throw (Protocol (''failed to accept stream: '' @ e)), s)
      | Inr recv \<Rightarrow>
          (case read_nar_request (te_decode_request env) recv of
             Inl e \<Rightarrow> (Inl e, s)
           | Inr request \<Rightarrow>
               (case (case request of
                        ByBlake3 hash \<Rightarrow> handle_nar_by_blake3 env hash s
                      | ByStorePath store_path \<Rightarrow> handle_nar_by_store_path env store_path s) of
                  (res, s') \<Rightarrow> (res, s'\<lparr>sv_send := (sv_send s')\<lparr>ss_finished := True\<rparr>\<rparr>))))"

section \<open>The client\<close>

text \<open>
  The peer seen from the client: the errors of connecting and of opening a stream, where the
  request stream stops accepting, and the response to what the peer received. \<open>pick\<close> is the size
  of the next chunk the network delivers.
\<close>

record remote =
  rm_connect :: "string option"
  rm_open :: "string option"
  rm_request :: send_stream
  rm_respond :: "byte list \<Rightarrow> reader"
  rm_pick :: "nat \<Rightarrow> nat"

text \<open>\<open>RecvStream::read\<close>: a chunk of at most \<open>k\<close> bytes, None at the end of the stream.\<close>

definition recv_chunk :: "(nat \<Rightarrow> nat) \<Rightarrow> nat \<Rightarrow> reader \<Rightarrow> string + (byte list \<times> reader) option" where
  "recv_chunk pick k r =
     (if avail r = [] then (if fst (ending r) = UnexpectedEof then Inr None else Inl (snd (ending r)))
      else let n = min k (max 1 (pick (length (avail r))))
           in Inr (Some (take n (avail r), r\<lparr>avail := drop n (avail r)\<rparr>)))"

lemma recv_chunk_length: "recv_chunk pick k r = Inr (Some (bs, r')) \<Longrightarrow> length bs \<le> k"
  by (auto simp: recv_chunk_def Let_def split: if_splits)

function receive_data :: "(nat \<Rightarrow> nat) \<Rightarrow> nat \<Rightarrow> byte list \<Rightarrow> reader \<Rightarrow> byte list result" where
  "receive_data pick remaining nar_data r =
     (if remaining = 0 then Inr nar_data
      else case recv_chunk pick (min remaining TRANSFER_BUFFER_SIZE) r of
        Inl e \<Rightarrow> throw (Protocol (''failed to read NAR data: '' @ e))
      | Inr None \<Rightarrow> throw (Protocol ''unexpected end of stream'')
      | Inr (Some (bs, r')) \<Rightarrow>
          if bs = [] then throw (Protocol ''unexpected end of stream'')
          else receive_data pick (remaining - length bs) (nar_data @ bs) r')"
  by pat_completeness auto
termination by (relation "measure (\<lambda>(pick, remaining, nar_data, r). remaining)") auto

declare receive_data.simps [simp del]

definition recv_exact :: "string \<Rightarrow> nat \<Rightarrow> reader \<Rightarrow> (byte list \<times> reader) result" where
  "recv_exact what n r = (case read_exact n r of
     Inl (k, e) \<Rightarrow> throw (Protocol (''failed to read '' @ what @ '': '' @ e)) | Inr x \<Rightarrow> Inr x)"

definition receive_verified :: "(byte list \<Rightarrow> string + nar_response_header) \<Rightarrow> (byte list \<Rightarrow> hash32) \<Rightarrow>
    (byte list \<Rightarrow> string) \<Rightarrow> (nat \<Rightarrow> nat) \<Rightarrow> hash32 \<Rightarrow> byte list \<Rightarrow> reader \<Rightarrow>
    (nar_response_header \<times> byte list) result" where
  "receive_verified decode blake3 hex pick expected header_buf r =
     (case decode header_buf of
        Inl e \<Rightarrow> throw (Protocol (''invalid header: '' @ e))
      | Inr header \<Rightarrow>
          if nh_size header > MAX_NAR_SIZE
          then throw (Protocol (''NAR too large: '' @ show_nat (unat (nh_size header)) @ '' bytes''))
          else rbind (receive_data pick (unat (nh_size header)) [] r) (\<lambda>nar_data.
               if blake3 nar_data \<noteq> expected
               then throw (Protocol (''BLAKE3 hash mismatch: expected '' @ hex expected @
                      '', got '' @ hex (blake3 nar_data)))
               else Inr (header, nar_data)))"

definition read_response :: "(byte list \<Rightarrow> string + nar_response_header) \<Rightarrow> (byte list \<Rightarrow> string) \<Rightarrow>
    (byte list \<Rightarrow> hash32) \<Rightarrow> (byte list \<Rightarrow> string) \<Rightarrow> (nat \<Rightarrow> nat) \<Rightarrow> hash32 \<Rightarrow> reader \<Rightarrow>
    (nar_response_header \<times> byte list) result" where
  "read_response decode lossy blake3 hex pick expected r0 =
     rbind (recv_exact ''status'' 1 r0) (\<lambda>(status, r1).
     if status ! 0 = 0
     then rbind (recv_exact ''error length'' 4 r1) (\<lambda>(len_buf, r2).
          rbind (recv_exact ''error'' (min (unat (u32_of_le len_buf)) 1024) r2) (\<lambda>(msg_buf, _).
          throw (Remote (lossy msg_buf))))
     else rbind (recv_exact ''header length'' 4 r1) (\<lambda>(len_buf, r2).
          let header_len = unat (u32_of_le len_buf)
          in if header_len > 64 * 1024 then throw (Protocol ''header too large'')
             else rbind (recv_exact ''header'' header_len r2) (\<lambda>(header_buf, r3).
                  receive_verified decode blake3 hex pick expected header_buf r3)))"

definition fetch_nar_once :: "(nar_request \<Rightarrow> string + byte list) \<Rightarrow> (byte list \<Rightarrow> string + nar_response_header) \<Rightarrow>
    (byte list \<Rightarrow> string) \<Rightarrow> (byte list \<Rightarrow> hash32) \<Rightarrow> (byte list \<Rightarrow> string) \<Rightarrow> remote \<Rightarrow> hash32 \<Rightarrow>
    (nar_response_header \<times> byte list) result" where
  "fetch_nar_once encode decode lossy blake3 hex peer expected =
     (case rm_connect peer of Some e \<Rightarrow> throw (Connection e) | None \<Rightarrow>
     (case rm_open peer of Some e \<Rightarrow> throw (Protocol (''failed to open stream: '' @ e)) | None \<Rightarrow>
     (case encode (nar_request_new expected) of
        Inl e \<Rightarrow> throw (Protocol (''failed to serialize request: '' @ e))
      | Inr request_bytes \<Rightarrow>
          (case st_bind (send_part ''request length'' (u32_le (of_nat (length request_bytes))) (rm_request peer))
                        (\<lambda>_. send_part ''request'' request_bytes) of
             (Inl e, _) \<Rightarrow> Inl e
           | (Inr _, s) \<Rightarrow>
               read_response decode lossy blake3 hex (rm_pick peer) expected (rm_respond peer (ss_sent s))))))"

text \<open>\<open>peers\<close> is how the remote node answers the successive connections.\<close>

definition fetch_nar_with_config :: "(nar_request \<Rightarrow> string + byte list) \<Rightarrow>
    (byte list \<Rightarrow> string + nar_response_header) \<Rightarrow> (byte list \<Rightarrow> string) \<Rightarrow> (byte list \<Rightarrow> hash32) \<Rightarrow>
    (byte list \<Rightarrow> string) \<Rightarrow> (nat \<Rightarrow> remote) \<Rightarrow> hash32 \<Rightarrow> retry_config \<Rightarrow> (nat \<Rightarrow> real) \<Rightarrow> nat \<Rightarrow>
    (nar_response_header \<times> byte list) result \<times> nat" where
  "fetch_nar_with_config encode decode lossy blake3 hex peers expected cfg rnd n =
     with_retry cfg rnd
       (\<lambda>k. (fetch_nar_once encode decode lossy blake3 hex (peers k) expected, k + 1)) n"

definition transfer_fetch_nar :: "(nar_request \<Rightarrow> string + byte list) \<Rightarrow>
    (byte list \<Rightarrow> string + nar_response_header) \<Rightarrow> (byte list \<Rightarrow> string) \<Rightarrow> (byte list \<Rightarrow> hash32) \<Rightarrow>
    (byte list \<Rightarrow> string) \<Rightarrow> (nat \<Rightarrow> remote) \<Rightarrow> hash32 \<Rightarrow> (nat \<Rightarrow> real) \<Rightarrow> nat \<Rightarrow>
    (nar_response_header \<times> byte list) result \<times> nat" where
  "transfer_fetch_nar encode decode lossy blake3 hex peers expected rnd n =
     fetch_nar_with_config encode decode lossy blake3 hex peers expected default_config rnd n"

section \<open>Lemmas\<close>

lemma concat_chunks: "0 < n \<Longrightarrow> concat (chunks n xs) = xs"
  by (induction n xs rule: chunks.induct) (subst chunks.simps, simp)

lemma send_part_open [simp]:
  "ss_limit s = None \<Longrightarrow> send_part what bs s = (Inr (), s\<lparr>ss_sent := ss_sent s @ bs\<rparr>)"
  by (simp add: send_part_def stream_write_def)

lemma send_parts_open [simp]:
  "ss_limit s = None \<Longrightarrow> send_parts what cs s = (Inr (), s\<lparr>ss_sent := ss_sent s @ concat cs\<rparr>)"
  by (induction cs arbitrary: s) (simp_all add: st_bind_def)


lemma send_header_open:
  "ss_limit s = None \<Longrightarrow> encode header = Inr hb \<Longrightarrow> send_header encode header s =
     (Inr (), s\<lparr>ss_sent := ss_sent s @ [1] @ u32_le (of_nat (length hb)) @ hb\<rparr>)"
  by (simp add: send_header_def)

lemma send_error_open:
  "ss_limit s = None \<Longrightarrow> send_error_response m s =
     (Inr (), s\<lparr>ss_sent := ss_sent s @ [0] @ u32_le (of_nat (length m)) @ as_bytes m\<rparr>)"
  by (simp add: send_error_response_def)

lemma stream_nar_open:
  assumes "ss_limit s = None"
    and "te_encode_header env (nar_response_header_new sz sha path) = Inr hb"
    and "serialize_path (te_sha256 env) (te_blake3 env) path (te_node env path) = Inr (nar, info)"
  shows "stream_nar_from_path env path sz sha s =
    (Inr (), s\<lparr>ss_sent := ss_sent s @ [1] @ u32_le (of_nat (length hb)) @ hb @ nar\<rparr>)"
  using assms by (simp add: stream_nar_from_path_def send_header_open join_task_def concat_chunks
      TRANSFER_BUFFER_SIZE_def)

text \<open>However the network cuts the stream, the client collects exactly the announced bytes.\<close>

lemma recv_chunk_some:
  assumes "avail r \<noteq> []" "0 < k"
  shows "\<exists>bs r'. recv_chunk pick k r = Inr (Some (bs, r')) \<and> bs \<noteq> [] \<and> length bs \<le> k \<and> avail r = bs @ avail r'"
proof -
  let ?n = "min k (max 1 (pick (length (avail r))))"
  have "take ?n (avail r) \<noteq> []" using assms by (cases "avail r") auto
  with assms show ?thesis by (simp add: recv_chunk_def Let_def)
qed

lemma receive_data_enough:
  "remaining \<le> length (avail r) \<Longrightarrow> receive_data pick remaining acc r = Inr (acc @ take remaining (avail r))"
proof (induction remaining arbitrary: acc r rule: less_induct)
  case (less remaining)
  show ?case
  proof (cases "remaining = 0")
    case True
    then show ?thesis by (simp add: receive_data.simps)
  next
    case False
    with less.prems have ne: "avail r \<noteq> []" by auto
    have "0 < min remaining TRANSFER_BUFFER_SIZE" using False by (simp add: TRANSFER_BUFFER_SIZE_def)
    from recv_chunk_some [OF ne this, of pick] obtain bs r' where
      c: "recv_chunk pick (min remaining TRANSFER_BUFFER_SIZE) r = Inr (Some (bs, r'))" "bs \<noteq> []"
        "length bs \<le> remaining" "avail r = bs @ avail r'" by auto
    then have "receive_data pick (remaining - length bs) (acc @ bs) r' =
        Inr ((acc @ bs) @ take (remaining - length bs) (avail r'))"
      using False less.prems by (intro less.IH) (auto simp: diff_less)
    with c False show ?thesis by (subst receive_data.simps) simp
  qed
qed

lemma receive_data_length:
  "receive_data pick remaining acc r = Inr data \<Longrightarrow> length data = length acc + remaining"
proof (induction pick remaining acc r rule: receive_data.induct)
  case (1 pick remaining acc r)
  show ?case
  proof (cases "remaining = 0")
    case False
    with 1(2) obtain bs r' where
      c: "recv_chunk pick (min remaining TRANSFER_BUFFER_SIZE) r = Inr (Some (bs, r'))" "bs \<noteq> []"
      and rest: "receive_data pick (remaining - length bs) (acc @ bs) r' = Inr data"
      by (subst (asm) receive_data.simps) (auto split: sum.splits option.splits if_splits)
    have "length data = length (acc @ bs) + (remaining - length bs)"
      using 1(1) [OF False c(1) refl refl c(2) rest] by simp
    with recv_chunk_length [OF c(1)] show ?thesis by simp
  qed (use 1(2) in \<open>simp add: receive_data.simps\<close>)
qed

lemma recv_exact_feed [codec_simps]:
  "length bs = n \<Longrightarrow> recv_exact what n (feed bs r) = Inr (bs, r)"
  by (simp add: recv_exact_def codec_simps)

lemma read_response_ok:
  assumes "read_response decode lossy blake3 hex pick expected r = Inr (header, data)"
  shows "blake3 data = expected \<and> length data = unat (nh_size header) \<and> nh_size header \<le> MAX_NAR_SIZE"
proof -
  from assms obtain header_buf r' where
    v: "receive_verified decode blake3 hex pick expected header_buf r' = Inr (header, data)"
    by (auto simp: read_response_def Let_def split: if_splits)
  then obtain h where d: "decode header_buf = Inr h"
    by (cases "decode header_buf") (auto simp: receive_verified_def)
  with v show ?thesis
    by (auto simp: receive_verified_def linorder_not_less dest: receive_data_length split: if_splits)
qed

lemma read_response_success:
  assumes "decode hb = Inr header" "length hb \<le> 64 * 1024" "nh_size header \<le> MAX_NAR_SIZE"
    and "unat (nh_size header) = length nar" "blake3 nar = expected"
  shows "read_response decode lossy blake3 hex pick expected
     (cursor ([1] @ u32_le (of_nat (length hb)) @ hb @ nar)) = Inr (header, nar)"
proof -
  have hl: "unat (u32_of_le (u32_le (of_nat (length hb)))) = length hb"
    using assms(2) by (simp add: unat_of_nat_u32)
  have c: "cursor ([1] @ u32_le (of_nat (length hb)) @ hb @ nar) =
      feed [1] (feed (u32_le (of_nat (length hb))) (feed hb (cursor nar)))"
    by (simp only: cursor_feed)
  have d: "receive_data pick (unat (nh_size header)) [] (cursor nar) = Inr nar"
    using assms(4) by (simp add: receive_data_enough)
  show ?thesis
    unfolding c read_response_def receive_verified_def
    using assms hl d by (simp add: codec_simps Let_def linorder_not_less)
qed

lemma read_response_error:
  assumes "length m \<le> 1024"
  shows "read_response decode lossy blake3 hex pick expected
     (cursor ([0] @ u32_le (of_nat (length m)) @ as_bytes m)) = throw (Remote (lossy (as_bytes m)))"
proof -
  have hl: "unat (u32_of_le (u32_le (of_nat (length m)))) = length m"
    using assms by (simp add: unat_of_nat_u32)
  have c: "cursor ([0] @ u32_le (of_nat (length m)) @ as_bytes m) =
      feed [0] (feed (u32_le (of_nat (length m))) (feed (as_bytes m) (cursor [])))"
    by (simp add: feed_cursor)
  show ?thesis unfolding c read_response_def using assms hl by (simp add: codec_simps min_def)
qed

text \<open>The remote node whose connections this server answers, over a network that does not fail.\<close>

definition serve_remote :: "transfer_env \<Rightarrow> index_table \<Rightarrow> (nat \<Rightarrow> nat) \<Rightarrow> remote" where
  "serve_remote env t pick = \<lparr>rm_connect = None, rm_open = None, rm_request = open_stream,
     rm_respond = (\<lambda>sent. cursor (ss_sent (sv_send (snd
       (handle_nar_accepted env (Inr (cursor sent)) \<lparr>sv_send = open_stream, sv_index = t\<rparr>))))),
     rm_pick = pick\<rparr>"

lemma read_nar_request_ok:
  assumes "decode rq = Inr request" "length rq \<le> 1024"
  shows "read_nar_request decode (cursor (u32_le (of_nat (length rq)) @ rq)) = Inr request"
proof -
  have len: "unat (u32_of_le (u32_le (of_nat (length rq)))) = length rq"
    using assms(2) by (simp add: unat_of_nat_u32)
  have c: "cursor (u32_le (of_nat (length rq)) @ rq) = feed (u32_le (of_nat (length rq))) (feed rq (cursor []))"
    by (simp add: feed_cursor)
  show ?thesis unfolding c read_nar_request_def using assms len by (simp add: codec_simps)
qed

text \<open>What the server sends for a request for a hash.\<close>

lemma serve_by_blake3:
  assumes "te_decode_request env rq = Inr (ByBlake3 h)" "length rq \<le> 1024"
    and "handle_nar_by_blake3 env h \<lparr>sv_send = open_stream, sv_index = t\<rparr> = (res, s')"
  shows "rm_respond (serve_remote env t pick) (u32_le (of_nat (length rq)) @ rq) = cursor (ss_sent (sv_send s'))"
  using assms by (simp add: serve_remote_def handle_nar_accepted_def read_nar_request_ok)

lemma fetch_from_server:
  assumes "encode (ByBlake3 h) = Inr rq"
  shows "fetch_nar_once encode decode lossy blake3 hex (serve_remote env t pick) h =
    read_response decode lossy blake3 hex pick h
      (rm_respond (serve_remote env t pick) (u32_le (of_nat (length rq)) @ rq))"
  using assms
  by (simp add: fetch_nar_once_def serve_remote_def nar_request_new_def open_stream_def)

text \<open>The success and the failure of a fetch from such a server.\<close>

lemma fetch_served:
  assumes "encode (ByBlake3 h) = Inr rq" "te_decode_request env rq = Inr (ByBlake3 h)" "length rq \<le> 1024"
    and "te_poisoned env = False" "get_by_blake3 (te_sql env) h t = Inr (Some e)" "te_exists env (he_store_path e)"
    and "serialize_path (te_sha256 env) (te_blake3 env) (he_store_path e) (te_node env (he_store_path e)) = Inr (nar, info)"
    and "header = nar_response_header_new (he_nar_size e) (he_sha256 e) (he_store_path e)"
    and "te_encode_header env header = Inr hb" "decode hb = Inr header" "length hb \<le> 64 * 1024"
    and "unat (he_nar_size e) = length nar" "he_nar_size e \<le> MAX_NAR_SIZE" "blake3 nar = h"
  shows "fetch_nar_once encode decode lossy blake3 hex (serve_remote env t pick) h = Inr (header, nar)"
proof -
  let ?s = "\<lparr>sv_send = open_stream, sv_index = t\<rparr>"
  have "handle_nar_by_blake3 env h ?s =
      (Inr (), ?s\<lparr>sv_send := open_stream\<lparr>ss_sent := [1] @ u32_le (of_nat (length hb)) @ hb @ nar\<rparr>\<rparr>)"
    using assms(4-9) stream_nar_open [OF _ assms(9) [unfolded assms(8)] assms(7), of open_stream]
    by (simp add: handle_nar_by_blake3_def on_send_def open_stream_def)
  from serve_by_blake3 [OF assms(2,3) this, of pick] fetch_from_server [of encode h rq decode lossy blake3 hex env t pick, OF assms(1)]
  show ?thesis
    using read_response_success [of decode hb header nar blake3 h lossy hex pick] assms(8-14)
    by (simp add: nar_response_header_new_def)
qed

lemma fetch_unknown:
  assumes "encode (ByBlake3 h) = Inr rq" "te_decode_request env rq = Inr (ByBlake3 h)" "length rq \<le> 1024"
    and "te_poisoned env = False" "get_by_blake3 (te_sql env) h t = Inr None"
  shows "fetch_nar_once encode decode lossy blake3 hex (serve_remote env t pick) h =
    throw (Remote (lossy (as_bytes ''hash not found in index'')))"
proof -
  let ?s = "\<lparr>sv_send = open_stream, sv_index = t\<rparr>" and ?m = "''hash not found in index''"
  have "handle_nar_by_blake3 env h ?s =
      (Inr (), ?s\<lparr>sv_send := open_stream\<lparr>ss_sent := [0] @ u32_le (of_nat (length ?m)) @ as_bytes ?m\<rparr>\<rparr>)"
    using assms(4,5) by (simp add: handle_nar_by_blake3_def on_send_def open_stream_def send_error_open)
  from serve_by_blake3 [OF assms(2,3) this, of pick] fetch_from_server [of encode h rq decode lossy blake3 hex env t pick, OF assms(1)]
  show ?thesis using read_response_error [of ?m decode lossy blake3 hex pick h] by simp
qed

lemma with_retry_result: "with_retry cfg rnd oper s = (res, s') \<Longrightarrow>
    \<exists>n. res = result_at oper n s \<and> s' = state_at oper (n + 1) s \<and>
        (n = max_retries cfg \<or> \<not> retryable_result res) \<and> (\<forall>i < n. retryable_result (result_at oper i s))"
proof -
  assume "with_retry cfg rnd oper s = (res, s')"
  then obtain stats cbs where "with_retry_stats cfg rnd oper s = (res, stats, cbs, s')"
    by (auto simp: with_retry_def split: prod.splits)
  from retry_stats_spec [OF this] show ?thesis by blast
qed

lemma with_retry_constant:
  assumes "\<And>s. fst (oper s) = r" "\<not> retryable_result r"
  shows "with_retry cfg rnd oper s = (r, snd (oper s))"
proof -
  obtain res s' where w: "with_retry cfg rnd oper s = (res, s')" by fastforce
  from with_retry_result [OF w] obtain n where n: "res = result_at oper n s" "s' = state_at oper (n + 1) s"
    "\<forall>i < n. retryable_result (result_at oper i s)" by blast
  have r: "result_at oper i s = r" for i by (simp add: result_at_def assms(1))
  with n(3) assms(2) have "n = 0" by (cases n) auto
  with n r w show ?thesis by simp
qed

section \<open>A concrete node\<close>

text \<open>Codecs that carry the messages, and a node with one indexed file.\<close>

fun plain_request :: "nar_request \<Rightarrow> string + byte list" where
  "plain_request (ByBlake3 h) = Inr (0 # h)"
| "plain_request (ByStorePath p) = Inr (1 # as_bytes p)"

fun plain_request_back :: "byte list \<Rightarrow> string + nar_request" where
  "plain_request_back [] = Inl ''empty''"
| "plain_request_back (b # bs) = (if b = 0 then Inr (ByBlake3 bs) else Inr (ByStorePath (of_bytes bs)))"

definition plain_header :: "nar_response_header \<Rightarrow> string + byte list" where
  "plain_header h = Inr (u64_le (nh_size h) @ nh_sha256 h @ as_bytes (nh_store_path h))"

definition plain_header_back :: "byte list \<Rightarrow> string + nar_response_header" where
  "plain_header_back bs = Inr \<lparr>nh_size = u64_of_le (take 8 bs), nh_sha256 = take 32 (drop 8 bs),
     nh_store_path = of_bytes (drop 40 bs)\<rparr>"

lemma plain_header_roundtrip:
  "length (nh_sha256 h) = 32 \<Longrightarrow> plain_header h = Inr bs \<Longrightarrow> plain_header_back bs = Inr h"
  by (auto simp: plain_header_def plain_header_back_def)

definition toy_hash :: "byte list \<Rightarrow> hash32" where
  "toy_hash bs = replicate 32 (of_nat (length bs))"

definition sample_nar :: "byte list" where
  "sample_nar = nar_bytes (Reg False [104, 101, 108, 108, 111])"

definition sample_held :: hash_entry where
  "sample_held = \<lparr>he_blake3 = toy_hash sample_nar, he_sha256 = replicate 32 7, he_store_path = ''/nix/store/x'',
     he_nar_size = of_nat (length sample_nar), he_references = [], he_deriver = None\<rparr>"

definition sample_env :: transfer_env where
  "sample_env = \<lparr>te_exists = (\<lambda>_. True), te_node = (\<lambda>_. FileNode 0x1A4 5 (Inr [Inr [104, 101], Inr [108, 108, 111]])),
     te_sha256 = toy_hash, te_blake3 = toy_hash, te_hex = (\<lambda>_. []), te_unb64 = (\<lambda>_. Inl []),
     te_query = (\<lambda>p. throw (StorePathNotFound p)), te_http_cache = None, te_poisoned = False, te_sql = None,
     te_encode_header = plain_header, te_decode_request = plain_request_back\<rparr>"

lemma length_sample_nar: "length sample_nar = 120"
  by (simp add: sample_nar_def nar_bytes_def str_enc_def zero_bytes_def NAR_MAGIC_def)

lemma sample_held_found:
  "get_by_blake3 None (toy_hash sample_nar) (snd (index_insert None sample_held [])) = Inr (Some sample_held)"
proof -
  have "plain_entry sample_held" "sized_entry sample_held"
    by (simp_all add: plain_entry_def sample_held_def sized_entry_def toy_hash_def)
  then show ?thesis
    by (simp add: get_by_blake3_def with_sql_def index_insert_def insert_row_def optional_tuple_to_entry_def
        stored_plain, simp add: row_of_entry_def sample_held_def)
qed

lemma sample_serializes:
  "\<exists>info. serialize_path toy_hash toy_hash ''/nix/store/x'' (te_node sample_env ''/nix/store/x'') = Inr (sample_nar, info)"
  unfolding serialize_path_iff sample_nar_def sample_env_def by (simp add: file_contents_def)

abbreviation sample_fetch_held where
  "sample_fetch_held \<equiv> transfer_fetch_nar plain_request plain_header_back of_bytes toy_hash (\<lambda>_. [])
     (\<lambda>_. serve_remote sample_env (snd (index_insert None sample_held [])) (\<lambda>n. n div 2)) (toy_hash sample_nar) (\<lambda>_. 0) 0"

abbreviation sample_header where
  "sample_header \<equiv> nar_response_header_new (he_nar_size sample_held) (he_sha256 sample_held) (he_store_path sample_held)"

lemma sample_facts:
  "plain_request (ByBlake3 (toy_hash sample_nar)) = Inr (0 # toy_hash sample_nar)"
  "te_decode_request sample_env (0 # toy_hash sample_nar) = Inr (ByBlake3 (toy_hash sample_nar))"
  "length (0 # toy_hash sample_nar) \<le> 1024" "te_poisoned sample_env = False"
  "get_by_blake3 (te_sql sample_env) (toy_hash sample_nar) (snd (index_insert None sample_held [])) = Inr (Some sample_held)"
  "get_by_blake3 (te_sql sample_env) (toy_hash sample_nar) [] = Inr None"
  "te_exists sample_env (he_store_path sample_held)"
  "te_encode_header sample_env sample_header = Inr (projr (plain_header sample_header))"
  "plain_header_back (projr (plain_header sample_header)) = Inr sample_header"
  "length (projr (plain_header sample_header)) \<le> 64 * 1024"
  "unat (he_nar_size sample_held) = length sample_nar" "he_nar_size sample_held \<le> MAX_NAR_SIZE"
  "\<exists>info. serialize_path (te_sha256 sample_env) (te_blake3 sample_env) (he_store_path sample_held)
     (te_node sample_env (he_store_path sample_held)) = Inr (sample_nar, info)"
  using sample_held_found sample_serializes
  by (simp_all add: sample_env_def toy_hash_def plain_header_def plain_header_back_def sample_held_def
      nar_response_header_new_def length_sample_nar MAX_NAR_SIZE_def get_by_blake3_def with_sql_def
      optional_tuple_to_entry_def)

lemma sample_fetch_once:
  "fetch_nar_once plain_request plain_header_back of_bytes toy_hash (\<lambda>_. [])
     (serve_remote sample_env (snd (index_insert None sample_held [])) (\<lambda>n. n div 2)) (toy_hash sample_nar) =
   Inr (sample_header, sample_nar)"
proof -
  obtain info where "serialize_path (te_sha256 sample_env) (te_blake3 sample_env) (he_store_path sample_held)
     (te_node sample_env (he_store_path sample_held)) = Inr (sample_nar, info)"
    using sample_facts(13) by blast
  from fetch_served [of plain_request "toy_hash sample_nar" "0 # toy_hash sample_nar" sample_env
      "snd (index_insert None sample_held [])" sample_held sample_nar info sample_header
      "projr (plain_header sample_header)" plain_header_back toy_hash,
      OF sample_facts(1-5,7) this refl sample_facts(8-12) refl]
  show ?thesis .
qed

lemma sample_fetch_any:
  "fetch_nar_with_config plain_request plain_header_back of_bytes toy_hash (\<lambda>_. [])
     (\<lambda>_. serve_remote sample_env (snd (index_insert None sample_held [])) (\<lambda>n. n div 2)) (toy_hash sample_nar) cfg rnd 0 =
   (Inr (sample_header, sample_nar), 1)"
  unfolding fetch_nar_with_config_def
  by (subst with_retry_constant [where r = "Inr (sample_header, sample_nar)"])
     (simp_all add: sample_fetch_once retryable_result_def)

lemma sample_fetch_result: "sample_fetch_held = (Inr (sample_header, sample_nar), 1)"
  unfolding transfer_fetch_nar_def by (rule sample_fetch_any)

section \<open>Properties of the transfer\<close>

text \<open>
  C9: whatever the peers send and however the network cuts or breaks the streams, a fetch that
  succeeds, after any number of retries, returns data with the requested BLAKE3 hash, of the size
  the header announces, which is at most 10 GiB.
\<close>

theorem fetch_authentic:
  assumes "fetch_nar_with_config encode decode lossy blake3 hex peers expected cfg rnd n = (Inr (header, data), n')"
  shows "blake3 data = expected \<and> length data = unat (nh_size header) \<and> length data \<le> 10 * 2 ^ 30"
proof -
  from with_retry_result [OF assms [unfolded fetch_nar_with_config_def]] obtain k where
    "fetch_nar_once encode decode lossy blake3 hex (peers k) expected = Inr (header, data)"
    by (auto simp: result_at_def)
  then have "\<exists>r. read_response decode lossy blake3 hex (rm_pick (peers k)) expected r = Inr (header, data)"
    by (auto simp: fetch_nar_once_def split: option.splits sum.splits prod.splits)
  then show ?thesis
    using read_response_ok [of decode lossy blake3 hex "rm_pick (peers k)" expected]
    by (auto simp: MAX_NAR_SIZE_def word_le_nat_alt)
qed

theorem fetch_authentic_witness:
  "\<exists>header data n. sample_fetch_held = (Inr (header, data), n) \<and>
     toy_hash data = toy_hash sample_nar \<and> length data = unat (nh_size header) \<and> length data \<le> 10 * 2 ^ 30"
  using sample_fetch_result fetch_authentic [OF sample_fetch_result [unfolded transfer_fetch_nar_def]] by blast

text \<open>
  C28: a client that asks a node for a hash the node has indexed receives, in one connection, the
  header of the index entry and the NAR of the entry's store path, if that NAR still has the
  indexed size and hash; the message codecs only have to carry the two messages.
\<close>

theorem fetch_from_holder:
  assumes "encode (ByBlake3 h) = Inr rq" "te_decode_request env rq = Inr (ByBlake3 h)" "length rq \<le> 1024"
    and "te_poisoned env = False" "get_by_blake3 (te_sql env) h t = Inr (Some e)" "te_exists env (he_store_path e)"
    and "serialize_path (te_sha256 env) (te_blake3 env) (he_store_path e) (te_node env (he_store_path e)) = Inr (nar, info)"
    and "header = nar_response_header_new (he_nar_size e) (he_sha256 e) (he_store_path e)"
    and "te_encode_header env header = Inr hb" "decode hb = Inr header" "length hb \<le> 64 * 1024"
    and "unat (he_nar_size e) = length nar" "he_nar_size e \<le> MAX_NAR_SIZE" "blake3 nar = h"
  shows "transfer_fetch_nar encode decode lossy blake3 hex (\<lambda>_. serve_remote env t pick) h rnd k =
    (Inr (header, nar), k + 1)"
proof -
  let ?op = "\<lambda>k :: nat. (fetch_nar_once encode decode lossy blake3 hex (serve_remote env t pick) h, k + 1)"
  have "fst (?op k) = Inr (header, nar)" for k
    using fetch_served [of encode h rq env t e nar info header hb decode blake3 lossy hex pick, OF assms] by simp
  from with_retry_constant [of ?op, OF this] show ?thesis
    by (simp add: transfer_fetch_nar_def fetch_nar_with_config_def retryable_result_def)
qed

theorem fetch_from_holder_witness: "sample_fetch_held = (Inr (sample_header, sample_nar), 1)"
proof -
  obtain info where "serialize_path (te_sha256 sample_env) (te_blake3 sample_env) (he_store_path sample_held)
     (te_node sample_env (he_store_path sample_held)) = Inr (sample_nar, info)"
    using sample_facts(13) by blast
  from fetch_from_holder [of plain_request "toy_hash sample_nar" "0 # toy_hash sample_nar" sample_env
      "snd (index_insert None sample_held [])" sample_held sample_nar info sample_header
      "projr (plain_header sample_header)" plain_header_back toy_hash of_bytes "\<lambda>_. []" "\<lambda>n. n div 2" "\<lambda>_. 0" 0,
      OF sample_facts(1-5,7) this refl sample_facts(8-12) refl]
  show ?thesis by simp
qed

text \<open>
  A node that has not indexed the hash answers so, the client reports that answer as a remote
  error, and does not ask again.
\<close>

theorem unknown_hash_asked_once:
  assumes "encode (ByBlake3 h) = Inr rq" "te_decode_request env rq = Inr (ByBlake3 h)" "length rq \<le> 1024"
    and "te_poisoned env = False" "get_by_blake3 (te_sql env) h t = Inr None"
    and "lossy (as_bytes ''hash not found in index'') = ''hash not found in index''"
  shows "transfer_fetch_nar encode decode lossy blake3 hex (\<lambda>_. serve_remote env t pick) h rnd k =
    (throw (Remote ''hash not found in index''), k + 1)"
proof -
  let ?op = "\<lambda>k :: nat. (fetch_nar_once encode decode lossy blake3 hex (serve_remote env t pick) h, k + 1)"
  have "fst (?op k) = throw (Remote ''hash not found in index'')" for k
    using fetch_unknown [of encode h rq env t decode lossy blake3 hex pick, OF assms(1-5)] assms(6) by simp
  moreover have "contains ''hash not found in index'' ''not found''" by code_simp
  ultimately show ?thesis
    using with_retry_constant [of ?op]
    by (simp add: transfer_fetch_nar_def fetch_nar_with_config_def retryable_result_def)
qed

theorem unknown_hash_asked_once_witness:
  "transfer_fetch_nar plain_request plain_header_back of_bytes toy_hash (\<lambda>_. [])
     (\<lambda>_. serve_remote sample_env [] (\<lambda>n. n)) (toy_hash sample_nar) (\<lambda>_. 0) 0 =
   (throw (Remote ''hash not found in index''), 1)"
  using unknown_hash_asked_once [of plain_request "toy_hash sample_nar" "0 # toy_hash sample_nar" sample_env "[]"
      of_bytes plain_header_back toy_hash "\<lambda>_. []" "\<lambda>n. n" "\<lambda>_. 0" 0, OF sample_facts(1-4,6)] by simp

end
