(* ===== verification/Node.thy ===== *)
theory Node
  imports Gossip Build_Queue Nar_Transfer
begin

text \<open>
  The node of \<open>node.rs\<close>: its configuration and start, the operations on its index, gossip service
  and build queue, the routing of accepted connections and the fetching from other nodes. What
  the network, the file system, Nix and the codecs answer are fields of an environment; the
  gossip bytes a node sends are collected in \<open>nd_sent\<close>.
\<close>

section \<open>Configuration\<close>

datatype relay_mode = RelayDisabled | RelayDefault | RelayStaging | RelayCustom string

record 'k node_config =
  nc_data_dir :: string
  nc_secret_key :: "'k option"
  nc_relay_mode :: relay_mode
  nc_bind_addr :: "string option"
  nc_network_id :: "string option"
  nc_bootstrap_peers :: "endpoint_id list"
  nc_substituters :: "string list"

definition DEFAULT_SUBSTITUTER :: string where
  "DEFAULT_SUBSTITUTER = ''https://cache.nixos.org''"

definition node_config_default :: "'k node_config" where
  "node_config_default = \<lparr>nc_data_dir = ''.iroh-nix'', nc_secret_key = None, nc_relay_mode = RelayDefault,
     nc_bind_addr = None, nc_network_id = None, nc_bootstrap_peers = [], nc_substituters = [DEFAULT_SUBSTITUTER]\<rparr>"

definition node_config_new :: "string \<Rightarrow> 'k node_config" where
  "node_config_new data_dir = node_config_default\<lparr>nc_data_dir := data_dir\<rparr>"

definition with_secret_key :: "'k \<Rightarrow> 'k node_config \<Rightarrow> 'k node_config" where
  "with_secret_key key c = c\<lparr>nc_secret_key := Some key\<rparr>"

definition with_relay_mode :: "relay_mode \<Rightarrow> 'k node_config \<Rightarrow> 'k node_config" where
  "with_relay_mode mode c = c\<lparr>nc_relay_mode := mode\<rparr>"

definition with_network_id :: "string \<Rightarrow> 'k node_config \<Rightarrow> 'k node_config" where
  "with_network_id network c = c\<lparr>nc_network_id := Some network\<rparr>"

definition with_bootstrap_peers :: "endpoint_id list \<Rightarrow> 'k node_config \<Rightarrow> 'k node_config" where
  "with_bootstrap_peers peers c = c\<lparr>nc_bootstrap_peers := peers\<rparr>"

definition with_substituters :: "string list \<Rightarrow> 'k node_config \<Rightarrow> 'k node_config" where
  "with_substituters urls c = c\<lparr>nc_substituters := urls\<rparr>"

text \<open>
  The key file: absent, unreadable, or its bytes; the generated key and the error of writing it.
  The second component is the file afterwards.
\<close>

definition load_or_generate_key :: "(io_error + byte list) option \<Rightarrow> byte list \<Rightarrow> io_error option \<Rightarrow>
    byte list result \<times> (io_error + byte list) option" where
  "load_or_generate_key key_file generated write_error =
     (case key_file of
        Some (Inl (kind, e)) \<Rightarrow> (throw (Io kind e), key_file)
      | Some (Inr bytes) \<Rightarrow>
          (if length bytes = 32 then Inr bytes else throw (Protocol ''invalid secret key length''), key_file)
      | None \<Rightarrow>
          (case write_error of
             Some (kind, e) \<Rightarrow> (throw (Io kind e), None)
           | None \<Rightarrow> (Inr generated, Some (Inr generated))))"

text \<open>A key that was generated is the key of every later start.\<close>

lemma key_persists:
  assumes "length generated = 32" "load_or_generate_key None generated we = (Inr key, key_file)"
  shows "load_or_generate_key key_file generated' we' = (Inr key, key_file)"
  using assms by (auto simp: load_or_generate_key_def split: option.splits prod.splits)

text \<open>The HTTP caches: URLs that do not parse are skipped.\<close>

definition spawn_caches :: "(string \<Rightarrow> string + 'u) \<Rightarrow> (string option) \<Rightarrow> string list \<Rightarrow> 'u cache_config list option result" where
  "spawn_caches parse_url client_error substituters =
     (let configs = List.map_filter (\<lambda>url. case cache_config_new parse_url url of Inr c \<Rightarrow> Some c | Inl _ \<Rightarrow> None) substituters
      in if configs = [] then Inr None
         else case client_error of
           Some e \<Rightarrow> throw (HttpCache (''failed to create HTTP client: '' @ e))
         | None \<Rightarrow> Inr (Some (http_client_new configs)))"

section \<open>The node\<close>

record 'u node =
  nd_id :: endpoint_id
  nd_index :: index_table
  nd_gossip :: "gossip_service option"
  nd_queue :: "build_queue option"
  nd_http_cache :: "'u cache_config list option"
  nd_sent :: "byte list list"

text \<open>
  The start. The arguments are what creating the data directory, binding the endpoint, opening
  the index and subscribing to a gossip topic give.
\<close>

definition spawn :: "(byte list \<Rightarrow> hash32) \<Rightarrow> ('k \<Rightarrow> endpoint_id) \<Rightarrow> (byte list \<Rightarrow> 'k) \<Rightarrow> 'k node_config \<Rightarrow> io_error option \<Rightarrow> byte list result \<Rightarrow>
    string option \<Rightarrow> index_table result \<Rightarrow> (hash32 \<Rightarrow> endpoint_id list \<Rightarrow> string option) \<Rightarrow> (string \<Rightarrow> string + 'u) \<Rightarrow> string option \<Rightarrow>
    'u node result" where
  "spawn blake3 public from_key config mkdir_error key_loaded bind_error index subscribe parse_url client_error =
     rbind (case mkdir_error of Some (kind, e) \<Rightarrow> throw (Io kind e) | None \<Rightarrow> Inr ()) (\<lambda>_.
     rbind (case nc_secret_key config of
              Some key \<Rightarrow> Inr key | None \<Rightarrow> rbind key_loaded (\<lambda>bytes. Inr (from_key bytes))) (\<lambda>secret_key.
     rbind (case bind_error of Some e \<Rightarrow> throw (Iroh e) | None \<Rightarrow> Inr ()) (\<lambda>_.
     rbind index (\<lambda>hash_index.
     let build_queue = (case nc_network_id config of None \<Rightarrow> None | Some _ \<Rightarrow> Some (new_queue (public secret_key)))
     in rbind (case nc_network_id config of
         None \<Rightarrow> Inr None
       | Some network_id \<Rightarrow>
           rbind (gossip_join blake3 subscribe (public secret_key) network_id (nc_bootstrap_peers config)) (\<lambda>g. Inr (Some g))) (\<lambda>gossip_service.
     rbind (if nc_substituters config \<noteq> [] then spawn_caches parse_url client_error (nc_substituters config) else Inr None)
       (\<lambda>http_cache.
     Inr \<lparr>nd_id = public secret_key, nd_index = hash_index, nd_gossip = gossip_service, nd_queue = build_queue,
          nd_http_cache = http_cache, nd_sent = []\<rparr>))))))"

record node_env =
  ne_exists :: "string \<Rightarrow> bool"
  ne_node :: "string \<Rightarrow> fs_node"
  ne_query :: "string \<Rightarrow> nix_path_info result"
  ne_unb64 :: "string \<Rightarrow> string + byte list"
  ne_sha256 :: "byte list \<Rightarrow> hash32"
  ne_blake3 :: "byte list \<Rightarrow> hash32"
  ne_hex :: "byte list \<Rightarrow> string"
  ne_lossy :: "byte list \<Rightarrow> string"
  ne_poisoned :: bool
  ne_sql :: "string option"
  ne_http :: "(string \<Rightarrow> fetch_result result) option"
  ne_encode_request :: "nar_request \<Rightarrow> string + byte list"
  ne_decode_request :: "byte list \<Rightarrow> string + nar_request"
  ne_encode_header :: "nar_response_header \<Rightarrow> string + byte list"
  ne_decode_header :: "byte list \<Rightarrow> string + nar_response_header"
  ne_encode_gossip :: "gossip_message \<Rightarrow> string + byte list"
  ne_broadcast :: "byte list \<Rightarrow> string option"
  ne_rnd :: "nat \<Rightarrow> real"

text \<open>What the node's NAR server finds.\<close>

definition serving :: "node_env \<Rightarrow> transfer_env" where
  "serving ne = \<lparr>te_exists = ne_exists ne, te_node = ne_node ne, te_sha256 = ne_sha256 ne, te_blake3 = ne_blake3 ne,
     te_hex = ne_hex ne, te_unb64 = ne_unb64 ne, te_query = ne_query ne, te_http_cache = ne_http ne,
     te_poisoned = ne_poisoned ne, te_sql = ne_sql ne, te_encode_header = ne_encode_header ne,
     te_decode_request = ne_decode_request ne\<rparr>"

section \<open>The index\<close>

definition with_index :: "node_env \<Rightarrow> (string option \<Rightarrow> index_table \<Rightarrow> 'a result) \<Rightarrow> 'u node \<Rightarrow> 'a result" where
  "with_index ne f nd = rbind (lock_or_err (ne_poisoned ne) ()) (\<lambda>_. f (ne_sql ne) (nd_index nd))"

definition insert_into_index :: "node_env \<Rightarrow> hash_entry \<Rightarrow> 'u node \<Rightarrow> unit result \<times> 'u node" where
  "insert_into_index ne entry nd =
     (case lock_or_err (ne_poisoned ne) () of
        Inl e \<Rightarrow> (Inl e, nd)
      | Inr _ \<Rightarrow> (case index_insert (ne_sql ne) entry (nd_index nd) of (res, t) \<Rightarrow> (res, nd\<lparr>nd_index := t\<rparr>)))"

text \<open>The entry of a path: SHA256, size, references and deriver as Nix knows them, BLAKE3 of the files.\<close>

definition path_entry :: "node_env \<Rightarrow> string \<Rightarrow> string \<Rightarrow> hash_entry result" where
  "path_entry ne store_path fs_path =
     (let serialized = serialize_path_to_writer (ne_sha256 ne) (ne_blake3 ne) 0 vec_write fs_path
            (ne_node ne fs_path) []
      in case ne_query ne store_path of
           Inl (Panic m) \<Rightarrow> panic m
         | Inr nix_info \<Rightarrow>
             rbind (sha256_bytes (ne_unb64 ne) nix_info) (\<lambda>sha256.
             rbind serialized (\<lambda>info.
             Inr \<lparr>he_blake3 = na_blake3 info, he_sha256 = sha256, he_store_path = store_path,
                  he_nar_size = np_nar_size nix_info, he_references = np_references nix_info,
                  he_deriver = np_deriver nix_info\<rparr>))
         | Inl (Err _) \<Rightarrow>
             rbind serialized (\<lambda>info.
             Inr \<lparr>he_blake3 = na_blake3 info, he_sha256 = na_sha256 info, he_store_path = store_path,
                  he_nar_size = na_nar_size info, he_references = [], he_deriver = None\<rparr>))"

text \<open>A failed announcement is only logged.\<close>

definition index_store_path :: "node_env \<Rightarrow> string \<Rightarrow> string \<Rightarrow> 'u node \<Rightarrow> hash_entry result \<times> 'u node" where
  "index_store_path ne store_path fs_path nd =
     (case path_entry ne store_path fs_path of
        Inl e \<Rightarrow> (Inl e, nd)
      | Inr entry \<Rightarrow>
          st_bind (insert_into_index ne entry nd) (\<lambda>_ nd1.
          (Inr entry, case nd_gossip nd1 of
             None \<Rightarrow> nd1
           | Some _ \<Rightarrow> nd1\<lparr>nd_sent := nd_sent nd1 @
               snd (announce_have (ne_encode_gossip ne) (ne_broadcast ne) (he_blake3 entry) store_path (he_nar_size entry))\<rparr>)))"

definition has_indexed :: "node_env \<Rightarrow> hash32 \<Rightarrow> 'u node \<Rightarrow> bool result" where
  "has_indexed ne h nd = rbind (with_index ne (\<lambda>sql. get_by_blake3 sql h) nd) (\<lambda>e. Inr (e \<noteq> None))"

definition node_get_by_store_path :: "node_env \<Rightarrow> string \<Rightarrow> 'u node \<Rightarrow> hash_entry option result" where
  "node_get_by_store_path ne p nd = with_index ne (\<lambda>sql. get_by_store_path sql p) nd"

definition node_get_by_blake3 :: "node_env \<Rightarrow> hash32 \<Rightarrow> 'u node \<Rightarrow> hash_entry option result" where
  "node_get_by_blake3 ne h nd = with_index ne (\<lambda>sql. get_by_blake3 sql h) nd"

definition list_store_paths :: "node_env \<Rightarrow> 'u node \<Rightarrow> hash_entry list result" where
  "list_store_paths ne nd = with_index ne list_all_entries nd"

record node_stats =
  ns_endpoint_id :: endpoint_id
  ns_entry_count :: u64
  ns_total_blob_size :: u64

text \<open>The sum wraps in a release build.\<close>

definition node_stats_of :: "node_env \<Rightarrow> 'u node \<Rightarrow> node_stats result" where
  "node_stats_of ne nd = rbind (with_index ne list_all_entries nd) (\<lambda>entries.
     Inr \<lparr>ns_endpoint_id = nd_id nd, ns_entry_count = of_nat (length entries),
          ns_total_blob_size = sum_list (map he_nar_size entries)\<rparr>)"

section \<open>Gossip and the queue\<close>

definition gossip_enabled :: "'u node \<Rightarrow> bool" where
  "gossip_enabled nd \<longleftrightarrow> nd_gossip nd \<noteq> None"

definition build_enabled :: "'u node \<Rightarrow> bool" where
  "build_enabled nd \<longleftrightarrow> nd_queue nd \<noteq> None"

definition query_providers :: "node_env \<Rightarrow> hash32 \<Rightarrow> 'u node \<Rightarrow> provider_info list result \<times> 'u node" where
  "query_providers ne h nd =
     (case nd_gossip nd of
        None \<Rightarrow> (throw (Protocol ''Gossip not enabled''), nd)
      | Some g \<Rightarrow>
          (case query_want (ne_encode_gossip ne) (ne_broadcast ne) h of
             (res, sent) \<Rightarrow> (rbind res (\<lambda>_. Inr (get_providers h g)), nd\<lparr>nd_sent := nd_sent nd @ sent\<rparr>)))"

definition node_get_providers :: "hash32 \<Rightarrow> 'u node \<Rightarrow> provider_info list" where
  "node_get_providers h nd = (case nd_gossip nd of Some g \<Rightarrow> get_providers h g | None \<Rightarrow> [])"

definition push_build :: "node_env \<Rightarrow> u64 \<Rightarrow> string \<Rightarrow> string list \<Rightarrow> string list \<Rightarrow> input_path list \<Rightarrow> 'u node \<Rightarrow>
    (job_id \<times> bool) result \<times> 'u node" where
  "push_build ne now drv_path system_features outputs input_paths nd =
     (case nd_queue nd of
        None \<Rightarrow> (throw (Protocol ''Build queue not enabled''), nd)
      | Some q \<Rightarrow>
          (case push (ne_blake3 ne) now drv_path system_features outputs input_paths q of
             ((jid, should_announce), q') \<Rightarrow>
               (let nd1 = nd\<lparr>nd_queue := Some q'\<rparr>
                in case (if should_announce then nd_gossip nd1 else None) of
                     None \<Rightarrow> (Inr (jid, should_announce), nd1)
                   | Some g \<Rightarrow>
                       (case announce_need_builder (ne_encode_gossip ne) (ne_broadcast ne) system_features g of
                          (res, sent) \<Rightarrow> (rbind res (\<lambda>_. Inr (jid, should_announce)), nd1\<lparr>nd_sent := nd_sent nd1 @ sent\<rparr>)))))"

text \<open>
  The end of a node: the gossip service is shut down when nothing else refers to it; then the
  endpoint is closed.
\<close>

definition node_shutdown :: "bool \<Rightarrow> string option \<Rightarrow> 'u node \<Rightarrow> unit result" where
  "node_shutdown gossip_shared failure nd =
     (case nd_gossip nd of
        None \<Rightarrow> Inr ()
      | Some _ \<Rightarrow> if gossip_shared then Inr () else gossip_shutdown failure)"

section \<open>Serving and fetching\<close>

text \<open>What an accepted connection is given to, by its protocol name.\<close>

definition NAR_PROTOCOL_ALPN :: "byte list" where "NAR_PROTOCOL_ALPN = as_bytes ''/iroh-nix/nar/1''"
definition RPC_PROTOCOL_ALPN :: "byte list" where "RPC_PROTOCOL_ALPN = as_bytes ''/iroh-nix/rpc/1''"
definition BUILD_QUEUE_PROTOCOL_ALPN :: "byte list" where "BUILD_QUEUE_PROTOCOL_ALPN = as_bytes ''/iroh-nix/build-queue/1''"

datatype route_to = GossipHandler | BuildQueueHandler | NarHandler | NoHandler

definition serve_route :: "byte list \<Rightarrow> byte list \<Rightarrow> 'u node \<Rightarrow> route_to" where
  "serve_route gossip_alpn alpn nd =
     (if alpn = gossip_alpn then (if gossip_enabled nd then GossipHandler else NoHandler)
      else if alpn = BUILD_QUEUE_PROTOCOL_ALPN then (if build_enabled nd then BuildQueueHandler else NoHandler)
      else NarHandler)"

record import_result =
  im_store_path :: string
  im_blake3 :: hash32
  im_sha256 :: hash32
  im_nar_size :: u64

definition fetch_from_with_config :: "node_env \<Rightarrow> (nat \<Rightarrow> remote) \<Rightarrow> hash32 \<Rightarrow> retry_config \<Rightarrow> 'u node \<Rightarrow>
    (import_result \<times> byte list) result \<times> 'u node" where
  "fetch_from_with_config ne peers h cfg nd =
     (case fst (fetch_nar_with_config (ne_encode_request ne) (ne_decode_header ne) (ne_lossy ne) (ne_blake3 ne)
             (ne_hex ne) peers h cfg (ne_rnd ne) 0) of
        Inl e \<Rightarrow> (Inl e, nd)
      | Inr (header, nar_data) \<Rightarrow>
          (let known = (case ne_query ne (nh_store_path header) of
                 Inl (Panic m) \<Rightarrow> panic m
               | Inl (Err _) \<Rightarrow> Inr ([], None)
               | Inr nix_info \<Rightarrow> Inr (np_references nix_info, np_deriver nix_info))
           in case known of
                Inl e \<Rightarrow> (Inl e, nd)
              | Inr (references, deriver) \<Rightarrow>
                  st_bind (insert_into_index ne \<lparr>he_blake3 = h, he_sha256 = nh_sha256 header,
                    he_store_path = nh_store_path header, he_nar_size = nh_size header, he_references = references,
                    he_deriver = deriver\<rparr> nd) (\<lambda>_ nd1.
                  (Inr (\<lparr>im_store_path = nh_store_path header, im_blake3 = h, im_sha256 = nh_sha256 header,
                         im_nar_size = nh_size header\<rparr>, nar_data), nd1))))"

definition fetch_from :: "node_env \<Rightarrow> (nat \<Rightarrow> remote) \<Rightarrow> hash32 \<Rightarrow> 'u node \<Rightarrow>
    (import_result \<times> byte list) result \<times> 'u node" where
  "fetch_from ne peers h nd = fetch_from_with_config ne peers h default_config nd"

text \<open>The address of a node is its id; discovery, \<open>dial\<close>, finds it.\<close>

definition fetch_by_id_with_config :: "node_env \<Rightarrow> (endpoint_id \<Rightarrow> nat \<Rightarrow> remote) \<Rightarrow> endpoint_id \<Rightarrow> hash32 \<Rightarrow>
    retry_config \<Rightarrow> 'u node \<Rightarrow> (import_result \<times> byte list) result \<times> 'u node" where
  "fetch_by_id_with_config ne dial remote_id h cfg nd = fetch_from_with_config ne (dial remote_id) h cfg nd"

definition fetch_by_id :: "node_env \<Rightarrow> (endpoint_id \<Rightarrow> nat \<Rightarrow> remote) \<Rightarrow> endpoint_id \<Rightarrow> hash32 \<Rightarrow> 'u node \<Rightarrow>
    (import_result \<times> byte list) result \<times> 'u node" where
  "fetch_by_id ne dial remote_id h nd = fetch_from ne (dial remote_id) h nd"

text \<open>The control socket is served only by a node with gossip and a queue.\<close>

definition serves_control :: "'u node \<Rightarrow> bool" where
  "serves_control nd \<longleftrightarrow> gossip_enabled nd \<and> build_enabled nd"

section \<open>A started node\<close>

text \<open>
  A started node has the gossip service and the build queue together, exactly when a network is
  configured; both are empty and belong to the node.
\<close>

lemma spawn_services:
  assumes "spawn blake3 public from_key config mkdir_error key_loaded bind_error index subscribe parse_url client_error = Inr nd"
  shows "nd_gossip nd = (if nc_network_id config = None then None else Some (gossip_new (nd_id nd) False False)) \<and>
    nd_queue nd = (if nc_network_id config = None then None else Some (new_queue (nd_id nd))) \<and>
    index = Inr (nd_index nd)"
  using assms
  by (auto simp: spawn_def Let_def gossip_join_def with_callbacks_def split: option.splits prod.splits if_splits)

lemma spawned_serves_control:
  "spawn blake3 public from_key config mkdir_error key_loaded bind_error index subscribe parse_url client_error = Inr nd \<Longrightarrow>
    serves_control nd = (nc_network_id config \<noteq> None) \<and> gossip_enabled nd = (nc_network_id config \<noteq> None)"
  by (drule spawn_services) (auto simp: serves_control_def gossip_enabled_def build_enabled_def)

section \<open>Two nodes\<close>

lemma serialize_to_writer_iff:
  "serialize_path_to_writer sha256 blake3 0 vec_write p node [] = Inr info \<longleftrightarrow>
     (\<exists>t. tree_of node = Some t \<and> info = \<lparr>na_blake3 = blake3 (nar_bytes t), na_sha256 = sha256 (nar_bytes t),
        na_nar_size = of_nat (length (nar_bytes t))\<rparr>)"
proof -
  have "serialize_path_to_writer sha256 blake3 0 vec_write p node [] = rbind (serialize_path sha256 blake3 p node) (\<lambda>x. Inr (snd x))"
    by (simp add: serialize_path_to_writer_def serialize_path_def rbind_assoc)
  then show ?thesis by (auto simp: serialize_path_iff)
qed

lemma path_entry_keys:
  "path_entry ne p f = Inr e \<Longrightarrow> he_store_path e = p \<and> (\<exists>t. tree_of (ne_node ne f) = Some t \<and> he_blake3 e = ne_blake3 ne (nar_bytes t))"
  by (auto simp: path_entry_def serialize_to_writer_iff Let_def split: sum.splits fault.splits)

lemma insert_into_index_ok:
  "\<not> ne_poisoned ne \<Longrightarrow> ne_sql ne = None \<Longrightarrow>
     insert_into_index ne e nd = (Inr (), nd\<lparr>nd_index := snd (index_insert None e (nd_index nd))\<rparr>)"
  by (simp add: insert_into_index_def lock_or_err_def index_insert_def)

lemma stored_keys [simp]:
  "he_blake3 (stored e) = he_blake3 e" "he_sha256 (stored e) = he_sha256 e"
  "he_store_path (stored e) = he_store_path e" "he_nar_size (stored e) = he_nar_size e"
  by (simp_all add: stored_def)

lemma inserted_found:
  assumes "table_ok t" "sized_entry e"
  shows "get_by_blake3 None (he_blake3 e) (snd (index_insert None e t)) = Inr (Some (stored e))"
  using insert_lookup [OF assms, of "fst (index_insert None e t)" "snd (index_insert None e t)"] by simp

lemma index_store_path_index:
  assumes "\<not> ne_poisoned ne" "ne_sql ne = None" "index_store_path ne p f nd = (Inr e, nd')"
  shows "path_entry ne p f = Inr e \<and> nd_index nd' = snd (index_insert None e (nd_index nd))"
  using assms by (auto simp: index_store_path_def insert_into_index_ok split: sum.splits option.splits)

lemma fetch_config_ok:
  assumes "\<And>k. fetch_nar_once (ne_encode_request ne) (ne_decode_header ne) (ne_lossy ne) (ne_blake3 ne) (ne_hex ne) (peers k) h =
      Inr (header, data)"
    and "\<not> ne_poisoned ne" "ne_sql ne = None" "\<And>p m. ne_query ne p \<noteq> panic m"
  shows "\<exists>refs der. fetch_from_with_config ne peers h cfg nd = (Inr (\<lparr>im_store_path = nh_store_path header, im_blake3 = h,
      im_sha256 = nh_sha256 header, im_nar_size = nh_size header\<rparr>, data), nd\<lparr>nd_index := snd (index_insert None
      \<lparr>he_blake3 = h, he_sha256 = nh_sha256 header, he_store_path = nh_store_path header, he_nar_size = nh_size header,
       he_references = refs, he_deriver = der\<rparr> (nd_index nd))\<rparr>)"
proof -
  have f: "fst (fetch_nar_with_config (ne_encode_request ne) (ne_decode_header ne) (ne_lossy ne) (ne_blake3 ne) (ne_hex ne)
      peers h cfg (ne_rnd ne) 0) = Inr (header, data)"
    unfolding fetch_nar_with_config_def
    by (subst with_retry_constant [where r = "Inr (header, data)"]) (simp_all add: assms(1) retryable_result_def)
  show ?thesis
  proof (cases "ne_query ne (nh_store_path header)")
    case (Inl e)
    with assms(4) [of "nh_store_path header"] have "\<exists>e'. e = Err e'" by (cases e) auto
    with Inl f assms(2,3) show ?thesis
      by (intro exI [of _ "[]"] exI [of _ None])
         (auto simp: fetch_from_with_config_def insert_into_index_ok)
  next
    case (Inr info)
    with f assms(2,3) show ?thesis
      by (intro exI [of _ "np_references info"] exI [of _ "np_deriver info"])
         (auto simp: fetch_from_with_config_def insert_into_index_ok)
  qed
qed

lemmas fetch_from_ok = fetch_config_ok [where cfg = default_config, folded fetch_from_def]

text \<open>What one node indexes another fetches, under any retry configuration.\<close>

lemma node_transfer:
  assumes a: "\<not> ne_poisoned a" "ne_sql a = None" "table_ok (nd_index na)" "ne_exists a p"
      "index_store_path a p p na = (Inr entry, na')" "tree_of (ne_node a p) = Some t"
    and sizes: "unat (he_nar_size entry) = length (nar_bytes t)" "he_nar_size entry \<le> MAX_NAR_SIZE" "sized_entry entry"
    and b: "\<not> ne_poisoned b" "ne_sql b = None" "\<And>p m. ne_query b p \<noteq> panic m" "table_ok (nd_index nb)" "ne_blake3 b = ne_blake3 a"
    and codec: "ne_encode_request b (ByBlake3 (he_blake3 entry)) = Inr rq" "ne_decode_request a rq = Inr (ByBlake3 (he_blake3 entry))"
      "length rq \<le> 1024" "ne_encode_header a (nar_response_header_new (he_nar_size entry) (he_sha256 entry) p) = Inr hb"
      "ne_decode_header b hb = Inr (nar_response_header_new (he_nar_size entry) (he_sha256 entry) p)" "length hb \<le> 64 * 1024"
  shows "\<exists>nb'. fetch_from_with_config b (\<lambda>_. serve_remote (serving a) (nd_index na') pick) (he_blake3 entry) cfg nb =
      (Inr (\<lparr>im_store_path = p, im_blake3 = he_blake3 entry, im_sha256 = he_sha256 entry, im_nar_size = he_nar_size entry\<rparr>,
            nar_bytes t), nb') \<and>
    has_indexed b (he_blake3 entry) nb' = Inr True"
proof -
  have e: "he_store_path entry = p" "he_blake3 entry = ne_blake3 a (nar_bytes t)"
    and t: "nd_index na' = snd (index_insert None entry (nd_index na))"
    using index_store_path_index [OF a(1,2,5)] path_entry_keys [of a p p entry] a(6) by auto
  let ?hd = "nar_response_header_new (he_nar_size entry) (he_sha256 entry) p"
  obtain info where ser: "serialize_path (ne_sha256 a) (ne_blake3 a) p (ne_node a p) = Inr (nar_bytes t, info)"
    using a(6) serialize_path_iff by blast
  have "fetch_nar_once (ne_encode_request b) (ne_decode_header b) (ne_lossy b) (ne_blake3 b) (ne_hex b)
      (serve_remote (serving a) (nd_index na') pick) (he_blake3 entry) = Inr (?hd, nar_bytes t)"
    using a(1,2,4) sizes codec ser e inserted_found [OF a(3) sizes(3)] b(5)
    by (intro fetch_served [where rq = rq and e = "stored entry" and hb = hb and info = info]) (simp_all add: serving_def t)
  from fetch_config_ok [OF this b(1-3)] obtain refs der where f: "fetch_from_with_config b (\<lambda>_. serve_remote (serving a) (nd_index na') pick)
      (he_blake3 entry) cfg nb = (Inr (\<lparr>im_store_path = nh_store_path ?hd, im_blake3 = he_blake3 entry, im_sha256 = nh_sha256 ?hd,
      im_nar_size = nh_size ?hd\<rparr>, nar_bytes t), nb\<lparr>nd_index := snd (index_insert None
      \<lparr>he_blake3 = he_blake3 entry, he_sha256 = nh_sha256 ?hd, he_store_path = nh_store_path ?hd, he_nar_size = nh_size ?hd,
       he_references = refs, he_deriver = der\<rparr> (nd_index nb))\<rparr>)" by blast
  let ?new = "\<lparr>he_blake3 = he_blake3 entry, he_sha256 = nh_sha256 ?hd, he_store_path = nh_store_path ?hd, he_nar_size = nh_size ?hd,
       he_references = refs, he_deriver = der\<rparr>"
  have "sized_entry ?new" using sizes(3) by (simp add: sized_entry_def nar_response_header_new_def)
  from inserted_found [OF b(4) this] b(1,2) f show ?thesis
    by (simp add: has_indexed_def with_index_def lock_or_err_def nar_response_header_new_def)
qed

text \<open>
  What one node indexes another can fetch: after the first has indexed a store path whose
  size Nix knows rightly, the second fetches it by its BLAKE3 hash and gets the store path, the
  hashes and the size of the entry, the NAR of the path's files, and an entry in its own index.
\<close>

theorem two_node_transfer:
  assumes a: "\<not> ne_poisoned a" "ne_sql a = None" "table_ok (nd_index na)" "ne_exists a p"
      "index_store_path a p p na = (Inr entry, na')" "tree_of (ne_node a p) = Some t"
    and sizes: "unat (he_nar_size entry) = length (nar_bytes t)" "he_nar_size entry \<le> MAX_NAR_SIZE" "sized_entry entry"
    and b: "\<not> ne_poisoned b" "ne_sql b = None" "\<And>p m. ne_query b p \<noteq> panic m" "table_ok (nd_index nb)" "ne_blake3 b = ne_blake3 a"
    and codec: "ne_encode_request b (ByBlake3 (he_blake3 entry)) = Inr rq" "ne_decode_request a rq = Inr (ByBlake3 (he_blake3 entry))"
      "length rq \<le> 1024" "ne_encode_header a (nar_response_header_new (he_nar_size entry) (he_sha256 entry) p) = Inr hb"
      "ne_decode_header b hb = Inr (nar_response_header_new (he_nar_size entry) (he_sha256 entry) p)" "length hb \<le> 64 * 1024"
  shows "\<exists>nb'. fetch_from b (\<lambda>_. serve_remote (serving a) (nd_index na') pick) (he_blake3 entry) nb =
      (Inr (\<lparr>im_store_path = p, im_blake3 = he_blake3 entry, im_sha256 = he_sha256 entry, im_nar_size = he_nar_size entry\<rparr>,
            nar_bytes t), nb') \<and>
    has_indexed b (he_blake3 entry) nb' = Inr True"
  unfolding fetch_from_def by (rule node_transfer [OF assms])

text \<open>Two nodes on the same file system, whose Nix knows no path.\<close>

definition sample_node_env :: node_env where
  "sample_node_env = \<lparr>ne_exists = (\<lambda>_. True), ne_node = (\<lambda>_. FileNode 0x1A4 5 (Inr [Inr [104, 101], Inr [108, 108, 111]])),
     ne_query = (\<lambda>p. throw (StorePathNotFound p)), ne_unb64 = (\<lambda>_. Inl []), ne_sha256 = toy_hash, ne_blake3 = toy_hash,
     ne_hex = (\<lambda>_. []), ne_lossy = of_bytes, ne_poisoned = False, ne_sql = None, ne_http = None,
     ne_encode_request = plain_request, ne_decode_request = plain_request_back, ne_encode_header = plain_header,
     ne_decode_header = plain_header_back, ne_encode_gossip = (\<lambda>_. Inr []), ne_broadcast = (\<lambda>_. None), ne_rnd = (\<lambda>_. 0)\<rparr>"

definition empty_node :: "endpoint_id \<Rightarrow> unit node" where
  "empty_node me = \<lparr>nd_id = me, nd_index = [], nd_gossip = Some (gossip_new me False False), nd_queue = Some (new_queue me),
     nd_http_cache = None, nd_sent = []\<rparr>"

definition sample_indexed :: hash_entry where
  "sample_indexed = \<lparr>he_blake3 = toy_hash sample_nar, he_sha256 = toy_hash sample_nar, he_store_path = ''/nix/store/x'',
     he_nar_size = of_nat (length sample_nar), he_references = [], he_deriver = None\<rparr>"

lemma sample_path_entry: "path_entry sample_node_env ''/nix/store/x'' ''/nix/store/x'' = Inr sample_indexed"
proof -
  have "serialize_path_to_writer toy_hash toy_hash 0 vec_write ''/nix/store/x''
      (FileNode 0x1A4 5 (Inr [Inr [104, 101], Inr [108, 108, 111]])) [] =
    Inr \<lparr>na_blake3 = toy_hash sample_nar, na_sha256 = toy_hash sample_nar, na_nar_size = of_nat (length sample_nar)\<rparr>"
    unfolding serialize_to_writer_iff by (simp add: file_contents_def sample_nar_def)
  then show ?thesis by (simp add: path_entry_def sample_node_env_def sample_indexed_def)
qed

definition indexed_header :: nar_response_header where
  "indexed_header = nar_response_header_new (he_nar_size sample_indexed) (he_sha256 sample_indexed) ''/nix/store/x''"

lemma sample_env_ok:
  "\<not> ne_poisoned sample_node_env" "ne_sql sample_node_env = None" "ne_exists sample_node_env p"
  "ne_query sample_node_env p \<noteq> panic m" "tree_of (ne_node sample_node_env p) = Some (Reg False [104, 101, 108, 108, 111])"
  by (simp_all add: sample_node_env_def file_contents_def)

lemma sample_node_ok: "table_ok (nd_index (empty_node me))"
  by (simp add: empty_node_def table_ok_Nil)

lemma sample_index_run:
  "index_store_path sample_node_env ''/nix/store/x'' ''/nix/store/x'' (empty_node me) =
     (Inr sample_indexed, empty_node me\<lparr>nd_index := snd (index_insert None sample_indexed []), nd_sent := [[]]\<rparr>)"
  using sample_env_ok(1,2) sample_path_entry
  by (simp add: index_store_path_def insert_into_index_ok, simp add: empty_node_def announce_have_def broadcast_message_def
      to_bytes_def sample_node_env_def)

lemma sample_sizes:
  "unat (he_nar_size sample_indexed) = length (nar_bytes (Reg False [104, 101, 108, 108, 111]))"
  "he_nar_size sample_indexed \<le> MAX_NAR_SIZE" "sized_entry sample_indexed"
  using length_sample_nar by (simp_all add: sample_indexed_def MAX_NAR_SIZE_def sized_entry_def toy_hash_def flip: sample_nar_def)

lemma sample_codec:
  "ne_encode_request sample_node_env (ByBlake3 (he_blake3 sample_indexed)) = Inr (0 # toy_hash sample_nar)"
  "ne_decode_request sample_node_env (0 # toy_hash sample_nar) = Inr (ByBlake3 (he_blake3 sample_indexed))"
  "length (0 # toy_hash sample_nar) \<le> 1024"
  "ne_encode_header sample_node_env indexed_header = Inr (projr (plain_header indexed_header))"
  "ne_decode_header sample_node_env (projr (plain_header indexed_header)) = Inr indexed_header"
  "length (projr (plain_header indexed_header)) \<le> 64 * 1024"
  by (simp_all add: sample_node_env_def sample_indexed_def toy_hash_def plain_header_def plain_header_back_def
      nar_response_header_new_def indexed_header_def)

theorem two_node_transfer_witness:
  "\<exists>na' nb'. index_store_path sample_node_env ''/nix/store/x'' ''/nix/store/x'' (empty_node [1]) = (Inr sample_indexed, na') \<and>
     nd_sent na' \<noteq> [] \<and>
     fetch_from sample_node_env (\<lambda>_. serve_remote (serving sample_node_env) (nd_index na') (\<lambda>n. n div 2)) (toy_hash sample_nar) (empty_node [2]) =
      (Inr (\<lparr>im_store_path = ''/nix/store/x'', im_blake3 = toy_hash sample_nar, im_sha256 = toy_hash sample_nar,
             im_nar_size = 120\<rparr>, sample_nar), nb') \<and>
     has_indexed sample_node_env (toy_hash sample_nar) nb' = Inr True"
  using two_node_transfer [where pick = "\<lambda>n. n div 2", OF sample_env_ok(1,2) sample_node_ok sample_env_ok(3)
      sample_index_run [of "[1]"] sample_env_ok(5) sample_sizes sample_env_ok(1,2,4) sample_node_ok [of "[2]"] refl
      sample_codec [unfolded indexed_header_def]]
    sample_index_run [of "[1]"]
  by (auto simp: sample_indexed_def length_sample_nar simp flip: sample_nar_def)

end
