(* ===== verification/Builder_Requests.thy ===== *)
theory Builder_Requests
  imports Protocol Queue_Machine
begin

text \<open>
  The requester's side of the build-queue protocol (\<open>builder.rs\<close>): one request of a builder,
  the connection loop that reads framed requests and answers each, and the builder's two
  helpers that send a request and receive a response. \<open>from_bytes\<close> and \<open>to_bytes\<close> are
  postcard's decoder and encoder; their error is its display text.
\<close>

definition from_proto :: "build_output_proto \<Rightarrow> build_output" where
  "from_proto po = \<lparr>bo_store_path = op_store_path po, bo_blake3 = op_blake3 po,
     bo_sha256 = op_sha256 po, bo_nar_size = op_nar_size po\<rparr>"

definition job_response :: "build_job \<Rightarrow> build_queue_response" where
  "job_response job = Job (bj_id job) (bj_drv_hash job) (bj_drv_path job) (bj_outputs job)
     (map (\<lambda>ip. \<lparr>pp_store_path = ip_store_path ip, pp_blake3 = ip_blake3 ip\<rparr>) (bj_input_paths job))"

text \<open>
  The result \<open>Complete\<close> stores, from the lease it found: the signature is the client's and is
  not checked.
\<close>

definition complete_result :: "job_id \<Rightarrow> endpoint_id \<Rightarrow> build_output_proto list \<Rightarrow> hash32 \<Rightarrow> hash32 \<Rightarrow>
    leased_job \<Rightarrow> build_result" where
  "complete_result jid builder outputs r s l =
     \<lparr>br_job_id = jid, br_drv_hash = bj_drv_hash (lj_job l), br_builder = builder,
      br_outputs = map from_proto outputs, br_signature_r = r, br_signature_s = s\<rparr>"

fun handle_build_queue_request :: "nat \<Rightarrow> nat \<Rightarrow> endpoint_id \<Rightarrow> build_queue_request \<Rightarrow> build_queue \<Rightarrow>
    build_queue_response \<times> build_queue" where
  "handle_build_queue_request t1 t2 builder (Pull system_features stream_logs) q =
     (case pull t1 t2 builder system_features q of
        (Some job, q') \<Rightarrow> (job_response job, q')
      | (None, q') \<Rightarrow> (NoJob, q'))"
| "handle_build_queue_request t1 t2 builder (Heartbeat jid status) q =
     (case heartbeat t1 jid builder status q of
        (ok, q') \<Rightarrow> (if ok then HeartbeatAck else ResponseError ''invalid job or builder'', q'))"
| "handle_build_queue_request t1 t2 builder (Complete jid outputs r s) q =
     (case find (\<lambda>(k, _). k = jid) (list_leased q) of
        Some (_, l) \<Rightarrow>
          (case complete jid builder (complete_result jid builder outputs r s l) q of
             (ok, q') \<Rightarrow> (if ok then CompleteAck else ResponseError ''failed to complete job'', q'))
      | None \<Rightarrow> (ResponseError ''job not found'', q))"
| "handle_build_queue_request t1 t2 builder (Fail jid error) q =
     (case fail jid builder error q of
        (ok, q') \<Rightarrow> (if ok then FailAck else ResponseError ''invalid job or builder'', q'))"
| "handle_build_queue_request t1 t2 builder (BuildLog jid data stream) q =
     (LogAck, broadcast_log jid data stream q)"

text \<open>
  The connection loop. \<open>clock k\<close> is the \<open>k\<close>-th reading of the clock; the state \<open>w\<close> is what
  was sent. A reader that delivers no length ends the loop without an error.
\<close>

function serve_build_queue ::
    "(byte list \<Rightarrow> string + build_queue_request) \<Rightarrow> (build_queue_response \<Rightarrow> string + byte list) \<Rightarrow>
     'w put \<Rightarrow> endpoint_id \<Rightarrow> (nat \<Rightarrow> nat) \<Rightarrow> nat \<Rightarrow> reader \<Rightarrow> 'w \<Rightarrow> build_queue \<Rightarrow>
     unit result \<times> 'w \<times> build_queue" where
  "serve_build_queue from_bytes to_bytes put builder clock k r w q =
     (case read_frame MAX_MESSAGE_SIZE r of
        Inl (NoLength _) \<Rightarrow> (Inr (), w, q)
      | Inl (TooLarge n) \<Rightarrow> (throw (Protocol (''message too large: '' @ show_nat n @ '' bytes'')), w, q)
      | Inl (NoBody (_, e)) \<Rightarrow> (throw (Protocol (''failed to read message: '' @ e)), w, q)
      | Inr (msg, r') \<Rightarrow>
          (case from_bytes msg of
             Inl e \<Rightarrow> (throw (Protocol (''failed to decode request: '' @ e)), w, q)
           | Inr request \<Rightarrow>
               (case handle_build_queue_request (clock k) (clock (k + 1)) builder request q of
                  (response, q') \<Rightarrow>
                    (case to_bytes response of
                       Inl e \<Rightarrow> (throw (Protocol (''failed to encode response: '' @ e)), w, q')
                     | Inr bytes \<Rightarrow>
                         (case put w (u32_be (of_nat (length bytes))) of
                            Inl (_, e) \<Rightarrow>
                              (throw (Protocol (''failed to write response length: '' @ e)), w, q')
                          | Inr w1 \<Rightarrow>
                              (case put w1 bytes of
                                 Inl (_, e) \<Rightarrow>
                                   (throw (Protocol (''failed to write response: '' @ e)), w1, q')
                               | Inr w2 \<Rightarrow> serve_build_queue from_bytes to_bytes put builder clock (k + 2) r' w2 q'))))))"
  by pat_completeness auto
termination
  by (relation "measure (\<lambda>(_, _, _, _, _, _, r, _, _). length (avail r))")
     (auto dest: read_frame_shorter)

declare serve_build_queue.simps [simp del]

definition send_request :: "(build_queue_request \<Rightarrow> string + byte list) \<Rightarrow> 'w put \<Rightarrow> 'w \<Rightarrow>
    build_queue_request \<Rightarrow> 'w result" where
  "send_request to_bytes put w request =
     (case to_bytes request of
        Inl e \<Rightarrow> throw (Protocol (''failed to encode request: '' @ e))
      | Inr bytes \<Rightarrow>
          (case put w (u32_be (of_nat (length bytes))) of
             Inl (_, e) \<Rightarrow> throw (Protocol (''failed to write request length: '' @ e))
           | Inr w1 \<Rightarrow>
               (case put w1 bytes of
                  Inl (_, e) \<Rightarrow> throw (Protocol (''failed to write request: '' @ e))
                | Inr w2 \<Rightarrow> Inr w2)))"

definition recv_response :: "(byte list \<Rightarrow> string + build_queue_response) \<Rightarrow> reader \<Rightarrow>
    (build_queue_response \<times> reader) result" where
  "recv_response from_bytes r =
     (case read_frame MAX_MESSAGE_SIZE r of
        Inl (NoLength (_, e)) \<Rightarrow> throw (Protocol (''failed to read response length: '' @ e))
      | Inl (TooLarge n) \<Rightarrow> throw (Protocol (''response too large: '' @ show_nat n @ '' bytes''))
      | Inl (NoBody (_, e)) \<Rightarrow> throw (Protocol (''failed to read response: '' @ e))
      | Inr (msg, r') \<Rightarrow>
          (case from_bytes msg of
             Inl e \<Rightarrow> throw (Protocol (''failed to decode response: '' @ e))
           | Inr response \<Rightarrow> Inr (response, r')))"

section \<open>One request\<close>

lemma find_key: "find (\<lambda>(k, _). k = jid) m = map_option (Pair jid) (hm_get jid m)"
  by (induction m) (auto simp: hm_get_def)

lemma handle_inv:
  assumes "queue_wf blake3 q"
  shows "queue_wf blake3 (snd (handle_build_queue_request t1 t2 b req q))"
  using assms pull_wf [OF assms] heartbeat_wf [OF assms] complete_eqs(2) [OF assms]
    fail_eqs(2) [OF assms] log_ops_wf(2) [OF assms]
  by (cases req) (auto split: prod.split option.split; metis snd_conv)+

lemma handle_status:
  assumes "queue_wf blake3 q"
  shows "status_of (snd (handle_build_queue_request t1 t2 b req q)) j = status_of q j
      \<or> status_of q j = Queued \<and> status_of (snd (handle_build_queue_request t1 t2 b req q)) j = Leased b
      \<or> status_of q j = Leased b \<and> status_of (snd (handle_build_queue_request t1 t2 b req q)) j = Done"
proof (cases req)
  case (Pull fs sl)
  obtain res q' where "pull t1 t2 b fs q = (res, q')" by fastforce
  with pull_status [OF assms this] Pull show ?thesis by (auto split: option.splits)
next
  case (Heartbeat jid st)
  then show ?thesis using heartbeat_status [of t1 jid b st q] by (auto split: prod.splits)
next
  case (Complete jid os r s)
  show ?thesis
  proof (cases "hm_get jid (bq_leased q)")
    case None
    with Complete show ?thesis by (simp add: find_key list_leased_def)
  next
    case (Some l)
    with Complete complete_eqs(1,3) [OF assms, of jid b "complete_result jid b os r s l"] show ?thesis
      by (auto simp: find_key list_leased_def split: prod.splits if_splits)
  qed
next
  case (Fail jid e)
  with fail_eqs(1,3) [OF assms, of jid b e] show ?thesis
    by (auto split: prod.splits if_splits)
next
  case (BuildLog jid d st)
  then show ?thesis by (simp add: frame_simps)
qed

text \<open>A request of builder \<open>b\<close>, with the two clock readings it may use, as an action on the queue.\<close>

definition builder_act :: "endpoint_id \<Rightarrow> nat \<times> nat \<times> build_queue_request \<Rightarrow> build_queue \<Rightarrow> build_queue" where
  "builder_act b a q = snd (handle_build_queue_request (fst a) (fst (snd a)) b (snd (snd a)) q)"

interpretation rpc: lease_table "queue_wf blake3" status_of builder_act
  by unfold_locales (simp_all only: builder_act_def handle_inv handle_status)

section \<open>A session\<close>

fun run_requests :: "(nat \<Rightarrow> nat) \<Rightarrow> nat \<Rightarrow> endpoint_id \<Rightarrow> build_queue_request list \<Rightarrow> build_queue \<Rightarrow>
    build_queue_response list \<times> build_queue" where
  "run_requests clock k b [] q = ([], q)"
| "run_requests clock k b (req # reqs) q =
     (case handle_build_queue_request (clock k) (clock (k + 1)) b req q of
        (resp, q') \<Rightarrow> (case run_requests clock (k + 2) b reqs q' of (resps, q'') \<Rightarrow> (resp # resps, q'')))"

lemma serve_run_requests:
  assumes "\<forall>req \<in> set reqs. from_bytes (enc req) = Inr req \<and> length (enc req) \<le> MAX_MESSAGE_SIZE"
  shows "serve_build_queue from_bytes (\<lambda>m. Inr (renc m)) vec_put b clock k
      (feed (concat (map (\<lambda>req. frame (enc req)) reqs)) r) w q =
    serve_build_queue from_bytes (\<lambda>m. Inr (renc m)) vec_put b clock (k + 2 * length reqs) r
      (w @ concat (map (\<lambda>resp. frame (renc resp)) (fst (run_requests clock k b reqs q))))
      (snd (run_requests clock k b reqs q))"
  using assms
proof (induction reqs arbitrary: k w q)
  case (Cons req reqs)
  obtain resp q' where h: "handle_build_queue_request (clock k) (clock (Suc k)) b req q = (resp, q')"
    by fastforce
  have fr: "read_frame MAX_MESSAGE_SIZE (feed (frame (enc req)) s) = Inr (enc req, s)" for s
    using Cons.prems by (intro framec.dec_enc) simp
  have dec: "from_bytes (enc req) = Inr req" using Cons.prems by simp
  have "serve_build_queue from_bytes (\<lambda>m. Inr (renc m)) vec_put b clock k (feed (frame (enc req)) s) w q =
      serve_build_queue from_bytes (\<lambda>m. Inr (renc m)) vec_put b clock (Suc (Suc k)) s (w @ frame (renc resp)) q'" for s
    by (subst serve_build_queue.simps)
       (simp add: fr dec h vec_put_def, simp add: frame_def)
  then show ?case
    using Cons by (simp add: h case_prod_beta)
qed simp

lemma serve_end: "avail r = [] \<Longrightarrow>
  serve_build_queue from_bytes to_bytes put b clock k r w q = (Inr (), w, q)"
  by (subst serve_build_queue.simps) (simp add: read_frame_def codec_simps)

section \<open>Outcomes\<close>

text \<open>Every completed outcome is filed under the derivation hash it names.\<close>

definition outcomes_ok :: "build_queue \<Rightarrow> bool" where
  "outcomes_ok q \<longleftrightarrow> (\<forall>h r. get_outcome h q = Some (Completed r) \<longrightarrow> br_drv_hash r = h)"

lemma outcomes_new: "outcomes_ok (new_queue me)"
  by (simp add: outcomes_ok_def get_outcome_def new_queue_def)

lemma completed_frames [frame_simps]:
  "bq_completed (snd (pull t1 t2 b fs q)) = bq_completed q"
  "bq_completed (snd (heartbeat now jid b st q)) = bq_completed q"
  "bq_completed (broadcast_log jid d sm q) = bq_completed q"
  by (simp_all add: pull_def heartbeat_def broadcast_log_def Let_def split: option.split)

lemma outcomes_fail: "outcomes_ok q \<Longrightarrow> outcomes_ok (snd (fail jid b e q))"
  by (auto simp: outcomes_ok_def get_outcome_def fail_def Let_def split: option.splits)

lemma outcomes_complete:
  assumes "outcomes_ok q" "hm_get jid (bq_leased q) = Some l" "br_drv_hash r = bj_drv_hash (lj_job l)"
  shows "outcomes_ok (snd (complete jid b r q))"
  using assms by (auto simp: outcomes_ok_def get_outcome_def complete_def Let_def)

lemma outcomes_handle:
  assumes "outcomes_ok q"
  shows "outcomes_ok (snd (handle_build_queue_request t1 t2 b req q))"
proof (cases req)
  case (Pull fs sl)
  have "outcomes_ok (snd (pull t1 t2 b fs q))"
    using assms by (simp add: outcomes_ok_def get_outcome_def frame_simps)
  with Pull show ?thesis by (auto split: prod.split option.split)
next
  case (Heartbeat jid st)
  have "outcomes_ok (snd (heartbeat t1 jid b st q))"
    using assms by (simp add: outcomes_ok_def get_outcome_def frame_simps)
  with Heartbeat show ?thesis by (auto split: prod.split)
next
  case (Complete jid os r s)
  show ?thesis
  proof (cases "hm_get jid (bq_leased q)")
    case (Some l)
    have "outcomes_ok (snd (complete jid b (complete_result jid b os r s l) q))"
      using assms Some by (rule outcomes_complete) (simp add: complete_result_def)
    with Complete Some show ?thesis by (auto simp: find_key list_leased_def split: prod.split)
  qed (use Complete assms in \<open>simp add: find_key list_leased_def\<close>)
next
  case (Fail jid e)
  with outcomes_fail [OF assms, of jid b e] show ?thesis by (auto split: prod.split)
next
  case (BuildLog jid d st)
  with assms show ?thesis by (simp add: outcomes_ok_def get_outcome_def frame_simps)
qed

section \<open>Properties of the requester's server\<close>



text \<open>
  A completion sent by the lease holder is always acknowledged, whatever its signature. The
  stored outcome names the connection's builder and the job's own derivation hash, under which
  it is filed, and carries the outputs and the signature bytes as they were sent.
\<close>

theorem completion_acknowledged:
  assumes "queue_wf blake3 q" "outcomes_ok q" "status_of q jid = Leased b"
  shows "\<exists>q' res. handle_build_queue_request t1 t2 b (Complete jid os r s) q = (CompleteAck, q') \<and>
    get_outcome (br_drv_hash res) q' = Some (Completed res) \<and> bq_pending_fetch q' = bq_pending_fetch q @ [res] \<and>
    br_job_id res = jid \<and> br_builder res = b \<and> br_outputs res = map from_proto os \<and>
    br_signature_r res = r \<and> br_signature_s res = s \<and>
    status_of q' jid = Done \<and> queue_wf blake3 q' \<and> outcomes_ok q'"
proof -
  from assms(3) obtain l where l: "hm_get jid (bq_leased q) = Some l" "lj_builder l = b"
    by (auto simp: status_of_Leased_iff [OF assms(1)])
  let ?res = "complete_result jid b os r s l"
  let ?h = "handle_build_queue_request t1 t2 b (Complete jid os r s) q"
  from l have h: "?h = (CompleteAck, snd (complete jid b ?res q))" "fst (complete jid b ?res q)"
    by (auto simp: find_key list_leased_def complete_def Let_def)
  moreover have "get_outcome (br_drv_hash ?res) (snd ?h) = Some (Completed ?res)"
    "bq_pending_fetch (snd ?h) = bq_pending_fetch q @ [?res]"
    using l by (simp_all only: h(1) snd_conv)
      (simp_all add: complete_def Let_def get_outcome_def complete_result_def)
  moreover have "queue_wf blake3 (snd ?h)" "outcomes_ok (snd ?h)" "status_of (snd ?h) jid = Done"
    by (rule handle_inv [OF assms(1)], rule outcomes_handle [OF assms(2)])
      (simp only: h(1) snd_conv complete_eqs(3) [OF assms(1)] h(2), simp)
  ultimately show ?thesis
    by (intro exI [of _ "snd ?h"] exI [of _ ?res]) (simp add: complete_result_def)
qed

theorem completion_acknowledged_witness:
  "fst (handle_build_queue_request 0 0 [7] (Complete 1 [] [] []) sample_leased) = CompleteAck"
proof -
  have "outcomes_ok sample_leased" "status_of sample_leased 1 = Leased [7]"
    by (simp_all add: outcomes_ok_def get_outcome_def status_of_def sample_defs hm_get_def)
  from completion_acknowledged [OF sample_wf(2) this, of 0 0 "[]" "[]" "[]"] show ?thesis
    by (metis fst_conv)
qed

text \<open>
  C29: on a stream of framed requests the connection loop answers every request with one framed
  response, in order, each the response of the request handler on the queue the previous ones
  left; it ends without an error when the builder closes the stream, and the queue it leaves
  is the handlers' queue.
\<close>

theorem serve_session:
  assumes "\<forall>req \<in> set reqs. from_bytes (enc req) = Inr req \<and> length (enc req) \<le> 1024 * 1024"
  shows "serve_build_queue from_bytes (\<lambda>m. Inr (renc m)) vec_put b clock 0
      (cursor (concat (map (\<lambda>req. frame (enc req)) reqs))) [] q =
    (Inr (), concat (map (\<lambda>resp. frame (renc resp)) (fst (run_requests clock 0 b reqs q))),
     snd (run_requests clock 0 b reqs q))"
proof -
  have "\<forall>req \<in> set reqs. from_bytes (enc req) = Inr req \<and> length (enc req) \<le> MAX_MESSAGE_SIZE"
    using assms by (simp add: MAX_MESSAGE_SIZE_def)
  from serve_run_requests [OF this, of renc b clock 0 "cursor []" "[]" q]
  show ?thesis
    by (simp only: feed_cursor append_Nil2 serve_end avail_cursor append_Nil)
qed

theorem serve_session_witness:
  "\<exists>out q. serve_build_queue (\<lambda>_. Inr (Pull [''kvm''] False)) (\<lambda>m. Inr [2]) vec_put [7] (\<lambda>_. 5) 0
     (cursor (concat (map (\<lambda>req. frame [1]) [Pull [''kvm''] False]))) [] sample_pushed = (Inr (), out, q)"
  using serve_session [of "[Pull [''kvm''] False]" "\<lambda>_. Inr (Pull [''kvm''] False)" "\<lambda>_. [1]"
    "\<lambda>_. [2]" "[7]" "\<lambda>_. 5" sample_pushed]
  by simp

end
