(* ===== verification/Build_Result.thy ===== *)
theory Build_Result
  imports Build_Queue
begin

text \<open>
  Signed build results (\<open>build.rs\<close>). The Ed25519 library appears as functions: \<open>public\<close> and
  \<open>sign\<close> of a secret key, \<open>valid_id\<close> for the bytes \<open>EndpointId::from_bytes\<close> accepts, and
  \<open>verify\<close>. A signature is 64 bytes, stored in two halves.
\<close>

definition output_data :: "build_output \<Rightarrow> byte list" where
  "output_data out = as_bytes (bo_store_path out) @ bo_blake3 out @ bo_sha256 out @ u64_le (bo_nar_size out)"

definition result_to_sign_data :: "build_result \<Rightarrow> byte list" where
  "result_to_sign_data r = u64_le (br_job_id r) @ br_drv_hash r @ br_builder r @
     concat (map output_data (br_outputs r))"

definition sign_build_result :: "('sk \<Rightarrow> hash32) \<Rightarrow> ('sk \<Rightarrow> byte list \<Rightarrow> byte list) \<Rightarrow> 'sk \<Rightarrow> job_id \<Rightarrow>
    drv_hash \<Rightarrow> build_output list \<Rightarrow> build_result" where
  "sign_build_result public sign secret_key jid drv_hash outputs =
     (let result = \<lparr>br_job_id = jid, br_drv_hash = drv_hash, br_builder = public secret_key,
            br_outputs = outputs, br_signature_r = replicate 32 0, br_signature_s = replicate 32 0\<rparr>;
          sig_bytes = sign secret_key (result_to_sign_data result)
      in result\<lparr>br_signature_r := take 32 sig_bytes, br_signature_s := drop 32 sig_bytes\<rparr>)"

definition verify_build_result :: "(hash32 \<Rightarrow> bool) \<Rightarrow> (hash32 \<Rightarrow> byte list \<Rightarrow> byte list \<Rightarrow> bool) \<Rightarrow>
    build_result \<Rightarrow> bool" where
  "verify_build_result valid_id verify r =
     (if valid_id (br_builder r)
      then verify (br_builder r) (result_to_sign_data r) (br_signature_r r @ br_signature_s r)
      else False)"

lemma sign_data_unsigned [simp]:
  "result_to_sign_data (r\<lparr>br_signature_r := a, br_signature_s := b\<rparr>) = result_to_sign_data r"
  by (simp add: result_to_sign_data_def)

text \<open>The sizes the array types of the code give.\<close>

definition output_sized :: "build_output \<Rightarrow> bool" where
  "output_sized out \<longleftrightarrow> length (bo_blake3 out) = 32 \<and> length (bo_sha256 out) = 32"

definition result_sized :: "build_result \<Rightarrow> bool" where
  "result_sized r \<longleftrightarrow> length (br_drv_hash r) = 32 \<and> length (br_builder r) = 32 \<and>
     length (br_signature_r r) = 32 \<and> length (br_signature_s r) = 32 \<and> list_all output_sized (br_outputs r)"

lemma output_data_inject:
  assumes "output_sized a" "output_sized b" "length (bo_store_path a) = length (bo_store_path b)"
    and "output_data a @ s = output_data b @ t"
  shows "a = b \<and> s = t"
proof -
  have "bo_store_path a = bo_store_path b" "bo_blake3 a = bo_blake3 b" "bo_sha256 a = bo_sha256 b"
    "u64_le (bo_nar_size a) = u64_le (bo_nar_size b)" "s = t"
    using assms by (simp_all add: output_data_def output_sized_def append_eq_append_conv)
  then show ?thesis by (simp add: build_output.equality)
qed

lemma outputs_data_inject:
  assumes "list_all output_sized os" "list_all output_sized ps"
    and "map (\<lambda>out. length (bo_store_path out)) os = map (\<lambda>out. length (bo_store_path out)) ps"
    and "concat (map output_data os) = concat (map output_data ps)"
  shows "os = ps"
  using assms
proof (induction os arbitrary: ps)
  case (Cons a os)
  then obtain b ps' where ps: "ps = b # ps'" by (cases ps) auto
  with Cons.prems have "a = b \<and> concat (map output_data os) = concat (map output_data ps')"
    by (intro output_data_inject) simp_all
  with Cons ps show ?case by simp
qed simp

section \<open>Properties of signed results\<close>

text \<open>
  A result signed with a key verifies, provided the signature library verifies what it
  signs and accepts the key's own public bytes; signing leaves the job, the hash and the
  outputs as given and names the key's public id as the builder.
\<close>

theorem sign_verify:
  assumes "\<And>d. length (sign sk d) = 64" "valid_id (public sk)" "\<And>d. verify (public sk) d (sign sk d)"
  shows "verify_build_result valid_id verify (sign_build_result public sign sk jid h outs) \<and>
    br_job_id (sign_build_result public sign sk jid h outs) = jid \<and>
    br_drv_hash (sign_build_result public sign sk jid h outs) = h \<and>
    br_outputs (sign_build_result public sign sk jid h outs) = outs \<and>
    br_builder (sign_build_result public sign sk jid h outs) = public sk \<and>
    length (br_signature_r (sign_build_result public sign sk jid h outs)) = 32 \<and>
    length (br_signature_s (sign_build_result public sign sk jid h outs)) = 32"
  using assms by (simp add: verify_build_result_def sign_build_result_def Let_def result_to_sign_data_def)

theorem sign_verify_witness:
  "verify_build_result (\<lambda>k. length k = 32) (\<lambda>k d s. s = k @ replicate 32 (foldr (+) d 0))
     (sign_build_result (\<lambda>k. k) (\<lambda>k d. k @ replicate 32 (foldr (+) d 0)) (replicate 32 5) 1 (replicate 32 0) [])"
  using sign_verify [of "\<lambda>k d. k @ replicate 32 (foldr (+) d 0)" "replicate 32 5" "\<lambda>k. length k = 32" "\<lambda>k. k"
    "\<lambda>k d s. s = k @ replicate 32 (foldr (+) d 0)" 1 "replicate 32 0" "[]"] by simp

text \<open>
  Two results whose outputs have store paths of the same lengths are signed as different
  data unless they agree in everything but the signature.
\<close>

theorem sign_data_injective:
  assumes "result_sized r" "result_sized r'"
    and "map (\<lambda>out. length (bo_store_path out)) (br_outputs r) = map (\<lambda>out. length (bo_store_path out)) (br_outputs r')"
    and "result_to_sign_data r = result_to_sign_data r'"
  shows "br_job_id r = br_job_id r' \<and> br_drv_hash r = br_drv_hash r' \<and> br_builder r = br_builder r' \<and>
    br_outputs r = br_outputs r'"
proof -
  have "u64_le (br_job_id r) = u64_le (br_job_id r')" "br_drv_hash r = br_drv_hash r'"
    "br_builder r = br_builder r'"
    "concat (map output_data (br_outputs r)) = concat (map output_data (br_outputs r'))"
    using assms by (simp_all add: result_to_sign_data_def result_sized_def append_eq_append_conv)
  moreover from this(4) assms have "br_outputs r = br_outputs r'"
    by (intro outputs_data_inject) (simp_all add: result_sized_def)
  ultimately show ?thesis by simp
qed

definition letters :: "nat \<Rightarrow> byte list" where
  "letters n = replicate n 0x61"

definition sample_result :: "build_output list \<Rightarrow> build_result" where
  "sample_result outs = \<lparr>br_job_id = 1, br_drv_hash = letters 32, br_builder = letters 32,
     br_outputs = outs, br_signature_r = letters 32, br_signature_s = letters 32\<rparr>"

definition sample_output :: "nat \<Rightarrow> build_output" where
  "sample_output n = \<lparr>bo_store_path = of_bytes (letters n), bo_blake3 = letters 32, bo_sha256 = letters 32,
     bo_nar_size = 0x6161616161616161\<rparr>"

theorem sign_data_injective_witness:
  "br_outputs (sample_result [sample_output 9]) = br_outputs (sample_result [sample_output 9])"
  using sign_data_injective [of "sample_result [sample_output 9]" "sample_result [sample_output 9]"]
  by (simp add: sample_result_def sample_output_def result_sized_def output_sized_def letters_def)

lemma letters_append: "letters m @ letters n = letters (m + n)"
  by (simp add: letters_def replicate_add)

lemma letters_u64: "u64_le 0x6161616161616161 = letters 8"
  by code_simp

lemma sample_output_data: "output_data (sample_output n) = letters (n + 72)"
  by (simp add: output_data_def sample_output_def letters_u64 letters_append)

text \<open>
  The signed data has no separators: there are two results of the code's shapes, with
  different outputs, that are signed as the same data, so a signature of the one is accepted
  for the other.
\<close>

theorem sign_data_ambiguous:
  "\<exists>r r'. result_sized r \<and> result_sized r' \<and> br_outputs r \<noteq> br_outputs r' \<and>
     result_to_sign_data r = result_to_sign_data r' \<and>
     (\<forall>valid_id verify. verify_build_result valid_id verify r = verify_build_result valid_id verify r')"
proof (intro exI conjI allI)
  let ?r = "sample_result [sample_output 81]"
  let ?r' = "sample_result [sample_output 4, sample_output 5]"
  show "result_sized ?r" "result_sized ?r'" "br_outputs ?r \<noteq> br_outputs ?r'"
    by (simp_all add: sample_result_def sample_output_def result_sized_def output_sized_def letters_def)
  show same: "result_to_sign_data ?r = result_to_sign_data ?r'"
    by (simp add: result_to_sign_data_def sample_result_def sample_output_data letters_append)
  show "verify_build_result valid_id verify ?r = verify_build_result valid_id verify ?r'" for valid_id verify
    using same by (simp add: verify_build_result_def sample_result_def)
qed

end
