(* ===== verification/Build_Exec.thy ===== *)
theory Build_Exec
  imports Build_Queue Nix_Info
begin

text \<open>
  The builder's execution of a derivation with \<open>nix-store --realise\<close> (\<open>build.rs\<close>), in its two
  variants: one collects the output of the process, the other reads it line by line and passes
  every line to the log. The process and the lossy text conversion are parameters.
\<close>

definition realise_command :: "string \<Rightarrow> string list" where
  "realise_command drv_path = [''nix-store'', ''--realise'', ''--option'', ''build-hook'', '''', drv_path]"

definition output_paths :: "string list \<Rightarrow> string list" where
  "output_paths ls = filter (\<lambda>l. starts_with l ''/nix/store/'') ls"

definition execute_build :: "(string list \<Rightarrow> process_answer) \<Rightarrow> (byte list \<Rightarrow> string) \<Rightarrow> string \<Rightarrow>
    string list result" where
  "execute_build run lossy drv_path =
     (case run (realise_command drv_path) of
        Inl e \<Rightarrow> throw (Build (''failed to run nix-store: '' @ e))
      | Inr (success, out, err) \<Rightarrow>
          if \<not> success then throw (Build (lossy err))
          else Inr (output_paths (lines (lossy out))))"

record build_log_line =
  bl_job_id :: u64
  bl_data :: "byte list"
  bl_stream :: byte

text \<open>The exit status: the error of waiting, or the code (None when a signal ended the process).\<close>

type_synonym child = "byte list \<times> byte list \<times> (string + int option)"

definition show_int :: "int \<Rightarrow> string" where
  "show_int n = (if n < 0 then ''-'' @ show_nat (nat (- n)) else show_nat (nat n))"

definition show_code :: "int option \<Rightarrow> string" where
  "show_code code = (case code of None \<Rightarrow> ''None'' | Some n \<Rightarrow> ''Some('' @ show_int n @ '')'')"

text \<open>\<open>next_line\<close> on a pipe, until the end or the first line that is not UTF-8.\<close>

definition read_lines :: "byte list \<Rightarrow> string list" where
  "read_lines bs = takeWhile is_str (lines (of_bytes bs))"

definition log_of :: "u64 \<Rightarrow> byte \<Rightarrow> string list \<Rightarrow> build_log_line list" where
  "log_of jid stream ls = map (\<lambda>l. \<lparr>bl_job_id = jid, bl_data = as_bytes l, bl_stream = stream\<rparr>) ls"

text \<open>The result, and what the two reader tasks send to the log, each in its order.\<close>

definition execute_build_with_logs :: "(string list \<Rightarrow> string + child) \<Rightarrow> string \<Rightarrow> u64 \<Rightarrow>
    string list result \<times> build_log_line list \<times> build_log_line list" where
  "execute_build_with_logs spawn drv_path jid =
     (case spawn (realise_command drv_path) of
        Inl e \<Rightarrow> (throw (Build (''failed to spawn nix-store: '' @ e)), [], [])
      | Inr (out, err, wait) \<Rightarrow>
          ((case wait of
              Inl e \<Rightarrow> throw (Build (''failed to wait for nix-store: '' @ e))
            | Inr code \<Rightarrow>
                if code \<noteq> Some 0
                then throw (Build (''build failed with exit code: '' @ show_code code))
                else Inr (output_paths (read_lines out))),
           log_of jid 1 (read_lines out), log_of jid 2 (read_lines err)))"

section \<open>The two variants agree\<close>

lemma cont_high: "cont b \<Longrightarrow> \<not> b < 0x80"
  by (auto simp: cont_def)

text \<open>Valid UTF-8 as a sequence of characters of one to four bytes.\<close>

inductive utf8_text :: "byte list \<Rightarrow> bool" where
  nothing: "utf8_text []"
| one: "a < 0x80 \<Longrightarrow> utf8_text r \<Longrightarrow> utf8_text (a # r)"
| two: "\<not> a < 0x80 \<Longrightarrow> 0xC2 \<le> a \<and> a \<le> 0xDF \<Longrightarrow> cont b \<Longrightarrow> utf8_text r \<Longrightarrow> utf8_text (a # b # r)"
| three: "\<not> a < 0x80 \<Longrightarrow> \<not> (0xC2 \<le> a \<and> a \<le> 0xDF) \<Longrightarrow> 0xE0 \<le> a \<and> a \<le> 0xEF \<Longrightarrow> cont b \<and> cont c \<and>
    (a = 0xE0 \<longrightarrow> 0xA0 \<le> b) \<and> (a = 0xED \<longrightarrow> b \<le> 0x9F) \<Longrightarrow> utf8_text r \<Longrightarrow> utf8_text (a # b # c # r)"
| four: "\<not> a < 0x80 \<Longrightarrow> \<not> (0xC2 \<le> a \<and> a \<le> 0xDF) \<Longrightarrow> \<not> (0xE0 \<le> a \<and> a \<le> 0xEF) \<Longrightarrow> 0xF0 \<le> a \<and> a \<le> 0xF4 \<Longrightarrow>
    cont b \<and> cont c \<and> cont d \<and> (a = 0xF0 \<longrightarrow> 0x90 \<le> b) \<and> (a = 0xF4 \<longrightarrow> b \<le> 0x8F) \<Longrightarrow> utf8_text r \<Longrightarrow>
    utf8_text (a # b # c # d # r)"

lemma utf8_text_valid: "utf8_text s \<Longrightarrow> valid_utf8 s"
proof (induction rule: utf8_text.induct)
  case (three a b c r)
  show ?case
    by (subst valid_utf8.simps(2), subst if_not_P [OF three(1)], subst if_not_P [OF three(2)], subst if_P [OF three(3)])
       (use three(4,6) in simp)
next
  case (four a b c d r)
  show ?case
    by (subst valid_utf8.simps(2), subst if_not_P [OF four(1)], subst if_not_P [OF four(2)], subst if_not_P [OF four(3)],
        subst if_P [OF four(4)]) (use four(5,7) in simp)
qed simp_all

lemma valid_utf8_text: "valid_utf8 s \<Longrightarrow> utf8_text s"
proof (induction s rule: valid_utf8.induct)
  case 1
  show ?case by (rule nothing)
next
  case (2 a r)
  show ?case
  proof (cases "a < 0x80")
    case True
    with 2 show ?thesis by (simp add: one)
  next
    case c1: False
    show ?thesis
    proof (cases "0xC2 \<le> a \<and> a \<le> 0xDF")
      case True
      obtain b r' where "r = b # r'" "cont b" "valid_utf8 r'"
        using 2(5) c1 True by (cases r) simp_all
      with 2(2) c1 True show ?thesis by (simp add: two)
    next
      case c2: False
      show ?thesis
      proof (cases "0xE0 \<le> a \<and> a \<le> 0xEF")
        case True
        obtain b c r' where "r = b # c # r'" "cont b \<and> cont c \<and>
            (a = 0xE0 \<longrightarrow> 0xA0 \<le> b) \<and> (a = 0xED \<longrightarrow> b \<le> 0x9F)" "valid_utf8 r'"
          using 2(5) c1 c2 True by (cases r; cases "tl r") simp_all
        with 2(3) c1 c2 True show ?thesis by (simp add: three)
      next
        case c3: False
        then have c4: "0xF0 \<le> a \<and> a \<le> 0xF4"
          using 2(5) c1 c2 by (simp split: if_splits)
        obtain b c d r' where "r = b # c # d # r'" "cont b \<and> cont c \<and> cont d \<and> (a = 0xF0 \<longrightarrow> 0x90 \<le> b) \<and>
            (a = 0xF4 \<longrightarrow> b \<le> 0x8F)" "valid_utf8 r'"
          using 2(5) c1 c2 c3 c4 by (cases r; cases "tl r"; cases "tl (tl r)") simp_all
        with 2(4) c1 c2 c3 c4 show ?thesis by (simp add: four)
      qed
    qed
  qed
qed

lemma utf8_text_split:
  "utf8_text s \<Longrightarrow> s = xs @ n # ys \<Longrightarrow> n < 0x80 \<Longrightarrow> utf8_text xs \<and> utf8_text ys"
  by (induction arbitrary: xs rule: utf8_text.induct)
     (auto simp: Cons_eq_append_conv dest: cont_high intro: utf8_text.intros)

lemma utf8_text_append: "utf8_text xs \<Longrightarrow> utf8_text ys \<Longrightarrow> utf8_text (xs @ ys)"
  by (induction rule: utf8_text.induct) (auto intro: utf8_text.intros)

lemma valid_utf8_split:
  "n < 0x80 \<Longrightarrow> valid_utf8 (xs @ n # ys) \<longleftrightarrow> valid_utf8 xs \<and> valid_utf8 ys"
  by (meson utf8_text_split utf8_text_append utf8_text_valid valid_utf8_text one)

lemma byte_of_line_end: "byte_of (CHR 0x0A) < 0x80" "byte_of (CHR 0x0D) < 0x80"
  by (simp_all add: byte_of_less_128)

lemma is_str_split:
  "is_str (xs @ CHR 0x0A # ys) \<longleftrightarrow> is_str xs \<and> is_str ys" "is_str (xs @ CHR 0x0D # ys) \<longleftrightarrow> is_str xs \<and> is_str ys"
  by (simp_all add: is_str_def as_bytes_def valid_utf8_split byte_of_line_end)

lemma is_str_strip_cr: "is_str s \<Longrightarrow> is_str (strip_cr s)"
proof (cases "s \<noteq> [] \<and> last s = CHR 0x0D")
  case True
  then have "s = butlast s @ [CHR 0x0D]" by (metis append_butlast_last_id)
  then show "is_str s \<Longrightarrow> is_str (strip_cr s)"
    using is_str_split(2) [of "butlast s" "[]"] by (metis strip_cr_def)
qed (auto simp: strip_cr_def)

lemma is_str_lines_from: "is_str (cur @ s) \<Longrightarrow> list_all is_str (lines_from cur s)"
proof (induction s arbitrary: cur)
  case (Cons c cs)
  then show ?case
    using is_str_split(1) [of cur cs] Cons.IH [of "[]"] Cons.IH [of "cur @ [c]"] by (auto simp: is_str_strip_cr)
qed simp

lemma read_lines_valid: "valid_utf8 bs \<Longrightarrow> read_lines bs = lines (of_bytes bs)"
  using is_str_lines_from [of "[]" "of_bytes bs"]
  by (simp add: read_lines_def lines_def is_str_def takeWhile_eq_all_conv list_all_iff)

lemma log_of_data: "map (of_bytes \<circ> bl_data) (log_of jid stream ls) = ls"
  by (simp add: log_of_def o_def)

text \<open>
  On a process that writes valid UTF-8 the two variants agree: both succeed exactly when the
  exit code is 0, with the same output paths, and the log gets every line of the output once,
  in order.
\<close>

theorem build_variants_agree:
  assumes "valid_utf8 out" "lossy out = of_bytes out"
    and "run (realise_command drv) = Inr (code = Some 0, out, err)"
    and "spawn (realise_command drv) = Inr (out, err, Inr code)"
  shows "is_ok (execute_build run lossy drv) = (code = Some 0) \<and>
    is_ok (fst (execute_build_with_logs spawn drv jid)) = (code = Some 0) \<and>
    (code = Some 0 \<longrightarrow> fst (execute_build_with_logs spawn drv jid) = execute_build run lossy drv) \<and>
    map (of_bytes \<circ> bl_data) (fst (snd (execute_build_with_logs spawn drv jid))) = lines (of_bytes out)"
  using assms by (simp add: execute_build_def execute_build_with_logs_def read_lines_valid log_of_data)

definition sample_stdout :: "byte list" where
  "sample_stdout = as_bytes (''warning'' @ [CHR 0x0A] @ ''/nix/store/x-out'' @ [CHR 0x0A])"

theorem build_variants_agree_witness:
  "fst (execute_build_with_logs (\<lambda>_. Inr (sample_stdout, [], Inr (Some 0))) ''/nix/store/x.drv'' 1) =
     execute_build (\<lambda>_. Inr (True, sample_stdout, [])) of_bytes ''/nix/store/x.drv'' \<and>
   is_ok (execute_build (\<lambda>_. Inr (True, sample_stdout, [])) of_bytes ''/nix/store/x.drv'')"
proof -
  have "valid_utf8 sample_stdout" by code_simp
  from build_variants_agree [OF this, of of_bytes "\<lambda>_. Inr (True, sample_stdout, [])" "''/nix/store/x.drv''" "Some 0" "[]"
      "\<lambda>_. Inr (sample_stdout, [], Inr (Some 0))" 1]
  show ?thesis by simp
qed

end
