(* ===== verification/Builder_Worker.thy ===== *)
theory Builder_Worker
  imports Builder_Requests Build_Result Build_Exec Gossip Nar_Transfer
begin

text \<open>
  The builder's side of the build-queue protocol (\<open>builder.rs\<close>): a worker that connects to the
  requesters gossip knows, pulls jobs, fetches their dependencies, builds, indexes and signs the
  outputs and reports. The two directions of a connection are \<open>send\<close> and \<open>recv\<close> on a link
  state; the two helpers that frame messages on a stream are one instance. The clock, the
  network, the processes, the files and the choices of \<open>select!\<close> are fields of an environment.
\<close>

section \<open>The environment\<close>

record builder_config =
  bc_system_features :: "string list"
  bc_stream_logs :: bool

text \<open>What one turn of \<open>select!\<close> finds: the interval's tick, a status message, a log line.\<close>

datatype turn = Tick | StatusTurn | LogTurn build_log_line

text \<open>
  \<open>we_exists\<close> and \<open>we_restore\<close> may depend on the imports tried so far. A restore gives the error
  of starting \<open>nix-store\<close>, or the error of feeding or awaiting it, or its success and error text.
  \<open>we_turns\<close> are the turns of the loop until the build's cancellation is noticed.
\<close>

record 'k worker_env =
  we_config :: builder_config
  we_secret_key :: 'k
  we_public :: "'k \<Rightarrow> hash32"
  we_sign :: "'k \<Rightarrow> byte list \<Rightarrow> byte list"
  we_blake3 :: "byte list \<Rightarrow> hash32"
  we_sha256 :: "byte list \<Rightarrow> hash32"
  we_hex :: "byte list \<Rightarrow> string"
  we_lossy :: "byte list \<Rightarrow> string"
  we_encode_request :: "nar_request \<Rightarrow> string + byte list"
  we_decode_header :: "byte list \<Rightarrow> string + nar_response_header"
  we_peers :: "endpoint_id \<Rightarrow> hash32 \<Rightarrow> nat \<Rightarrow> remote"
  we_rnd :: "nat \<Rightarrow> real"
  we_exists :: "(string \<times> byte list) list \<Rightarrow> string \<Rightarrow> bool"
  we_restore :: "(string \<times> byte list) list \<Rightarrow> string \<Rightarrow> byte list \<Rightarrow> string + (io_error + (bool \<times> byte list))"
  we_query :: "string \<Rightarrow> nix_path_info result"
  we_poisoned :: bool
  we_sql :: "string option"
  we_run :: "string list \<Rightarrow> process_answer"
  we_spawn :: "string list \<Rightarrow> string + child"
  we_turns :: "u64 \<Rightarrow> string \<Rightarrow> turn list"
  we_node :: "string \<Rightarrow> fs_node"
  we_cancelled :: "nat \<Rightarrow> bool"
  we_clock :: "nat \<Rightarrow> nat"
  we_connect :: "endpoint_id \<Rightarrow> nat \<Rightarrow> string option"
  we_open_bi :: "endpoint_id \<Rightarrow> string option"

record 's worker =
  wk_link :: 's
  wk_index :: index_table
  wk_imports :: "(string \<times> byte list) list"

record job_context =
  jc_job_id :: u64
  jc_drv_hash :: drv_hash
  jc_drv_path :: string
  jc_input_paths :: "input_path_proto list"
  jc_requester_id :: endpoint_id
  jc_stream_logs :: bool

section \<open>Requests and responses\<close>

type_synonym 's sender = "build_queue_request \<Rightarrow> 's \<Rightarrow> unit result \<times> 's"
type_synonym 's receiver = "'s \<Rightarrow> build_queue_response result \<times> 's"

definition on_link :: "('s \<Rightarrow> 'a result \<times> 's) \<Rightarrow> 's worker \<Rightarrow> 'a result \<times> 's worker" where
  "on_link f w = (case f (wk_link w) of (res, s) \<Rightarrow> (res, w\<lparr>wk_link := s\<rparr>))"

definition exchange :: "'s sender \<Rightarrow> 's receiver \<Rightarrow> build_queue_request \<Rightarrow> 's worker \<Rightarrow>
    build_queue_response result \<times> 's worker" where
  "exchange send recv req w = st_bind (on_link (send req) w) (\<lambda>_. on_link recv)"

text \<open>A pair of streams as a link.\<close>

definition stream_send :: "(build_queue_request \<Rightarrow> string + byte list) \<Rightarrow> 'w put \<Rightarrow> ('w \<times> reader) sender" where
  "stream_send encode put req s = (case send_request encode put (fst s) req of
     Inl e \<Rightarrow> (Inl e, s) | Inr w \<Rightarrow> (Inr (), (w, snd s)))"

definition stream_recv :: "(byte list \<Rightarrow> string + build_queue_response) \<Rightarrow> ('w \<times> reader) receiver" where
  "stream_recv decode s = (case recv_response decode (snd s) of
     Inl e \<Rightarrow> (Inl e, s) | Inr (resp, r) \<Rightarrow> (Inr resp, (fst s, r)))"

section \<open>Dependencies\<close>

definition fetch_from_requester :: "'k worker_env \<Rightarrow> endpoint_id \<Rightarrow> hash32 \<Rightarrow> (nar_response_header \<times> byte list) result" where
  "fetch_from_requester env requester_id h =
     fst (fetch_nar_with_config (we_encode_request env) (we_decode_header env) (we_lossy env) (we_blake3 env)
       (we_hex env) (we_peers env requester_id h) h aggressive (we_rnd env) 0)"

definition import_nar :: "'k worker_env \<Rightarrow> string \<Rightarrow> byte list \<Rightarrow> 's worker \<Rightarrow> unit result \<times> 's worker" where
  "import_nar env store_path nar_data w =
     (let w1 = w\<lparr>wk_imports := wk_imports w @ [(store_path, nar_data)]\<rparr>
      in case we_restore env (wk_imports w) store_path nar_data of
           Inl e \<Rightarrow> (throw (Build (''failed to spawn nix-store: '' @ e)), w)
         | Inr (Inl (kind, e)) \<Rightarrow> (throw (Io kind e), w1)
         | Inr (Inr (success, stderr)) \<Rightarrow>
             if \<not> success
             then (throw (Build (''failed to import '' @ store_path @ '': '' @ we_lossy env stderr)), w1)
             else (Inr (), w1))"

text \<open>An index entry whose references and deriver are what Nix knows, or nothing.\<close>

definition queried_entry :: "'k worker_env \<Rightarrow> hash32 \<Rightarrow> hash32 \<Rightarrow> string \<Rightarrow> u64 \<Rightarrow> hash_entry result" where
  "queried_entry env blake3 sha256 store_path nar_size =
     (case we_query env store_path of
        Inl (Panic m) \<Rightarrow> panic m
      | Inl (Err _) \<Rightarrow> Inr \<lparr>he_blake3 = blake3, he_sha256 = sha256, he_store_path = store_path,
          he_nar_size = nar_size, he_references = [], he_deriver = None\<rparr>
      | Inr nix_info \<Rightarrow> Inr \<lparr>he_blake3 = blake3, he_sha256 = sha256, he_store_path = store_path,
          he_nar_size = nar_size, he_references = np_references nix_info, he_deriver = np_deriver nix_info\<rparr>)"

definition insert_entry :: "'k worker_env \<Rightarrow> hash_entry \<Rightarrow> 's worker \<Rightarrow> unit result \<times> 's worker" where
  "insert_entry env e w =
     (case lock_or_err (we_poisoned env) () of
        Inl err \<Rightarrow> (Inl err, w)
      | Inr _ \<Rightarrow> (case index_insert (we_sql env) e (wk_index w) of (res, t) \<Rightarrow> (res, w\<lparr>wk_index := t\<rparr>)))"

definition fetch_dependency :: "'k worker_env \<Rightarrow> endpoint_id \<Rightarrow> input_path_proto \<Rightarrow> 's worker \<Rightarrow>
    unit result \<times> 's worker" where
  "fetch_dependency env requester_id input w =
     (case fetch_from_requester env requester_id (pp_blake3 input) of
        Inl e \<Rightarrow> (Inl e, w)
      | Inr (header, nar_data) \<Rightarrow>
          st_bind (import_nar env (pp_store_path input) nar_data w) (\<lambda>_ w1.
          case queried_entry env (pp_blake3 input) (nh_sha256 header) (pp_store_path input) (nh_size header) of
            Inl e \<Rightarrow> (Inl e, w1)
          | Inr entry \<Rightarrow> insert_entry env entry w1))"

fun fetch_each :: "'k worker_env \<Rightarrow> endpoint_id \<Rightarrow> input_path_proto list \<Rightarrow> 's worker \<Rightarrow> unit result \<times> 's worker" where
  "fetch_each env requester_id [] w = (Inr (), w)"
| "fetch_each env requester_id (input # inputs) w =
     st_bind (fetch_dependency env requester_id input w) (\<lambda>_. fetch_each env requester_id inputs)"

definition fetch_dependencies :: "'k worker_env \<Rightarrow> endpoint_id \<Rightarrow> input_path_proto list \<Rightarrow> 's worker \<Rightarrow>
    unit result \<times> 's worker" where
  "fetch_dependencies env requester_id input_paths w =
     fetch_each env requester_id
       (filter (\<lambda>ip. \<not> we_exists env (wk_imports w) (pp_store_path ip)) input_paths) w"

section \<open>One job\<close>

text \<open>The loop that runs beside the build; a status message sets what the next heartbeat says.\<close>

fun heartbeat_loop :: "'s sender \<Rightarrow> 's receiver \<Rightarrow> u64 \<Rightarrow> turn list \<Rightarrow> string \<Rightarrow> 's worker \<Rightarrow>
    unit result \<times> 's worker" where
  "heartbeat_loop send recv jid [] status w = (Inr (), w)"
| "heartbeat_loop send recv jid (Tick # ts) status w =
     st_bind (exchange send recv (Heartbeat jid status) w) (\<lambda>_. heartbeat_loop send recv jid ts status)"
| "heartbeat_loop send recv jid (StatusTurn # ts) status w = heartbeat_loop send recv jid ts ''building'' w"
| "heartbeat_loop send recv jid (LogTurn l # ts) status w =
     st_bind (exchange send recv (BuildLog (bl_job_id l) (bl_data l) (bl_stream l)) w)
       (\<lambda>_. heartbeat_loop send recv jid ts status)"

definition build_task :: "'k worker_env \<Rightarrow> job_context \<Rightarrow> string list result" where
  "build_task env ctx =
     (if jc_stream_logs ctx then fst (execute_build_with_logs (we_spawn env) (jc_drv_path ctx) (jc_job_id ctx))
      else execute_build (we_run env) (we_lossy env) (jc_drv_path ctx))"

definition index_output :: "'k worker_env \<Rightarrow> string \<Rightarrow> 's worker \<Rightarrow> build_output result \<times> 's worker" where
  "index_output env output_path w =
     (case serialize_path_to_writer (we_sha256 env) (we_blake3 env) 0 vec_write output_path
             (we_node env output_path) [] of
        Inl e \<Rightarrow> (Inl e, w)
      | Inr info \<Rightarrow>
          (case queried_entry env (na_blake3 info) (na_sha256 info) output_path (na_nar_size info) of
             Inl e \<Rightarrow> (Inl e, w)
           | Inr entry \<Rightarrow>
               st_bind (insert_entry env entry w) (\<lambda>_ w1.
               (Inr \<lparr>bo_store_path = output_path, bo_blake3 = na_blake3 info, bo_sha256 = na_sha256 info,
                     bo_nar_size = na_nar_size info\<rparr>, w1))))"

fun index_outputs :: "'k worker_env \<Rightarrow> string list \<Rightarrow> 's worker \<Rightarrow> build_output list result \<times> 's worker" where
  "index_outputs env [] w = (Inr [], w)"
| "index_outputs env (p # ps) w =
     st_bind (index_output env p w) (\<lambda>b w1.
     st_bind (index_outputs env ps w1) (\<lambda>bs w2. (Inr (b # bs), w2)))"

definition to_proto :: "build_output \<Rightarrow> build_output_proto" where
  "to_proto b = \<lparr>op_store_path = bo_store_path b, op_blake3 = bo_blake3 b, op_sha256 = bo_sha256 b,
     op_nar_size = bo_nar_size b\<rparr>"

definition complete_request :: "'k worker_env \<Rightarrow> job_context \<Rightarrow> build_output list \<Rightarrow> build_queue_request" where
  "complete_request env ctx build_outputs =
     (let result = sign_build_result (we_public env) (we_sign env) (we_secret_key env) (jc_job_id ctx)
            (jc_drv_hash ctx) build_outputs
      in Complete (jc_job_id ctx) (map to_proto (br_outputs result)) (br_signature_r result) (br_signature_s result))"

definition completion_reply :: "build_queue_response \<Rightarrow> unit result" where
  "completion_reply response = (case response of
     CompleteAck \<Rightarrow> Inr ()
   | ResponseError message \<Rightarrow> throw (Protocol (''completion rejected: '' @ message))
   | _ \<Rightarrow> throw (Protocol ''unexpected response to Complete''))"

definition fetch_phase :: "'k worker_env \<Rightarrow> 's sender \<Rightarrow> 's receiver \<Rightarrow> job_context \<Rightarrow> 's worker \<Rightarrow>
    unit result \<times> 's worker" where
  "fetch_phase env send recv ctx w =
     (if jc_input_paths ctx = [] then (Inr (), w)
      else st_bind (exchange send recv (Heartbeat (jc_job_id ctx) ''fetching dependencies'') w) (\<lambda>_.
           fetch_dependencies env (jc_requester_id ctx) (jc_input_paths ctx)))"

definition execute_job_with_heartbeat :: "'k worker_env \<Rightarrow> 's sender \<Rightarrow> 's receiver \<Rightarrow> job_context \<Rightarrow> 's worker \<Rightarrow>
    unit result \<times> 's worker" where
  "execute_job_with_heartbeat env send recv ctx w =
     st_bind (fetch_phase env send recv ctx w) (\<lambda>_ w1.
     st_bind (heartbeat_loop send recv (jc_job_id ctx) (we_turns env (jc_job_id ctx) (jc_drv_path ctx)) ''starting'' w1) (\<lambda>_ w2.
     case build_task env ctx of
       Inl e \<Rightarrow> (Inl e, w2)
     | Inr paths \<Rightarrow>
         st_bind (index_outputs env paths w2) (\<lambda>build_outputs w3.
         st_bind (exchange send recv (complete_request env ctx build_outputs) w3) (\<lambda>response w4.
         (completion_reply response, w4)))))"

section \<open>The connection\<close>

text \<open>A failed job is reported; what becomes of the report is ignored, a panic is not.\<close>

definition ignored :: "'a result \<times> 's \<Rightarrow> unit result \<times> 's" where
  "ignored m = (case m of (Inl (Panic p), s) \<Rightarrow> (panic p, s) | (_, s) \<Rightarrow> (Inr (), s))"

definition run_job :: "'k worker_env \<Rightarrow> 's sender \<Rightarrow> 's receiver \<Rightarrow> job_context \<Rightarrow> 's worker \<Rightarrow>
    unit result \<times> 's worker" where
  "run_job env send recv ctx w =
     (case execute_job_with_heartbeat env send recv ctx w of
        (Inr _, w1) \<Rightarrow> (Inr (), w1)
      | (Inl (Panic m), w1) \<Rightarrow> (panic m, w1)
      | (Inl (Err e), w1) \<Rightarrow>
          st_bind (ignored (on_link (send (Fail (jc_job_id ctx) (error_to_string e))) w1)) (\<lambda>_ w2.
          ignored (on_link recv w2)))"

text \<open>
  The loop over the jobs; \<open>k\<close> counts its turns, \<open>idle_start\<close> is when the last job came. It may
  go on for ever, then its value is None.
\<close>

partial_function (option) work_loop :: "'k worker_env \<Rightarrow> 's sender \<Rightarrow> 's receiver \<Rightarrow> endpoint_id \<Rightarrow> nat \<Rightarrow> nat \<Rightarrow>
    's worker \<Rightarrow> (unit result \<times> 's worker) option" where
  "work_loop env send recv requester_id k idle_start w =
     (if we_cancelled env k then Some (Inr (), w)
      else case exchange send recv (Pull (bc_system_features (we_config env)) (bc_stream_logs (we_config env))) w of
        (Inl e, w1) \<Rightarrow> Some (Inl e, w1)
      | (Inr response, w1) \<Rightarrow>
          (case response of
             Job jid drv_hash drv_path _ input_paths \<Rightarrow>
               (case run_job env send recv \<lparr>jc_job_id = jid, jc_drv_hash = drv_hash, jc_drv_path = drv_path,
                       jc_input_paths = input_paths, jc_requester_id = requester_id,
                       jc_stream_logs = bc_stream_logs (we_config env)\<rparr> w1 of
                  (Inl e, w2) \<Rightarrow> Some (Inl e, w2)
                | (Inr _, w2) \<Rightarrow> work_loop env send recv requester_id (k + 1) (we_clock env k) w2)
           | NoJob \<Rightarrow>
               if we_clock env k - idle_start > BUILDER_IDLE_TIMEOUT then Some (Inr (), w1)
               else work_loop env send recv requester_id (k + 1) idle_start w1
           | _ \<Rightarrow> Some (Inr (), w1)))"

definition connect_and_work :: "'k worker_env \<Rightarrow> 's sender \<Rightarrow> 's receiver \<Rightarrow> endpoint_id \<Rightarrow> nat \<Rightarrow> 's worker \<Rightarrow>
    (unit result \<times> 's worker) option" where
  "connect_and_work env send recv requester_id now w =
     (case with_retry patient (we_rnd env)
             (\<lambda>n. (case we_connect env requester_id n of
                     Some e \<Rightarrow> throw (Connection (''failed to connect to requester: '' @ e))
                   | None \<Rightarrow> Inr (), n + 1)) 0 of
        (Inl e, _) \<Rightarrow> Some (Inl e, w)
      | (Inr _, _) \<Rightarrow>
          (case we_open_bi env requester_id of
             Some e \<Rightarrow> Some (throw (Protocol (''failed to open bi stream: '' @ e)), w)
           | None \<Rightarrow> work_loop env send recv requester_id 0 now w))"

text \<open>
  The worker's outer loop, one turn per list element until the cancellation: the gossip service
  as it is at that turn, and for each requester the link a connection to it gets. Errors of a
  connection are logged only.
\<close>

fun visit_requesters :: "'k worker_env \<Rightarrow> (endpoint_id \<Rightarrow> 's sender) \<Rightarrow> (endpoint_id \<Rightarrow> 's receiver) \<Rightarrow> nat \<Rightarrow>
    requester_info list \<Rightarrow> 's worker \<Rightarrow> (unit result \<times> 's worker) option" where
  "visit_requesters env send recv now [] w = Some (Inr (), w)"
| "visit_requesters env send recv now (r # rs) w =
     Option.bind (connect_and_work env (send (ri_endpoint_id r)) (recv (ri_endpoint_id r)) (ri_endpoint_id r) now w)
       (\<lambda>(res, w1). case res of
          Inl (Panic m) \<Rightarrow> Some (panic m, w1)
        | _ \<Rightarrow> visit_requesters env send recv now rs w1)"

fun run_worker :: "'k worker_env \<Rightarrow> (endpoint_id \<Rightarrow> 's sender) \<Rightarrow> (endpoint_id \<Rightarrow> 's receiver) \<Rightarrow>
    (nat \<times> gossip_service) list \<Rightarrow> 's worker \<Rightarrow> (unit result \<times> 's worker) option" where
  "run_worker env send recv [] w = Some (Inr (), w)"
| "run_worker env send recv ((now, gossip) # turns) w =
     Option.bind (visit_requesters env send recv now
         (get_matching_requesters (bc_system_features (we_config env)) gossip) w)
       (\<lambda>(res, w1). case res of Inl e \<Rightarrow> Some (Inl e, w1) | Inr _ \<Rightarrow> run_worker env send recv turns w1)"

section \<open>Dependencies are what was asked for\<close>

lemma fetch_from_requester_ok:
  assumes "fetch_from_requester env requester_id h = Inr (header, data)"
  shows "we_blake3 env data = h"
proof -
  obtain n where "with_retry aggressive (we_rnd env)
      (\<lambda>k. (fetch_nar_once (we_encode_request env) (we_decode_header env) (we_lossy env) (we_blake3 env) (we_hex env)
        (we_peers env requester_id h k) h, k + 1)) 0 = (Inr (header, data), n)"
    using assms by (auto simp: fetch_from_requester_def fetch_nar_with_config_def fst_def split: prod.splits)
  from with_retry_result [OF this] obtain k where
    "fetch_nar_once (we_encode_request env) (we_decode_header env) (we_lossy env) (we_blake3 env) (we_hex env)
      (we_peers env requester_id h k) h = Inr (header, data)"
    by (auto simp: result_at_def)
  then have "\<exists>r. read_response (we_decode_header env) (we_lossy env) (we_blake3 env) (we_hex env)
      (rm_pick (we_peers env requester_id h k)) h r = Inr (header, data)"
    by (auto simp: fetch_nar_once_def split: option.splits sum.splits prod.splits)
  then show ?thesis
    using read_response_ok by blast
qed

lemma import_nar_imports:
  "import_nar env p d w = (res, w') \<Longrightarrow> wk_imports w' = wk_imports w @ (if res = Inr () \<or> wk_imports w' \<noteq> wk_imports w then [(p, d)] else [])"
  by (auto simp: import_nar_def Let_def split: sum.splits prod.splits if_splits)

lemma insert_entry_imports [simp]: "wk_imports (snd (insert_entry env e w)) = wk_imports w"
  by (simp add: insert_entry_def split: sum.split prod.split)

text \<open>An import that one dependency may cause.\<close>

definition import_of :: "'k worker_env \<Rightarrow> input_path_proto \<Rightarrow> string \<times> byte list \<Rightarrow> bool" where
  "import_of env ip i \<longleftrightarrow> fst i = pp_store_path ip \<and> we_blake3 env (snd i) = pp_blake3 ip"

lemma fetch_dependency_imports:
  assumes "fetch_dependency env r ip w = (res, w')"
  shows "\<exists>news. wk_imports w' = wk_imports w @ news \<and> list_all (import_of env ip) news"
proof (cases "fetch_from_requester env r (pp_blake3 ip)")
  case (Inl e)
  with assms show ?thesis by (simp add: fetch_dependency_def)
next
  case (Inr hd)
  then obtain header d where f: "fetch_from_requester env r (pp_blake3 ip) = Inr (header, d)" by (cases hd) auto
  obtain res1 w1 where i: "import_nar env (pp_store_path ip) d w = (res1, w1)" by fastforce
  have "wk_imports w' = wk_imports w1"
    using assms f i by (cases res1) (auto simp: fetch_dependency_def st_bind_def split: sum.splits dest: arg_cong [of _ _ "wk_imports \<circ> snd"])
  then show ?thesis
    using import_nar_imports [OF i] fetch_from_requester_ok [OF f] by (auto simp: import_of_def split: if_splits)
qed

lemma fetch_each_imports:
  assumes "fetch_each env r ips w = (res, w')"
  shows "\<exists>news. wk_imports w' = wk_imports w @ news \<and> list_all (\<lambda>i. list_ex (\<lambda>ip. import_of env ip i) ips) news"
  using assms
proof (induction ips arbitrary: w)
  case (Cons ip ips)
  obtain res1 w1 where 1: "fetch_dependency env r ip w = (res1, w1)" by fastforce
  from fetch_dependency_imports [OF 1] obtain news where
    n: "wk_imports w1 = wk_imports w @ news" "list_all (import_of env ip) news" by blast
  show ?case
  proof (cases res1)
    case (Inl e)
    with Cons.prems 1 n show ?thesis by (auto simp: st_bind_def list_all_iff)
  next
    case (Inr u)
    with Cons.prems 1 have "fetch_each env r ips w1 = (res, w')" by simp
    from Cons.IH [OF this] n show ?thesis by (fastforce simp: list_all_iff)
  qed
qed simp

text \<open>
  C26: What a builder imports for a job are NARs with the BLAKE3 hashes the requester's job
  names, each under the store path it is named for, and only for paths the builder did not
  have; this holds whatever the peer sends and also when fetching stops half-way.
\<close>

theorem dependencies_authentic:
  assumes "fetch_dependencies env requester_id inputs w = (res, w')"
  shows "\<exists>news. wk_imports w' = wk_imports w @ news \<and>
    list_all (\<lambda>(p, d). \<not> we_exists env (wk_imports w) p \<and>
      list_ex (\<lambda>ip. pp_store_path ip = p \<and> we_blake3 env d = pp_blake3 ip) inputs) news"
proof -
  from fetch_each_imports [OF assms [unfolded fetch_dependencies_def]] obtain news where
    "wk_imports w' = wk_imports w @ news"
    "list_all (\<lambda>i. list_ex (\<lambda>ip. import_of env ip i)
      (filter (\<lambda>ip. \<not> we_exists env (wk_imports w) (pp_store_path ip)) inputs)) news" by blast
  then show ?thesis
    by (intro exI [of _ news]) (fastforce simp: list_all_iff list_ex_iff import_of_def)
qed

text \<open>A builder whose requester is the sample node of the transfer, on a machine without the input.\<close>

definition sample_worker_env :: "hash32 worker_env" where
  "sample_worker_env = \<lparr>we_config = \<lparr>bc_system_features = [''x86_64-linux''], bc_stream_logs = False\<rparr>,
     we_secret_key = replicate 32 5, we_public = (\<lambda>k. k), we_sign = (\<lambda>k d. k @ replicate 32 (foldr (+) d 0)),
     we_blake3 = toy_hash, we_sha256 = toy_hash, we_hex = (\<lambda>_. []), we_lossy = of_bytes,
     we_encode_request = plain_request, we_decode_header = plain_header_back,
     we_peers = (\<lambda>_ _ _. serve_remote sample_env (snd (index_insert None sample_held [])) (\<lambda>n. n div 2)),
     we_rnd = (\<lambda>_. 0), we_exists = (\<lambda>imports p. p \<in> set (map fst imports)),
     we_restore = (\<lambda>_ _ _. Inr (Inr (True, []))), we_query = (\<lambda>p. throw (StorePathNotFound p)),
     we_poisoned = False, we_sql = None, we_run = (\<lambda>_. Inr (True, sample_stdout, [])),
     we_spawn = (\<lambda>_. Inr (sample_stdout, [], Inr (Some 0))), we_turns = (\<lambda>_ _. [Tick, StatusTurn, Tick]),
     we_node = (\<lambda>_. FileNode 0x1A4 5 (Inr [Inr [104, 101], Inr [108, 108, 111]])), we_cancelled = (\<lambda>_. False),
     we_clock = (\<lambda>k. k * 10 ^ 10), we_connect = (\<lambda>_ _. None), we_open_bi = (\<lambda>_. None)\<rparr>"

definition sample_input :: input_path_proto where
  "sample_input = \<lparr>pp_store_path = ''/nix/store/x'', pp_blake3 = toy_hash sample_nar\<rparr>"

lemma sample_worker_simps [simp]:
  "we_blake3 sample_worker_env = toy_hash" "we_exists sample_worker_env i p \<longleftrightarrow> p \<in> set (map fst i)"
  "we_restore sample_worker_env i p d = Inr (Inr (True, []))" "we_query sample_worker_env p = throw (StorePathNotFound p)"
  "we_poisoned sample_worker_env = False" "we_sql sample_worker_env = None"
  by (simp_all add: sample_worker_env_def)

lemma sample_fetches: "fetch_from_requester sample_worker_env r (toy_hash sample_nar) = Inr (sample_header, sample_nar)"
  unfolding fetch_from_requester_def by (simp add: sample_worker_env_def sample_fetch_any)

theorem dependencies_authentic_witness:
  "\<exists>res w' news. fetch_dependencies sample_worker_env [1] [sample_input] \<lparr>wk_link = (), wk_index = [], wk_imports = []\<rparr> = (res, w') \<and>
     wk_imports w' = news \<and> news \<noteq> [] \<and> list_all (\<lambda>(p, d). toy_hash d = toy_hash sample_nar) news"
proof -
  let ?w = "\<lparr>wk_link = (), wk_index = [], wk_imports = []\<rparr> :: unit worker"
  obtain res w' where f: "fetch_dependencies sample_worker_env [1] [sample_input] ?w = (res, w')" by fastforce
  have "wk_imports w' = [(''/nix/store/x'', sample_nar)]"
    using f sample_fetches
    by (auto simp: fetch_dependencies_def fetch_dependency_def sample_input_def st_bind_def import_nar_def
        queried_entry_def insert_entry_def Let_def lock_or_err_def split: prod.splits sum.splits)
  with dependencies_authentic [OF f] f show ?thesis
    by (auto simp: sample_input_def)
qed

section \<open>A builder at work on a queue\<close>

text \<open>
  The builder linked to the requester's handler: a request is handled at once and its response
  is there to be received, which is what the connection loop does with framed messages.
\<close>

type_synonym queue_link = "nat \<times> build_queue \<times> build_queue_response list"

definition queue_send :: "(nat \<Rightarrow> nat) \<Rightarrow> endpoint_id \<Rightarrow> queue_link sender" where
  "queue_send clock b req s = (case s of (k, q, rs) \<Rightarrow>
     (case handle_build_queue_request (clock k) (clock (k + 1)) b req q of
        (resp, q') \<Rightarrow> (Inr (), (k + 2, q', rs @ [resp]))))"

definition queue_recv :: "queue_link receiver" where
  "queue_recv s = (case s of (k, q, rs) \<Rightarrow>
     (case rs of [] \<Rightarrow> (throw (Protocol ''failed to read response length: closed''), s)
      | r # rs' \<Rightarrow> (Inr r, (k, q, rs'))))"

lemma exchange_queue:
  assumes "wk_link w = (k, q, [])" "handle_build_queue_request (clock k) (clock (k + 1)) b req q = (resp, q')"
  shows "exchange (queue_send clock b) queue_recv req w = (Inr resp, w\<lparr>wk_link := (k + 2, q', [])\<rparr>)"
  using assms by (simp add: exchange_def on_link_def queue_send_def queue_recv_def)

text \<open>What heartbeats and log lines leave of the queue: all but time stamps and subscribers.\<close>

definition held_leases :: "build_queue \<Rightarrow> job_id \<Rightarrow> (build_job \<times> endpoint_id) option" where
  "held_leases q jid = map_option (\<lambda>l. (lj_job l, lj_builder l)) (hm_get jid (bq_leased q))"

definition quiet :: "build_queue \<Rightarrow> build_queue \<Rightarrow> bool" where
  "quiet q q' \<longleftrightarrow> bq_pending q' = bq_pending q \<and> bq_pending_fetch q' = bq_pending_fetch q \<and>
     bq_completed q' = bq_completed q \<and> (\<forall>jid. held_leases q' jid = held_leases q jid)"

lemma quiet_refl: "quiet q q"
  by (simp add: quiet_def)

lemma quiet_trans: "quiet q1 q2 \<Longrightarrow> quiet q2 q3 \<Longrightarrow> quiet q1 q3"
  by (simp add: quiet_def)

lemma quiet_heartbeat: "quiet q (snd (handle_build_queue_request t1 t2 b (Heartbeat jid st) q))"
  by (auto simp: heartbeat_def quiet_def held_leases_def option.map_comp o_def split: option.split if_splits)

lemma quiet_log: "quiet q (snd (handle_build_queue_request t1 t2 b (BuildLog jid d st) q))"
  by (simp add: quiet_def held_leases_def broadcast_log_def Let_def)

lemma heartbeat_loop_queue:
  assumes "wk_link w = (k, q, [])"
  shows "\<exists>k' q'. heartbeat_loop (queue_send clock b) queue_recv jid ts st w = (Inr (), w\<lparr>wk_link := (k', q', [])\<rparr>) \<and> quiet q q'"
  using assms
proof (induction ts arbitrary: st k q w)
  case Nil
  then have "w = w\<lparr>wk_link := (k, q, [])\<rparr>" by simp
  then show ?case using quiet_refl by (metis heartbeat_loop.simps(1))
next
  case (Cons t ts)
  have step: "\<exists>k' q'. st_bind (exchange (queue_send clock b) queue_recv req w)
        (\<lambda>_. heartbeat_loop (queue_send clock b) queue_recv jid ts st) = (Inr (), w\<lparr>wk_link := (k', q', [])\<rparr>) \<and> quiet q q'"
    if q1: "quiet q (snd (handle_build_queue_request (clock k) (clock (k + 1)) b req q))" for req st
  proof -
    obtain resp q1 where h: "handle_build_queue_request (clock k) (clock (k + 1)) b req q = (resp, q1)" by fastforce
    have "\<exists>k' q'. heartbeat_loop (queue_send clock b) queue_recv jid ts st (w\<lparr>wk_link := (k + 2, q1, [])\<rparr>) =
        (Inr (), w\<lparr>wk_link := (k', q', [])\<rparr>) \<and> quiet q1 q'"
      using Cons.IH [of "w\<lparr>wk_link := (k + 2, q1, [])\<rparr>" "k + 2" q1 st] by simp
    with q1 h exchange_queue [OF Cons.prems h] show ?thesis by (auto intro: quiet_trans)
  qed
  show ?case
  proof (cases t)
    case Tick
    then show ?thesis using step [OF quiet_heartbeat] by simp
  next
    case StatusTurn
    then show ?thesis using Cons by simp
  next
    case (LogTurn l)
    then show ?thesis using step [OF quiet_log] by simp
  qed
qed

section \<open>What a job should give\<close>

definition output_spec :: "'k worker_env \<Rightarrow> string \<Rightarrow> build_output option" where
  "output_spec env p = map_option (\<lambda>t. \<lparr>bo_store_path = p, bo_blake3 = we_blake3 env (nar_bytes t),
     bo_sha256 = we_sha256 env (nar_bytes t), bo_nar_size = of_nat (length (nar_bytes t))\<rparr>) (tree_of (we_node env p))"

definition context_of :: "'k worker_env \<Rightarrow> endpoint_id \<Rightarrow> build_job \<Rightarrow> job_context" where
  "context_of env requester_id j = \<lparr>jc_job_id = bj_id j, jc_drv_hash = bj_drv_hash j, jc_drv_path = bj_drv_path j,
     jc_input_paths = map (\<lambda>ip. \<lparr>pp_store_path = ip_store_path ip, pp_blake3 = ip_blake3 ip\<rparr>) (bj_input_paths j),
     jc_requester_id = requester_id, jc_stream_logs = bc_stream_logs (we_config env)\<rparr>"

text \<open>The outputs of a job whose build succeeds: the NARs of the paths \<open>nix-store\<close> prints.\<close>

definition job_outputs :: "'k worker_env \<Rightarrow> endpoint_id \<Rightarrow> build_job \<Rightarrow> build_output list option" where
  "job_outputs env r j = (case build_task env (context_of env r j) of
     Inl _ \<Rightarrow> None | Inr paths \<Rightarrow> those (map (output_spec env) paths))"

definition signed_result :: "'k worker_env \<Rightarrow> build_job \<Rightarrow> build_output list \<Rightarrow> build_result" where
  "signed_result env j outs = sign_build_result (we_public env) (we_sign env) (we_secret_key env) (bj_id j) (bj_drv_hash j) outs"

definition store_ok :: "'k worker_env \<Rightarrow> bool" where
  "store_ok env \<longleftrightarrow> \<not> we_poisoned env \<and> we_sql env = None \<and> (\<forall>p m. we_query env p \<noteq> panic m)"

lemma serialize_to_sink:
  "serialize_path_to_writer sha256 blake3 0 vec_write p node [] = rbind (serialize_path sha256 blake3 p node) (\<lambda>x. Inr (snd x))"
  by (simp add: serialize_path_to_writer_def serialize_path_def rbind_assoc)

lemma queried_entry_ok: "store_ok env \<Longrightarrow> \<exists>e. queried_entry env b s p n = Inr e"
  by (auto simp: queried_entry_def store_ok_def split: sum.split fault.split)

lemma insert_entry_ok: "store_ok env \<Longrightarrow> \<exists>t. insert_entry env e w = (Inr (), w\<lparr>wk_index := t\<rparr>)"
  by (auto simp: insert_entry_def store_ok_def lock_or_err_def index_insert_def split: prod.split)

lemma index_output_ok:
  assumes "store_ok env" "output_spec env p = Some out"
  shows "\<exists>t. index_output env p w = (Inr out, w\<lparr>wk_index := t\<rparr>)"
proof -
  from assms(2) obtain t where t: "tree_of (we_node env p) = Some t" and out: "out = \<lparr>bo_store_path = p,
      bo_blake3 = we_blake3 env (nar_bytes t), bo_sha256 = we_sha256 env (nar_bytes t), bo_nar_size = of_nat (length (nar_bytes t))\<rparr>"
    by (auto simp: output_spec_def)
  let ?info = "\<lparr>na_blake3 = we_blake3 env (nar_bytes t), na_sha256 = we_sha256 env (nar_bytes t),
    na_nar_size = of_nat (length (nar_bytes t))\<rparr>"
  have "serialize_path (we_sha256 env) (we_blake3 env) p (we_node env p) = Inr (nar_bytes t, ?info)"
    unfolding serialize_path_iff using t by blast
  moreover obtain e where "queried_entry env (na_blake3 ?info) (na_sha256 ?info) p (na_nar_size ?info) = Inr e"
    using queried_entry_ok [OF assms(1)] by blast
  moreover obtain t' where "insert_entry env e w = (Inr (), w\<lparr>wk_index := t'\<rparr>)"
    using insert_entry_ok [OF assms(1)] by blast
  ultimately show ?thesis by (intro exI [of _ t']) (simp add: index_output_def serialize_to_sink out)
qed

lemma index_outputs_ok:
  "store_ok env \<Longrightarrow> those (map (output_spec env) ps) = Some outs \<Longrightarrow>
     \<exists>t. index_outputs env ps w = (Inr outs, w\<lparr>wk_index := t\<rparr>)"
proof (induction ps arbitrary: outs w)
  case (Cons p ps)
  then obtain out outs' where o: "output_spec env p = Some out" "those (map (output_spec env) ps) = Some outs'" "outs = out # outs'"
    by (auto split: option.splits)
  obtain t where "index_output env p w = (Inr out, w\<lparr>wk_index := t\<rparr>)"
    using index_output_ok [OF Cons.prems(1) o(1)] by blast
  moreover obtain t' where "index_outputs env ps (w\<lparr>wk_index := t\<rparr>) = (Inr outs', w\<lparr>wk_index := t'\<rparr>)"
    using Cons.IH [OF Cons.prems(1) o(2), of "w\<lparr>wk_index := t\<rparr>"] by auto
  ultimately show ?case by (auto simp: o(3))
next
  case Nil
  then show ?case by (intro exI [of _ "wk_index w"]) simp
qed

lemma link_import [simp]: "wk_link (snd (import_nar env p d w)) = wk_link w"
  by (simp add: import_nar_def Let_def split: sum.split prod.split)

lemma link_insert [simp]: "wk_link (snd (insert_entry env e w)) = wk_link w"
  by (simp add: insert_entry_def split: sum.split prod.split)

lemma link_bind: "wk_link (snd m) = l \<Longrightarrow> (\<And>x w. wk_link w = l \<Longrightarrow> wk_link (snd (f x w)) = l) \<Longrightarrow> wk_link (snd (st_bind m f)) = l"
  by (cases m) (auto simp: st_bind_def split: sum.split)

lemma link_fetch: "wk_link (snd (fetch_dependency env r ip w)) = wk_link w"
  by (auto simp: fetch_dependency_def intro!: link_bind split: sum.split prod.split)

lemma link_fetch_each: "wk_link (snd (fetch_each env r ips w)) = wk_link w"
  by (induction ips arbitrary: w) (auto intro!: link_bind simp: link_fetch)

lemma link_fetch_dependencies [simp]: "wk_link (snd (fetch_dependencies env r ips w)) = wk_link w"
  by (simp add: fetch_dependencies_def link_fetch_each)

section \<open>A completed job\<close>

definition deps_ok :: "'k worker_env \<Rightarrow> endpoint_id \<Rightarrow> bool" where
  "deps_ok env r \<longleftrightarrow> (\<forall>ips (w :: queue_link worker). fst (fetch_dependencies env r ips w) = Inr ())"

lemma proto_roundtrip [simp]: "from_proto (to_proto b) = b"
  by (simp add: from_proto_def to_proto_def)

lemma fetch_phase_queue:
  assumes "deps_ok env (jc_requester_id ctx)" "wk_link w = (k, q, [])"
  shows "\<exists>w' k' q'. fetch_phase env (queue_send clock b) queue_recv ctx w = (Inr (), w') \<and>
    wk_link w' = (k', q', []) \<and> quiet q q'"
proof (cases "jc_input_paths ctx = []")
  case True
  then show ?thesis using assms(2) quiet_refl by (auto simp: fetch_phase_def)
next
  case False
  let ?hb = "Heartbeat (jc_job_id ctx) ''fetching dependencies''"
  obtain resp q1 where h: "handle_build_queue_request (clock k) (clock (k + 1)) b ?hb q = (resp, q1)" by fastforce
  let ?w = "w\<lparr>wk_link := (k + 2, q1, [])\<rparr>"
  obtain res w' where f: "fetch_dependencies env (jc_requester_id ctx) (jc_input_paths ctx) ?w = (res, w')" by fastforce
  then have "res = Inr ()" "wk_link w' = (k + 2, q1, [])"
    using assms(1) link_fetch_dependencies [of env "jc_requester_id ctx" "jc_input_paths ctx" ?w] unfolding deps_ok_def
    by (metis fst_conv, simp)
  moreover have "quiet q q1" using quiet_heartbeat h by (metis snd_conv)
  ultimately show ?thesis
    using False f exchange_queue [OF assms(2) h] by (simp add: fetch_phase_def)
qed

lemma complete_by_lessee:
  assumes "held_leases q jid = Some (j, b)"
    and "handle_build_queue_request t1 t2 b (Complete jid outs r s) q = (resp, q')"
  shows "resp = CompleteAck \<and> bq_pending q' = bq_pending q \<and> held_leases q' = (held_leases q)(jid := None) \<and>
    (\<exists>res. res = \<lparr>br_job_id = jid, br_drv_hash = bj_drv_hash j, br_builder = b, br_outputs = map from_proto outs,
       br_signature_r = r, br_signature_s = s\<rparr> \<and> bq_pending_fetch q' = bq_pending_fetch q @ [res] \<and>
       bq_completed q' = hm_insert (bj_drv_hash j) (job_outcome.Completed res) (bq_completed q))"
  using assms
  by (auto simp: held_leases_def fun_eq_iff find_key list_leased_def Build_Queue.complete_def complete_result_def Let_def)

text \<open>The job's result as the requester stores it.\<close>

lemma execute_job_queue:
  assumes "job_outputs env r j = Some outs" "store_ok env" "deps_ok env r"
    and "wk_link w = (k, q, [])" "held_leases q (bj_id j) = Some (j, we_public env (we_secret_key env))"
  shows "\<exists>w' k' q'. execute_job_with_heartbeat env (queue_send clock (we_public env (we_secret_key env))) queue_recv
      (context_of env r j) w = (Inr (), w') \<and> wk_link w' = (k', q', []) \<and> bq_pending q' = bq_pending q \<and>
    held_leases q' = (held_leases q)(bj_id j := None) \<and>
    bq_pending_fetch q' = bq_pending_fetch q @ [signed_result env j outs] \<and>
    bq_completed q' = hm_insert (bj_drv_hash j) (job_outcome.Completed (signed_result env j outs)) (bq_completed q)"
proof -
  let ?b = "we_public env (we_secret_key env)" and ?ctx = "context_of env r j"
  obtain w1 k1 q1 where 1: "fetch_phase env (queue_send clock ?b) queue_recv ?ctx w = (Inr (), w1)"
    "wk_link w1 = (k1, q1, [])" "quiet q q1"
    using fetch_phase_queue [of env ?ctx w k q clock ?b] assms(3,4) by (auto simp: context_of_def)
  obtain k2 q2 where 2: "heartbeat_loop (queue_send clock ?b) queue_recv (jc_job_id ?ctx)
      (we_turns env (jc_job_id ?ctx) (jc_drv_path ?ctx)) ''starting'' w1 = (Inr (), w1\<lparr>wk_link := (k2, q2, [])\<rparr>)" "quiet q1 q2"
    using heartbeat_loop_queue [OF 1(2)] by blast
  obtain paths where paths: "build_task env ?ctx = Inr paths" "those (map (output_spec env) paths) = Some outs"
    using assms(1) by (auto simp: job_outputs_def split: sum.splits)
  obtain t where 3: "index_outputs env paths (w1\<lparr>wk_link := (k2, q2, [])\<rparr>) =
      (Inr outs, w1\<lparr>wk_link := (k2, q2, []), wk_index := t\<rparr>)"
    using index_outputs_ok [OF assms(2) paths(2), of "w1\<lparr>wk_link := (k2, q2, [])\<rparr>"] by auto
  let ?w3 = "w1\<lparr>wk_link := (k2, q2, []), wk_index := t\<rparr>"
  obtain resp q3 where h: "handle_build_queue_request (clock k2) (clock (k2 + 1)) ?b (complete_request env ?ctx outs) q2 = (resp, q3)"
    by fastforce
  have q2: "quiet q q2" using 1(3) 2(2) by (rule quiet_trans)
  then have held: "held_leases q2 (bj_id j) = Some (j, ?b)" using assms(5) by (simp add: quiet_def)
  let ?s = "signed_result env j outs"
  have req: "complete_request env ?ctx outs = Complete (bj_id j) (map to_proto outs) (br_signature_r ?s) (br_signature_s ?s)"
    and s: "\<lparr>br_job_id = bj_id j, br_drv_hash = bj_drv_hash j, br_builder = ?b, br_outputs = map from_proto (map to_proto outs),
       br_signature_r = br_signature_r ?s, br_signature_s = br_signature_s ?s\<rparr> = ?s"
    by (simp_all add: complete_request_def signed_result_def sign_build_result_def context_of_def Let_def o_def)
  from complete_by_lessee [OF held h [unfolded req]] q2
  have "resp = CompleteAck" "bq_pending q3 = bq_pending q" "held_leases q3 = (held_leases q)(bj_id j := None)" "bq_pending_fetch q3 = bq_pending_fetch q @ [?s]"
    "bq_completed q3 = hm_insert (bj_drv_hash j) (job_outcome.Completed ?s) (bq_completed q)"
    unfolding s by (auto simp: quiet_def fun_eq_iff)
  moreover have "exchange (queue_send clock ?b) queue_recv (complete_request env ?ctx outs) ?w3 =
      (Inr resp, ?w3\<lparr>wk_link := (k2 + 2, q3, [])\<rparr>)"
    by (rule exchange_queue [OF _ h]) simp
  ultimately show ?thesis
    using 1(1) 2(1) 3 paths(1) by (simp add: execute_job_with_heartbeat_def completion_reply_def)
qed

section \<open>A builder drains a queue\<close>

lemma work_loop_idle:
  assumes "\<forall>j \<in> set (bq_pending q). \<not> matches (bc_system_features (we_config env)) j"
    and "\<And>k. \<not> we_cancelled env k" "we_clock env (k + n) - idle > BUILDER_IDLE_TIMEOUT" "wk_link w = (i, q, [])"
  shows "\<exists>i'. work_loop env (queue_send clock b) queue_recv r k idle w = Some (Inr (), w\<lparr>wk_link := (i', q, [])\<rparr>)"
  using assms(3,4)
proof (induction n arbitrary: k i w)
  case (0 k i w)
  have h: "handle_build_queue_request (clock i) (clock (i + 1)) b (Pull (bc_system_features (we_config env)) s) q = (NoJob, q)" for s
    using assms(1) by (auto simp: pull_def position_None [THEN iffD2])
  show ?case
    using 0 assms(2) by (subst work_loop.simps) (auto simp: exchange_queue [OF 0(2) h])
next
  case (Suc n k i w)
  have h: "handle_build_queue_request (clock i) (clock (i + 1)) b (Pull (bc_system_features (we_config env)) s) q = (NoJob, q)" for s
    using assms(1) by (auto simp: pull_def position_None [THEN iffD2])
  let ?w = "w\<lparr>wk_link := (i + 2, q, [])\<rparr>"
  obtain i' where "work_loop env (queue_send clock b) queue_recv r (k + 1) idle ?w = Some (Inr (), ?w\<lparr>wk_link := (i', q, [])\<rparr>)"
    using Suc.IH [of "k + 1" ?w "i + 2"] Suc.prems(1) by auto
  then show ?case
    using assms(2) by (subst work_loop.simps) (auto simp: exchange_queue [OF Suc.prems(2) h])
qed

lemma run_job_ok: "execute_job_with_heartbeat env send recv ctx w = (Inr (), w') \<Longrightarrow> run_job env send recv ctx w = (Inr (), w')"
  by (simp add: run_job_def)

lemma pull_step:
  assumes "pull t1 t2 b fs q = (Some j, q')"
  shows "\<exists>us vs. bq_pending q = us @ j # vs \<and> matches fs j \<and> (\<forall>u \<in> set us. \<not> matches fs u) \<and> bq_pending q' = us @ vs \<and>
    bq_pending_fetch q' = bq_pending_fetch q \<and> bq_completed q' = bq_completed q \<and> held_leases q' = (held_leases q)(bj_id j := Some (j, b))"
proof (cases rule: pull_cases [of q fs t1 t2 b])
  case none
  with assms show ?thesis by simp
next
  case (some us j' vs)
  with assms show ?thesis by (intro exI [of _ us] exI [of _ vs]) (auto simp: held_leases_def fun_eq_iff)
qed

lemma pull_some: "\<exists>j \<in> set (bq_pending q). matches fs j \<Longrightarrow> \<exists>j q'. pull t1 t2 b fs q = (Some j, q')"
  by (cases rule: pull_cases [of q fs t1 t2 b]) auto

text \<open>The leases when the jobs \<open>js\<close> have gone through.\<close>

definition leases_without :: "build_job list \<Rightarrow> (job_id \<Rightarrow> (build_job \<times> endpoint_id) option) \<Rightarrow> job_id \<Rightarrow> (build_job \<times> endpoint_id) option" where
  "leases_without js h jid = (if jid \<in> bj_id ` set js then None else h jid)"

lemma leases_without_step: "leases_without js (h(bj_id j := None)) = leases_without (j # js) h"
  by (auto simp: leases_without_def fun_eq_iff)

lemma leases_without_Nil [simp]: "leases_without [] h = h"
  by (simp add: leases_without_def fun_eq_iff)

text \<open>The outcomes after the jobs \<open>js\<close>, each with its outputs.\<close>

definition record_results :: "'k worker_env \<Rightarrow> (build_job \<times> build_output list) list \<Rightarrow>
    (drv_hash, job_outcome) hmap \<Rightarrow> (drv_hash, job_outcome) hmap" where
  "record_results env js m = fold (\<lambda>(j, outs). hm_insert (bj_drv_hash j) (job_outcome.Completed (signed_result env j outs))) js m"

lemma work_loop_drains:
  fixes env :: "'k worker_env"
  defines "fs \<equiv> bc_system_features (we_config env)" and "b \<equiv> we_public env (we_secret_key env)"
  assumes env: "store_ok env" "deps_ok env r" "\<And>k. \<not> we_cancelled env k" "\<And>t k. \<exists>n. we_clock env (k + n) > t"
    and "\<forall>j \<in> set (filter (matches fs) (bq_pending q)). job_outputs env r j = Some (outs j)"
    and "wk_link w = (i, q, [])"
  shows "\<exists>w' i' q'. work_loop env (queue_send clock b) queue_recv r k idle w = Some (Inr (), w') \<and> wk_link w' = (i', q', []) \<and>
    bq_pending q' = filter (\<lambda>j. \<not> matches fs j) (bq_pending q) \<and>
    held_leases q' = leases_without (filter (matches fs) (bq_pending q)) (held_leases q) \<and>
    bq_pending_fetch q' = bq_pending_fetch q @ map (\<lambda>j. signed_result env j (outs j)) (filter (matches fs) (bq_pending q)) \<and>
    bq_completed q' = record_results env (map (\<lambda>j. (j, outs j)) (filter (matches fs) (bq_pending q))) (bq_completed q)"
  using assms(7,8)
proof (induction "length (filter (matches fs) (bq_pending q))" arbitrary: k idle w i q)
  case 0
  then have none: "\<forall>j \<in> set (bq_pending q). \<not> matches fs j" and empty: "filter (matches fs) (bq_pending q) = []"
    by (simp_all add: filter_empty_conv)
  obtain n where "we_clock env (k + n) > BUILDER_IDLE_TIMEOUT + idle" using env(4) by blast
  then have "we_clock env (k + n) - idle > BUILDER_IDLE_TIMEOUT" by simp
  then obtain i' where "work_loop env (queue_send clock b) queue_recv r k idle w = Some (Inr (), w\<lparr>wk_link := (i', q, [])\<rparr>)"
    using work_loop_idle [OF none [unfolded fs_def] env(3), of k n idle w i clock b r] 0(3) by auto
  with none show ?case by (simp add: empty record_results_def)
next
  case (Suc m)
  then have "filter (matches fs) (bq_pending q) \<noteq> []" by auto
  then have "\<exists>j \<in> set (bq_pending q). matches fs j" by (simp add: filter_empty_conv)
  from pull_some [OF this] obtain j q1 where pull: "pull (clock i) (clock (Suc i)) b fs q = (Some j, q1)" by blast
  from pull_step [OF this] obtain us vs where q: "bq_pending q = us @ j # vs" "matches fs j" "\<forall>u \<in> set us. \<not> matches fs u"
    and q1: "bq_pending q1 = us @ vs" "bq_pending_fetch q1 = bq_pending_fetch q" "bq_completed q1 = bq_completed q"
      "held_leases q1 = (held_leases q)(bj_id j := Some (j, b))" by blast
  have us: "filter (matches fs) us = []" "filter (\<lambda>j. \<not> matches fs j) us = us"
    using q(3) by (simp_all add: filter_empty_conv filter_id_conv)
  have h: "handle_build_queue_request (clock i) (clock (i + 1)) b (Pull fs s) q = (job_response j, q1)" for s
    using pull by simp
  let ?w1 = "w\<lparr>wk_link := (i + 2, q1, [])\<rparr>"
  obtain w2 i2 q2 where run: "execute_job_with_heartbeat env (queue_send clock b) queue_recv (context_of env r j) ?w1 = (Inr (), w2)"
    and q2: "wk_link w2 = (i2, q2, [])" "bq_pending q2 = us @ vs"
      "held_leases q2 = (held_leases q)(bj_id j := Some (j, b), bj_id j := None)" "bq_pending_fetch q2 = bq_pending_fetch q @ [signed_result env j (outs j)]"
      "bq_completed q2 = hm_insert (bj_drv_hash j) (job_outcome.Completed (signed_result env j (outs j))) (bq_completed q)"
    using execute_job_queue [of env r j "outs j" ?w1 "i + 2" q1 clock, OF _ env(1,2)] Suc.prems(1) q q1
    unfolding b_def by auto
  have "m = length (filter (matches fs) (bq_pending q2))" using Suc(2) by (simp add: q q2 us)
  from Suc.hyps(1) [OF this _ q2(1), of "k + 1" "we_clock env k"] Suc.prems(1) obtain w' i' q' where
    "work_loop env (queue_send clock b) queue_recv r (k + 1) (we_clock env k) w2 = Some (Inr (), w')"
    "wk_link w' = (i', q', [])" "bq_pending q' = filter (\<lambda>j. \<not> matches fs j) (us @ vs)"
    "held_leases q' = leases_without (filter (matches fs) (us @ vs)) (held_leases q2)"
    "bq_pending_fetch q' = bq_pending_fetch q2 @ map (\<lambda>j. signed_result env j (outs j)) (filter (matches fs) (us @ vs))"
    "bq_completed q' = record_results env (map (\<lambda>j. (j, outs j)) (filter (matches fs) (us @ vs))) (bq_completed q2)"
    by (auto simp: q q2)
  moreover have "work_loop env (queue_send clock b) queue_recv r k idle w =
      work_loop env (queue_send clock b) queue_recv r (k + 1) (we_clock env k) w2"
    using env(3) run_job_ok [OF run]
    by (subst work_loop.simps) (simp add: exchange_queue [OF Suc.prems(2) h] fs_def [symmetric] job_response_def context_of_def)
  ultimately show ?case by (simp add: q q2 us record_results_def leases_without_step)
qed

text \<open>The whole connection, for a worker that reaches the requester.\<close>

lemma connect_drains:
  assumes "store_ok env" "deps_ok env r" "\<And>k. \<not> we_cancelled env k" "\<And>t k. \<exists>n. we_clock env (k + n) > t"
    and "\<And>n. we_connect env r n = None" "we_open_bi env r = None"
    and "\<And>j. j \<in> set (bq_pending q) \<Longrightarrow> matches (bc_system_features (we_config env)) j \<Longrightarrow> job_outputs env r j = Some (outs j)"
    and "wk_link w = (i, q, [])"
  shows "\<exists>w' i' q'. connect_and_work env (queue_send clock (we_public env (we_secret_key env))) queue_recv r now w = Some (Inr (), w') \<and>
    wk_link w' = (i', q', []) \<and>
    bq_pending q' = filter (\<lambda>j. \<not> matches (bc_system_features (we_config env)) j) (bq_pending q) \<and>
    held_leases q' = leases_without (filter (matches (bc_system_features (we_config env))) (bq_pending q)) (held_leases q) \<and>
    bq_pending_fetch q' = bq_pending_fetch q @
      map (\<lambda>j. signed_result env j (outs j)) (filter (matches (bc_system_features (we_config env))) (bq_pending q)) \<and>
    bq_completed q' = record_results env
      (map (\<lambda>j. (j, outs j)) (filter (matches (bc_system_features (we_config env))) (bq_pending q))) (bq_completed q)"
proof -
  have "connect_and_work env send recv r now w = work_loop env send recv r 0 now w" for send recv
    using assms(5,6) unfolding connect_and_work_def
    by (subst with_retry_constant [where r = "Inr ()"]) (simp_all add: retryable_result_def)
  then show ?thesis
    using work_loop_drains [OF assms(1-4), of q outs w i clock 0 now] assms(7,8) by simp
qed


definition sample_queue :: build_queue where
  "sample_queue = snd (push toy_hash 0 ''/nix/store/b.drv'' [''aarch64-linux''] [] []
     (snd (push toy_hash 0 ''/nix/store/a.drv'' [''x86_64-linux''] [''out''] [] (new_queue []))))"

definition sample_outputs :: "build_output list" where
  "sample_outputs = [\<lparr>bo_store_path = ''/nix/store/x-out'', bo_blake3 = toy_hash sample_nar, bo_sha256 = toy_hash sample_nar,
     bo_nar_size = of_nat (length sample_nar)\<rparr>]"

lemma sample_lines: "lines (of_bytes sample_stdout) = [''warning'', ''/nix/store/x-out'']"
  by code_simp

lemma sample_job_outputs: "job_outputs sample_worker_env r j = Some sample_outputs"
proof -
  have "build_task sample_worker_env (context_of sample_worker_env r j) = Inr [''/nix/store/x-out'']"
    by (simp add: build_task_def context_of_def sample_worker_env_def execute_build_def sample_lines output_paths_def
        starts_with_def)
  moreover have "tree_of (we_node sample_worker_env p) = Some (Reg False [104, 101, 108, 108, 111])" for p
    by (simp add: sample_worker_env_def file_contents_def)
  ultimately show ?thesis
    by (simp add: job_outputs_def output_spec_def sample_outputs_def sample_nar_def, simp add: sample_worker_env_def)
qed

lemma sample_store_ok: "store_ok sample_worker_env"
  by (simp add: store_ok_def)

text \<open>The builder on a machine that has every input.\<close>

definition stocked_env :: "hash32 worker_env" where
  "stocked_env = sample_worker_env\<lparr>we_exists := \<lambda>_ _. True\<rparr>"

lemma stocked_outputs: "job_outputs stocked_env r j = Some sample_outputs"
proof -
  have "output_spec stocked_env = output_spec sample_worker_env" "context_of stocked_env r j = context_of sample_worker_env r j"
    "build_task stocked_env ctx = build_task sample_worker_env ctx" for ctx
    by (rule ext, simp_all add: output_spec_def context_of_def build_task_def stocked_env_def)
  then show ?thesis using sample_job_outputs [of r j] by (simp only: job_outputs_def)
qed


section \<open>A failed job\<close>

lemma fail_by_lessee:
  assumes "held_leases q jid = Some (j, b)" "handle_build_queue_request t1 t2 b (Fail jid e) q = (resp, q')"
  shows "resp = FailAck \<and> bq_pending q' = bq_pending q \<and> bq_pending_fetch q' = bq_pending_fetch q \<and>
    bq_completed q' = hm_insert (bj_drv_hash j) (job_outcome.Failed b e) (bq_completed q) \<and> held_leases q' jid = None"
  using assms by (auto simp: held_leases_def Build_Queue.fail_def Let_def)


definition failing_env :: "hash32 worker_env" where
  "failing_env = stocked_env\<lparr>we_run := \<lambda>_. Inr (False, [], as_bytes ''disk full'')\<rparr>"


end
