(* ===== verification/Substituter.thy ===== *)
theory Substituter
  imports Nar_Transfer Gossip
begin

text \<open>
  The HTTP binary cache of \<open>substituter.rs\<close>: one request per connection, routed to the cache
  info, a narinfo rendered from the hash index (or from what gossip knows) or a NAR made from
  the store (or fetched from a peer). The accept loop, which spawns \<open>handle_connection\<close> for
  each connection, is in \<open>Daemon\<close>.
\<close>

record substituter_config =
  sc_bind_addr :: string
  sc_priority :: u32

definition substituter_default :: substituter_config where
  "substituter_default = \<lparr>sc_bind_addr = ''127.0.0.1:8080'', sc_priority = 40\<rparr>"

text \<open>The gossip service and how a fetch from a peer over the endpoint ends.\<close>

record p2p_context =
  pc_gossip :: gossip_service
  pc_fetch :: "endpoint_id \<Rightarrow> hash32 \<Rightarrow> (nar_response_header \<times> byte list) result"

record substituter =
  su_config :: substituter_config
  su_index :: index_table
  su_poisoned :: bool
  su_sql :: "string option"
  su_p2p :: "p2p_context option"
  su_exists :: "string \<Rightarrow> bool"
  su_node :: "string \<Rightarrow> fs_node"
  su_sha256 :: "byte list \<Rightarrow> hash32"
  su_blake3 :: "byte list \<Rightarrow> hash32"
  su_to_hex :: "byte list \<Rightarrow> string"
  su_unhex :: "string \<Rightarrow> string + byte list"

section \<open>Responses\<close>

definition crlf :: string where
  "crlf = [CHR 0x0D, CHR 0x0A]"

definition http_write :: "byte list \<Rightarrow> send_stream \<Rightarrow> unit result \<times> send_stream" where
  "http_write bs s = (case stream_write bs s of
     (Inl e, s') \<Rightarrow> (throw (Io OtherKind e), s') | (Inr _, s') \<Rightarrow> (Inr (), s'))"

definition http_head :: "nat \<Rightarrow> string \<Rightarrow> string \<Rightarrow> nat \<Rightarrow> string" where
  "http_head status status_text content_type len =
     ''HTTP/1.1 '' @ show_nat status @ '' '' @ status_text @ crlf @
     ''Content-Type: '' @ content_type @ crlf @
     ''Content-Length: '' @ show_nat len @ crlf @ crlf"

definition send_response :: "nat \<Rightarrow> string \<Rightarrow> string \<Rightarrow> byte list \<Rightarrow> bool \<Rightarrow> send_stream \<Rightarrow>
    unit result \<times> send_stream" where
  "send_response status status_text content_type body is_head s =
     st_bind (http_write (as_bytes (http_head status status_text content_type (length body))) s) (\<lambda>_ s1.
     if \<not> is_head \<and> body \<noteq> [] then http_write body s1 else (Inr (), s1))"

definition handle_cache_info :: "substituter_config \<Rightarrow> bool \<Rightarrow> send_stream \<Rightarrow> unit result \<times> send_stream" where
  "handle_cache_info config is_head s =
     send_response 200 ''OK'' ''text/x-nix-cache-info''
       (as_bytes (''StoreDir: /nix/store'' @ newline @ ''WantMassQuery: 1'' @ newline @
                  ''Priority: '' @ show_nat (unat (sc_priority config)) @ newline)) is_head s"

section \<open>Narinfo\<close>

text \<open>\<open>trim_start_matches\<close> and \<open>trim_end_matches\<close> take every copy of the pattern away.\<close>

function trim_start_matches :: "string \<Rightarrow> string \<Rightarrow> string" where
  "trim_start_matches p s = (if p \<noteq> [] \<and> prefix p s then trim_start_matches p (drop (length p) s) else s)"
  by pat_completeness auto
termination by (relation "measure (\<lambda>(p, s). length s)") (auto simp: prefix_def)

function trim_end_matches :: "string \<Rightarrow> string \<Rightarrow> string" where
  "trim_end_matches p s =
     (if p \<noteq> [] \<and> suffix p s then trim_end_matches p (take (length s - length p) s) else s)"
  by pat_completeness auto
termination by (relation "measure (\<lambda>(p, s). length s)") (auto simp: suffix_def)

declare trim_start_matches.simps [simp del] trim_end_matches.simps [simp del]

definition gossip_entry :: "provider_info \<Rightarrow> hash_entry" where
  "gossip_entry p = \<lparr>he_blake3 = replicate 32 0, he_sha256 = replicate 32 0, he_store_path = pi_store_path p,
     he_nar_size = pi_nar_size p, he_references = [], he_deriver = None\<rparr>"

definition provides_hash :: "string \<Rightarrow> provider_info \<Rightarrow> bool" where
  "provides_hash store_hash p = (case store_path_basename (pi_store_path p) of
     Some basename \<Rightarrow> before_char CHR ''-'' basename = store_hash | None \<Rightarrow> False)"

definition try_find_via_gossip :: "string \<Rightarrow> p2p_context option \<Rightarrow> hash_entry option" where
  "try_find_via_gossip store_hash p2p =
     (case p2p of
        None \<Rightarrow> None
      | Some ctx \<Rightarrow>
          map_option gossip_entry
            (find (provides_hash store_hash) (concat (map snd (gs_providers (pc_gossip ctx))))))"

definition narinfo_body :: "(byte list \<Rightarrow> string) \<Rightarrow> hash_entry \<Rightarrow> string" where
  "narinfo_body to_hex entry =
     ''StorePath: '' @ he_store_path entry @ newline @
     ''URL: nar/'' @ to_hex (he_blake3 entry) @ ''.nar'' @ newline @
     ''Compression: none'' @ newline @
     ''NarHash: sha256:'' @ to_nix_base32 (he_sha256 entry) @ newline @
     ''NarSize: '' @ show_nat (unat (he_nar_size entry)) @ newline @
     ''References: '' @ join '' '' (references_to_basenames (he_references entry)) @ newline @
     (case Option.bind (he_deriver entry) store_path_basename of
        Some basename \<Rightarrow> ''Deriver: '' @ basename @ newline
      | None \<Rightarrow> [])"

text \<open>\<open>.ok().flatten()\<close>\<close>

definition ok_flatten :: "'a option result \<Rightarrow> 'a option" where
  "ok_flatten x = (case x of Inr y \<Rightarrow> y | Inl _ \<Rightarrow> None)"

definition handle_narinfo :: "substituter \<Rightarrow> string \<Rightarrow> bool \<Rightarrow> send_stream \<Rightarrow> unit result \<times> send_stream" where
  "handle_narinfo su path is_head s =
     (let hash_part = trim_end_matches ''.narinfo'' (trim_start_matches ''/'' path)
      in case lock_or_err (su_poisoned su) () of
           Inl e \<Rightarrow> (Inl e, s)
         | Inr _ \<Rightarrow>
             (case (case ok_flatten (get_by_store_hash (su_sql su) hash_part (su_index su)) of
                      Some e \<Rightarrow> Some e
                    | None \<Rightarrow> try_find_via_gossip hash_part (su_p2p su)) of
                Some entry \<Rightarrow>
                  send_response 200 ''OK'' ''text/x-nix-narinfo'' (as_bytes (narinfo_body (su_to_hex su) entry)) is_head s
              | None \<Rightarrow> send_response 404 ''Not Found'' ''text/plain'' (as_bytes ''Not Found'') is_head s))"

section \<open>NARs\<close>

fun fetch_from_providers :: "(endpoint_id \<Rightarrow> hash32 \<Rightarrow> (nar_response_header \<times> byte list) result) \<Rightarrow> hash32 \<Rightarrow>
    provider_info list \<Rightarrow> byte list option result" where
  "fetch_from_providers fetch h [] = Inr None"
| "fetch_from_providers fetch h (p # ps) =
     (case fetch (pi_endpoint_id p) h of
        Inr (header, data) \<Rightarrow> Inr (Some data)
      | Inl (Err e) \<Rightarrow> fetch_from_providers fetch h ps
      | Inl (Panic m) \<Rightarrow> panic m)"

definition try_fetch_nar_from_peer :: "hash32 \<Rightarrow> p2p_context option \<Rightarrow> byte list option result" where
  "try_fetch_nar_from_peer h p2p =
     (case p2p of
        None \<Rightarrow> Inr None
      | Some ctx \<Rightarrow> fetch_from_providers (pc_fetch ctx) h (get_providers h (pc_gossip ctx)))"

fun http_write_all :: "byte list list \<Rightarrow> send_stream \<Rightarrow> unit result \<times> send_stream" where
  "http_write_all [] s = (Inr (), s)"
| "http_write_all (c # cs) s = st_bind (http_write c s) (\<lambda>_. http_write_all cs)"

text \<open>\<open>spawn_blocking\<close>: a panic of the task is an internal error of the handler.\<close>

definition join_blocking :: "'a result \<Rightarrow> 'a result" where
  "join_blocking res = (case res of
     Inl (Panic m) \<Rightarrow> throw (Internal (''spawn_blocking failed: '' @ m)) | Inl (Err e) \<Rightarrow> throw e | Inr x \<Rightarrow> Inr x)"

definition nar_head :: "nat \<Rightarrow> byte list" where
  "nar_head len = as_bytes (http_head 200 ''OK'' ''application/x-nix-nar'' len)"

text \<open>The NAR of a hash: made from the store path, or fetched from a peer.\<close>

definition handle_nar_hash :: "substituter \<Rightarrow> hash32 \<Rightarrow> bool \<Rightarrow> send_stream \<Rightarrow> unit result \<times> send_stream" where
  "handle_nar_hash su blake3 is_head s =
     (case lock_or_err (su_poisoned su) () of
        Inl e \<Rightarrow> (Inl e, s)
      | Inr _ \<Rightarrow>
          (case ok_flatten (get_by_blake3 (su_sql su) blake3 (su_index su)) of
             None \<Rightarrow> send_response 404 ''Not Found'' ''text/plain'' (as_bytes ''Not Found'') is_head s
           | Some entry \<Rightarrow>
               if su_exists su (he_store_path entry)
               then st_bind (http_write (nar_head (unat (he_nar_size entry))) s) (\<lambda>_ s1.
                    if is_head then (Inr (), s1)
                    else (case join_blocking (serialize_path (su_sha256 su) (su_blake3 su) (he_store_path entry)
                                                (su_node su (he_store_path entry))) of
                            Inl e \<Rightarrow> (Inl e, s1)
                          | Inr (nar_data, _) \<Rightarrow> http_write_all (chunks (64 * 1024) nar_data) s1))
               else (case try_fetch_nar_from_peer blake3 (su_p2p su) of
                       Inl e \<Rightarrow> (Inl e, s)
                     | Inr (Some nar_data) \<Rightarrow>
                         st_bind (http_write (nar_head (length nar_data)) s) (\<lambda>_ s1.
                         if is_head then (Inr (), s1)
                         else http_write_all (chunks (64 * 1024) nar_data) s1)
                     | Inr None \<Rightarrow>
                         send_response 404 ''Not Found'' ''text/plain'' (as_bytes ''Store path not found'') is_head s)))"

definition handle_nar :: "substituter \<Rightarrow> string \<Rightarrow> bool \<Rightarrow> send_stream \<Rightarrow> unit result \<times> send_stream" where
  "handle_nar su path is_head s =
     (let blake3_hex = trim_end_matches ''.nar'' (trim_start_matches ''/nar/'' path)
      in case (case su_unhex su blake3_hex of Inr b \<Rightarrow> if length b = 32 then Some b else None | Inl _ \<Rightarrow> None) of
           None \<Rightarrow> send_response 400 ''Bad Request'' ''text/plain'' (as_bytes ''Invalid hash'') is_head s
         | Some blake3 \<Rightarrow> handle_nar_hash su blake3 is_head s)"

section \<open>Connections\<close>

text \<open>\<open>read_line\<close>: up to and with the next newline, or to the end of the stream.\<close>

definition read_line :: "reader \<Rightarrow> (string \<times> reader) result" where
  "read_line r =
     (let (line, rest) = (takeWhile (\<lambda>b. b \<noteq> 10) (avail r), dropWhile (\<lambda>b. b \<noteq> 10) (avail r));
          utf8 = (\<lambda>bs r'. case from_utf8 bs of
            Some l \<Rightarrow> Inr (l, r') | None \<Rightarrow> throw (Io OtherKind ''stream did not contain valid UTF-8''))
      in case rest of
           b # rest' \<Rightarrow> utf8 (line @ [b]) (r\<lparr>avail := rest'\<rparr>)
         | [] \<Rightarrow> if fst (ending r) = UnexpectedEof then utf8 line (r\<lparr>avail := []\<rparr>)
                 else throw (Io (fst (ending r)) (snd (ending r))))"

lemma read_line_length:
  assumes "read_line r = Inr (l, r')"
  shows "length (avail r') + length l = length (avail r)"
proof -
  let ?t = "takeWhile (\<lambda>b. b \<noteq> 10) (avail r)" and ?d = "dropWhile (\<lambda>b. b \<noteq> 10) (avail r)"
  have len: "length (avail r) = length ?t + length ?d"
    by (metis length_append takeWhile_dropWhile_id)
  show ?thesis
  proof (cases ?d)
    case Nil
    with assms have "from_utf8 ?t = Some l" "r' = r\<lparr>avail := []\<rparr>"
      by (auto simp: read_line_def Let_def split: option.splits if_splits)
    with Nil len show ?thesis by (simp add: from_utf8_Some)
  next
    case (Cons b rest)
    with assms have "from_utf8 (?t @ [b]) = Some l" "r' = r\<lparr>avail := rest\<rparr>"
      by (auto simp: read_line_def Let_def split: option.splits)
    with Cons len have "length (?t @ [b]) = length l" "avail r' = rest"
      by (simp_all add: from_utf8_Some)
    with Cons len show ?thesis by simp
  qed
qed

function skip_headers :: "reader \<Rightarrow> reader result" where
  "skip_headers r = (case read_line r of
     Inl e \<Rightarrow> Inl e
   | Inr (line, r') \<Rightarrow> if trim line = [] then Inr r' else skip_headers r')"
  by pat_completeness auto
termination
proof (relation "measure (\<lambda>r. length (avail r))")
  show "(r', r) \<in> measure (\<lambda>r. length (avail r))"
    if "read_line r = Inr p" "(line, r') = p" "trim line \<noteq> []" for r p line r'
  proof -
    from that(3) have "0 < length line" by auto
    moreover have "length (avail r') + length line = length (avail r)"
      using that(1,2) by (intro read_line_length) simp
    ultimately have "length (avail r') < length (avail r)" by linarith
    then show ?thesis by simp
  qed
qed simp

declare skip_headers.simps [simp del]

definition route :: "substituter \<Rightarrow> string \<Rightarrow> bool \<Rightarrow> send_stream \<Rightarrow> unit result \<times> send_stream" where
  "route su path is_head s =
     (if path = ''/nix-cache-info'' then handle_cache_info (su_config su) is_head s
      else if ends_with path ''.narinfo'' then handle_narinfo su path is_head s
      else if starts_with path ''/nar/'' \<and> ends_with path ''.nar'' then handle_nar su path is_head s
      else send_response 404 ''Not Found'' ''text/plain'' (as_bytes ''Not Found'') is_head s)"

definition handle_connection :: "substituter \<Rightarrow> reader \<Rightarrow> send_stream \<Rightarrow> unit result \<times> send_stream" where
  "handle_connection su r s =
     (case read_line r of
        Inl e \<Rightarrow> (Inl e, s)
      | Inr (request_line, r1) \<Rightarrow>
          (let parts = split_whitespace request_line
           in if length parts < 2
              then send_response 400 ''Bad Request'' ''text/plain'' (as_bytes ''Bad Request'') False s
              else let method = parts ! 0; path = parts ! 1
                   in case skip_headers r1 of
                        Inl e \<Rightarrow> (Inl e, s)
                      | Inr _ \<Rightarrow>
                          if method \<noteq> ''GET'' \<and> method \<noteq> ''HEAD''
                          then send_response 405 ''Method Not Allowed'' ''text/plain''
                                 (as_bytes ''Method Not Allowed'') False s
                          else route su path (method = ''HEAD'') s))"

section \<open>Lemmas\<close>

lemma http_write_open [simp]:
  "ss_limit s = None \<Longrightarrow> http_write bs s = (Inr (), s\<lparr>ss_sent := ss_sent s @ bs\<rparr>)"
  by (simp add: http_write_def stream_write_def)

lemma http_write_all_open [simp]:
  "ss_limit s = None \<Longrightarrow> http_write_all cs s = (Inr (), s\<lparr>ss_sent := ss_sent s @ concat cs\<rparr>)"
  by (induction cs arbitrary: s) simp_all

text \<open>On a stream that accepts everything a response is its head and, unless it answers HEAD, its body.\<close>

lemma send_response_open:
  "ss_limit s = None \<Longrightarrow> send_response status txt ctype body is_head s =
     (Inr (), s\<lparr>ss_sent := ss_sent s @ as_bytes (http_head status txt ctype (length body)) @
                             (if is_head then [] else body)\<rparr>)"
  by (cases s) (simp add: send_response_def)

lemma concat_file_chunks [simp]: "concat (chunks 65536 xs) = xs"
  by (rule concat_chunks) simp

text \<open>Trimming the decoration of a path off text that does not look like it.\<close>

lemma trim_start_matches_once:
  "p \<noteq> [] \<Longrightarrow> \<not> prefix p s \<Longrightarrow> trim_start_matches p (p @ s) = s"
  by (subst trim_start_matches.simps) (simp add: trim_start_matches.simps [of p s])

lemma trim_end_matches_once:
  "p \<noteq> [] \<Longrightarrow> \<not> suffix p s \<Longrightarrow> trim_end_matches p (s @ p) = s"
  by (subst trim_end_matches.simps) (simp add: trim_end_matches.simps [of p s] suffixI)

section \<open>What a narinfo says\<close>

text \<open>The narinfo as lines of fields, as the client of \<open>http_cache.rs\<close> reads them.\<close>

definition narinfo_fields :: "(byte list \<Rightarrow> string) \<Rightarrow> hash_entry \<Rightarrow> (string \<times> string) list" where
  "narinfo_fields to_hex e =
     [(''StorePath'', he_store_path e), (''URL'', ''nar/'' @ to_hex (he_blake3 e) @ ''.nar''),
      (''Compression'', ''none''), (''NarHash'', ''sha256:'' @ to_nix_base32 (he_sha256 e)),
      (''NarSize'', show_nat (unat (he_nar_size e))),
      (''References'', join '' '' (references_to_basenames (he_references e)))] @
     (case Option.bind (he_deriver e) store_path_basename of Some b \<Rightarrow> [(''Deriver'', b)] | None \<Rightarrow> [])"

lemma narinfo_body_fields: "narinfo_body to_hex e = concat (map (\<lambda>f. field_line f @ newline) (narinfo_fields to_hex e))"
  by (simp add: narinfo_body_def narinfo_fields_def field_line_def split: option.split)

text \<open>Entries whose text survives: visible ASCII paths, references and deriver in the store.\<close>

definition servable :: "hash_entry \<Rightarrow> bool" where
  "servable e \<longleftrightarrow> length (he_sha256 e) = 32 \<and> he_store_path e \<noteq> [] \<and> list_all visible (he_store_path e) \<and>
     list_all (\<lambda>r. store_ref r \<and> list_all visible r) (he_references e) \<and>
     (case he_deriver e of None \<Rightarrow> True
      | Some d \<Rightarrow> store_ref d \<and> list_all visible d \<and> d \<noteq> store_prefix @ ''unknown-deriver'')"

definition served_info :: "(byte list \<Rightarrow> string) \<Rightarrow> hash_entry \<Rightarrow> cache_nar_info" where
  "served_info to_hex e = \<lparr>cn_store_path = he_store_path e, cn_url = ''nar/'' @ to_hex (he_blake3 e) @ ''.nar'',
     cn_compression = NoCompression, cn_nar_hash = he_sha256 e, cn_nar_size = he_nar_size e, cn_file_size = None,
     cn_references = he_references e, cn_deriver = he_deriver e\<rparr>"

lemma visible_tidy: "list_all visible v \<Longrightarrow> v \<noteq> [] \<Longrightarrow> tidy v"
  by (cases v rule: rev_cases) (auto simp: tidy_def visible_def list_all_iff hd_append)

lemma visible_basename: "store_ref p \<Longrightarrow> list_all visible p \<Longrightarrow> store_path_basename p = Some w \<Longrightarrow> list_all visible w \<and> w \<noteq> []"
  by (auto elim!: store_refE)

lemma tidy_join:
  assumes "\<forall>w \<in> set ws. list_all visible w \<and> w \<noteq> []" "ws \<noteq> []"
  shows "tidy (join '' '' ws)"
  using assms
proof (induction ws rule: induct_list012)
  case (2 w)
  then show ?case by (simp add: visible_tidy)
next
  case (3 w v vs)
  then have "tidy (join '' '' (v # vs))" "tidy w" by (simp_all add: visible_tidy)
  then show ?case by (auto simp: tidy_def)
qed simp

lemma references_visible:
  assumes "list_all (\<lambda>r. store_ref r \<and> list_all visible r) refs" "w \<in> set (references_to_basenames refs)"
  shows "list_all visible w \<and> w \<noteq> []"
proof -
  from assms(2) obtain r where "r \<in> set refs" "store_path_basename r = Some w"
    by (auto simp: references_to_basenames_def map_filter_def)
  moreover from this(1) assms(1) have "store_ref r" "list_all visible r" by (simp_all add: list_all_iff)
  ultimately show ?thesis by (intro visible_basename)
qed

lemma nix32_visible:
  assumes "length h = 32"
  shows "list_all visible (''sha256:'' @ to_nix_base32 h)"
proof -
  note tx = base32_text [OF assms]
  have alphabet: "list_all visible nix_alphabet" "length nix_alphabet = 32"
    by (simp_all add: nix_alphabet_def visible_def)
  have "visible (to_nix_base32 h ! i)" if "i < 52" for i
    using tx(3) [of "51 - i"] tx(4) [of "51 - i"] that alphabet
    by (simp add: list_all_length)
  then have "list_all visible (to_nix_base32 h)" by (simp add: list_all_length tx(1))
  then show ?thesis by (simp add: visible_def)
qed

lemma show_nat_visible: "list_all visible (show_nat n)"
  by (auto simp: list_all_iff visible_def is_digit_def dest!: show_nat_digits)

lemma narinfo_fields_ok:
  assumes "servable e" "list_all visible (to_hex (he_blake3 e))"
  shows "\<forall>(k, v) \<in> set (narinfo_fields to_hex e). key_ok k \<and> (v = [] \<or> tidy v)"
proof -
  have url: "tidy (''nar/'' @ to_hex (he_blake3 e) @ ''.nar'')"
    using assms(2) by (intro visible_tidy) (simp_all add: visible_def)
  have "tidy (he_store_path e)" "tidy (''sha256:'' @ to_nix_base32 (he_sha256 e))"
    "tidy (show_nat (unat (he_nar_size e)))"
    using assms(1) nix32_visible [of "he_sha256 e"]
    by (intro visible_tidy; simp add: servable_def show_nat_visible)+
  moreover have "references_to_basenames (he_references e) = [] \<or>
      tidy (join '' '' (references_to_basenames (he_references e)))"
    using assms(1) references_visible by (auto simp: servable_def intro!: tidy_join)
  moreover have "tidy b" if "he_deriver e = Some d" "store_path_basename d = Some b" for d b
    using assms(1) that visible_basename [of d b] by (auto simp: servable_def visible_tidy)
  ultimately show ?thesis using url
    by (auto simp: narinfo_fields_def key_ok_def tidy_def visible_def split: option.splits bind_splits)
qed

lemma narinfo_parses:
  assumes "servable e" "list_all visible (to_hex (he_blake3 e))"
  shows "parse_narinfo unhex unb64 (narinfo_body to_hex e) = Inr (served_info to_hex e)"
proof -
  have sha: "length (he_sha256 e) = 32" using assms(1) by (simp add: servable_def)
  have hash: "parse_prefixed_sha256 unhex unb64 (''sha256:'' @ to_nix_base32 (he_sha256 e)) = Inr (he_sha256 e)"
    unfolding parse_prefixed_sha256_def strip_prefix_append option.case
    using base32_text(1) [OF sha] base32_text_decodes [OF sha] sha
    by (simp add: parse_sha256_hash_def sha256_from_slice_def)
  have comp: "from_narinfo ''none'' = NoCompression" by code_simp
  have refs: "basenames_to_references (join '' '' (references_to_basenames (he_references e))) = he_references e"
    using assms(1) by (intro references_roundtrip) (auto simp: servable_def list_all_iff)
  have deriver: "trim b = b \<and> b \<noteq> [] \<and> b \<noteq> ''unknown-deriver'' \<and> store_prefix @ b = d"
    if "he_deriver e = Some d" "store_path_basename d = Some b" for d b
  proof -
    from assms(1) that(1) have d: "store_ref d" "list_all visible d" "d \<noteq> store_prefix @ ''unknown-deriver''"
      by (simp_all add: servable_def)
    from visible_basename [OF d(1,2) that(2)] have "list_all visible b" "b \<noteq> []" by simp_all
    moreover have "d = store_prefix @ b" using that(2) by (simp add: store_path_basename_def strip_prefix_Some_iff)
    ultimately show ?thesis using d(3) by (auto simp: trim_tidy visible_tidy)
  qed
  have based: "\<exists>b. store_path_basename d = Some b" if "he_deriver e = Some d" for d
    using assms(1) that by (auto simp: servable_def elim!: store_refE)
  show ?thesis
    unfolding parse_narinfo_fields [OF narinfo_body_fields narinfo_fields_ok [of e to_hex, OF assms]]
    using hash comp refs deriver based
    by (cases "he_deriver e")
       (auto simp: narinfo_fields_def parse_field_def parse_start_def parse_finish_def served_info_def)
qed

section \<open>Requests\<close>

definition http_request :: "string \<Rightarrow> string \<Rightarrow> byte list" where
  "http_request m path = as_bytes (m @ '' '' @ path @ '' HTTP/1.1'' @ crlf @ crlf)"

definition plain_text :: "string \<Rightarrow> bool" where
  "plain_text s \<longleftrightarrow> s \<noteq> [] \<and> list_all visible s"

lemma newline_byte: "byte_of c = 10 \<longleftrightarrow> c = CHR 0x0A"
proof -
  have "byte_of c = 10 \<longleftrightarrow> byte_of c = byte_of (CHR 0x0A)" by (simp add: byte_of_def)
  then show ?thesis by (metis char_at_byte_of)
qed

lemma read_line_cursor:
  assumes "CHR 0x0A \<notin> set l" "is_ascii l"
  shows "read_line (cursor (as_bytes (l @ newline @ rest))) = Inr (l @ newline, cursor (as_bytes rest))"
proof -
  have a: "\<forall>b \<in> set (as_bytes l). b \<noteq> 10"
    using assms(1) by (auto simp: as_bytes_def newline_byte)
  have split: "as_bytes (l @ newline @ rest) = as_bytes l @ 10 # as_bytes rest"
    by (simp add: as_bytes_def newline_def byte_of_def)
  have line: "as_bytes l @ [10] = as_bytes (l @ newline)"
    by (simp add: as_bytes_def newline_def byte_of_def)
  have "is_ascii (l @ newline)" using assms(2) by (simp add: is_ascii_def newline_def)
  then have "from_utf8 (as_bytes l @ [10]) = Some (l @ newline)"
    unfolding line by (simp add: from_utf8_as_bytes)
  with a show ?thesis
    unfolding read_line_def Let_def split avail_cursor
    by (simp add: takeWhile_append2 dropWhile_append2 cursor_def)
qed

lemma split_ws_word:
  assumes "no_ws w" "w \<noteq> []"
  shows "split_ws_from [] (w @ CHR '' '' # r) = w # split_ws_from [] r"
    and "split_ws_from [] (w @ [CHR 0x0D, CHR 0x0A]) = [w]"
proof -
  have sp: "(of_char (CHR '' '') :: nat) < 128" "(of_char (CHR 0x0D) :: nat) < 128" by simp_all
  show "split_ws_from [] (w @ CHR '' '' # r) = w # split_ws_from [] r"
    using split_ws_from_word [OF assms(1) sp(1), of "[]" r] assms(2) by simp
  have "ws_len [CHR 0x0D, CHR 0x0A] = 1" "ws_len [CHR 0x0A] = 1" by (simp_all add: ws_len_def ws1_def)
  then show "split_ws_from [] (w @ [CHR 0x0D, CHR 0x0A]) = [w]"
    using split_ws_from_word [OF assms(1) sp(2), of "[]" "[CHR 0x0A]"] assms(2) by simp
qed

lemma request_words:
  assumes "plain_text m" "plain_text path"
  shows "split_whitespace (m @ '' '' @ path @ '' HTTP/1.1'' @ crlf) = [m, path, ''HTTP/1.1'']"
proof -
  have nw: "no_ws m" "no_ws path" "m \<noteq> []" "path \<noteq> []"
    using assms by (simp_all add: plain_text_def no_ws_visible)
  have http: "no_ws ''HTTP/1.1''" by (rule no_ws_visible) (simp add: visible_def)
  have "m @ '' '' @ path @ '' HTTP/1.1'' @ crlf =
      m @ CHR '' '' # (path @ CHR '' '' # (''HTTP/1.1'' @ [CHR 0x0D, CHR 0x0A]))"
    by (simp add: crlf_def)
  moreover have "split_ws_from [] (''HTTP/1.1'' @ [CHR 0x0D, CHR 0x0A]) = [''HTTP/1.1'']"
    by (rule split_ws_word(2) [OF http]) simp
  ultimately show ?thesis
    by (simp only: split_whitespace_def split_ws_word(1) [OF nw(1,3)] split_ws_word(1) [OF nw(2,4)])
qed

text \<open>A well-formed request is routed by its method and path.\<close>

lemma handle_request:
  assumes "plain_text m" "plain_text path"
  shows "handle_connection su (cursor (http_request m path)) s =
     (if m \<noteq> ''GET'' \<and> m \<noteq> ''HEAD''
      then send_response 405 ''Method Not Allowed'' ''text/plain'' (as_bytes ''Method Not Allowed'') False s
      else route su path (m = ''HEAD'') s)"
proof -
  let ?l = "m @ '' '' @ path @ '' HTTP/1.1'' @ [CHR 0x0D]"
  have req: "http_request m path = as_bytes (?l @ newline @ ([CHR 0x0D] @ newline @ []))"
    by (simp add: http_request_def crlf_def newline_def)
  have asc: "is_ascii ?l" and nl: "CHR 0x0A \<notin> set ?l"
    using assms by (auto simp: plain_text_def is_ascii_def visible_def list_all_iff)
  have "split_whitespace (?l @ newline) = [m, path, ''HTTP/1.1'']"
    using request_words [OF assms] by (simp add: crlf_def newline_def)
  moreover have "skip_headers (cursor (as_bytes ([CHR 0x0D] @ newline @ []))) = Inr (cursor [])"
  proof -
    have "read_line (cursor (as_bytes ([CHR 0x0D] @ newline @ []))) = Inr ([CHR 0x0D] @ newline, cursor (as_bytes []))"
      by (rule read_line_cursor) (simp_all add: is_ascii_def)
    moreover have "trim ([CHR 0x0D] @ newline) = []" unfolding newline_def by code_simp
    ultimately show ?thesis by (subst skip_headers.simps) (simp add: as_bytes_def)
  qed
  ultimately show ?thesis
    unfolding handle_connection_def req read_line_cursor [OF nl asc] by (simp add: Let_def)
qed

text \<open>What a handler sends to a HEAD request is a prefix of what it sends to the same GET request.\<close>

definition extends :: "unit result \<times> send_stream \<Rightarrow> unit result \<times> send_stream \<Rightarrow> bool" where
  "extends get head \<longleftrightarrow> prefix (ss_sent (snd head)) (ss_sent (snd get))"

lemma extends_refl [simp]: "extends x x"
  by (simp add: extends_def)

lemma extends_response [simp]:
  "ss_limit s = None \<Longrightarrow>
     extends (send_response status txt ctype body False s) (send_response status txt ctype body True s)"
  by (simp add: extends_def send_response_open)

lemma extends_narinfo: "ss_limit s = None \<Longrightarrow> extends (handle_narinfo su path False s) (handle_narinfo su path True s)"
  by (auto simp: handle_narinfo_def Let_def split: sum.split option.split)

lemma extends_body:
  assumes "ss_limit s = None" "\<And>s1. ss_limit s1 = None \<Longrightarrow> prefix (ss_sent s1) (ss_sent (snd (f s1)))"
  shows "extends (st_bind (http_write h s) (\<lambda>_. f)) (st_bind (http_write h s) (\<lambda>_ s1. (Inr (), s1)))"
  using assms(2) [of "s\<lparr>ss_sent := ss_sent s @ h\<rparr>"] assms(1) by (simp add: extends_def)

lemma extends_nar_hash:
  assumes "ss_limit s = None"
  shows "extends (handle_nar_hash su h False s) (handle_nar_hash su h True s)"
proof (cases "su_poisoned su")
  case False
  show ?thesis
  proof (cases "ok_flatten (get_by_blake3 (su_sql su) h (su_index su))")
    case None
    then show ?thesis using False assms by (simp add: handle_nar_hash_def)
  next
    case (Some e)
    show ?thesis
    proof (cases "su_exists su (he_store_path e)")
      case True
      with Some False show ?thesis
        unfolding handle_nar_hash_def
        by simp (rule extends_body [OF assms], simp split: sum.split prod.split)
    next
      case away: False
      show ?thesis
      proof (cases "try_fetch_nar_from_peer h (su_p2p su)")
        case (Inr x)
        show ?thesis
        proof (cases x)
          case None
          with Inr Some False away assms show ?thesis by (simp add: handle_nar_hash_def)
        next
          case (Some data)
          with Inr \<open>ok_flatten _ = Some e\<close> False away show ?thesis
            unfolding handle_nar_hash_def
            by simp (rule extends_body [OF assms], simp)
        qed
      qed (use Some False away in \<open>simp add: handle_nar_hash_def\<close>)
    qed
  qed
qed (simp add: handle_nar_hash_def)

lemma extends_nar:
  assumes "ss_limit s = None"
  shows "extends (handle_nar su path False s) (handle_nar su path True s)"
proof -
  define x where "x = trim_end_matches ''.nar'' (trim_start_matches ''/nar/'' path)"
  define d where "d = (case su_unhex su x of Inr b \<Rightarrow> if length b = 32 then Some b else None | Inl _ \<Rightarrow> None)"
  have nar: "handle_nar su path is_head s = (case d of
       None \<Rightarrow> send_response 400 ''Bad Request'' ''text/plain'' (as_bytes ''Invalid hash'') is_head s
     | Some h \<Rightarrow> handle_nar_hash su h is_head s)" for is_head
    by (simp only: handle_nar_def x_def d_def Let_def)
  show ?thesis
  proof (cases d)
    case None
    then show ?thesis using assms by (simp add: nar)
  next
    case (Some h)
    then show ?thesis using assms by (simp add: nar extends_nar_hash)
  qed
qed

lemma extends_route:
  "ss_limit s = None \<Longrightarrow> extends (route su path False s) (route su path True s)"
  by (simp add: route_def extends_narinfo extends_nar handle_cache_info_def)

lemma not_suffix_hex: "list_all is_hexdigit h \<Longrightarrow> \<not> suffix ''.nar'' h" "list_all is_hexdigit h \<Longrightarrow> \<not> prefix ''/nar/'' h"
  by (auto simp: suffix_def prefix_def is_hexdigit_def Let_def)

lemma hex_visible: "list_all is_hexdigit h \<Longrightarrow> list_all visible h"
  by (auto simp: list_all_iff is_hexdigit_def visible_def Let_def)

lemma nar_path:
  assumes "list_all is_hexdigit h"
  shows "trim_end_matches ''.nar'' (trim_start_matches ''/nar/'' (''/nar/'' @ h @ ''.nar'')) = h"
proof -
  have "\<not> prefix ''/nar/'' (h @ ''.nar'')"
    using assms by (cases h) (auto simp: prefix_def is_hexdigit_def Let_def)
  then have "trim_start_matches ''/nar/'' (''/nar/'' @ (h @ ''.nar'')) = h @ ''.nar''"
    by (intro trim_start_matches_once) simp_all
  moreover have "trim_end_matches ''.nar'' (h @ ''.nar'') = h"
    using not_suffix_hex(1) [OF assms] by (intro trim_end_matches_once) simp_all
  ultimately show ?thesis by simp
qed

text \<open>The hash part of a store path: letters and digits only.\<close>

definition hash_text :: "string \<Rightarrow> bool" where
  "hash_text h \<longleftrightarrow> h \<noteq> [] \<and> list_all (\<lambda>c. c \<in> set nix_alphabet) h"

lemma hash_text_char: "c \<in> set nix_alphabet \<Longrightarrow> visible c \<and> c \<noteq> CHR ''/'' \<and> c \<noteq> CHR ''.''"
  by (auto simp: nix_alphabet_def visible_def)

lemma narinfo_path:
  assumes "hash_text h"
  shows "trim_end_matches ''.narinfo'' (trim_start_matches ''/'' (''/'' @ h @ ''.narinfo'')) = h"
    and "list_all visible h"
proof -
  have ok: "\<forall>c \<in> set h. visible c \<and> c \<noteq> CHR ''/'' \<and> c \<noteq> CHR ''.''" "h \<noteq> []"
    using assms hash_text_char by (auto simp: hash_text_def list_all_iff)
  then have "\<not> prefix ''/'' (h @ ''.narinfo'')" by (cases h) auto
  moreover have "\<not> suffix ''.narinfo'' h"
  proof
    assume "suffix ''.narinfo'' h"
    then have "CHR ''.'' \<in> set h" by (auto simp: suffix_def)
    with ok(1) show False by blast
  qed
  ultimately show "trim_end_matches ''.narinfo'' (trim_start_matches ''/'' (''/'' @ h @ ''.narinfo'')) = h"
    using trim_start_matches_once [of "''/''" "h @ ''.narinfo''"] trim_end_matches_once [of "''.narinfo''" h] by simp
  show "list_all visible h" using ok by (simp add: list_all_iff)
qed

lemma route_narinfo:
  assumes "hash_text h"
  shows "route su (''/'' @ h @ ''.narinfo'') is_head s = handle_narinfo su (''/'' @ h @ ''.narinfo'') is_head s"
proof -
  have "CHR ''.'' \<notin> set ''/nix-cache-info''" by simp
  then have "''/'' @ h @ ''.narinfo'' \<noteq> ''/nix-cache-info''" by (metis append_Cons in_set_conv_decomp append_assoc)
  moreover have "ends_with (''/'' @ h @ ''.narinfo'') ''.narinfo''"
    unfolding ends_with_def by (rule suffixI [of _ "''/'' @ h"]) simp
  ultimately show ?thesis by (simp add: route_def)
qed

lemma route_nar:
  "route su (''/nar/'' @ h @ ''.nar'') is_head s = handle_nar su (''/nar/'' @ h @ ''.nar'') is_head s"
proof -
  have "''/nar/'' @ h @ ''.nar'' \<noteq> ''/nix-cache-info''" by simp
  moreover have "\<not> ends_with (''/nar/'' @ h @ ''.nar'') ''.narinfo''"
    by (auto simp: ends_with_def suffix_def dest: arg_cong [where f = last])
  moreover have "starts_with (''/nar/'' @ h @ ''.nar'') ''/nar/''" by (simp add: starts_with_def)
  moreover have "ends_with (''/nar/'' @ h @ ''.nar'') ''.nar''"
    unfolding ends_with_def by (rule suffixI [of _ "''/nar/'' @ h"]) simp
  ultimately show ?thesis by (simp add: route_def)
qed

lemma serve_narinfo:
  assumes "su_poisoned su = False" "hash_text h"
    and "(case ok_flatten (get_by_store_hash (su_sql su) h (su_index su)) of
            Some e \<Rightarrow> Some e | None \<Rightarrow> try_find_via_gossip h (su_p2p su)) = Some e"
  shows "handle_connection su (cursor (http_request ''GET'' (''/'' @ h @ ''.narinfo''))) open_stream =
    (let body = as_bytes (narinfo_body (su_to_hex su) e)
     in (Inr (), open_stream\<lparr>ss_sent := as_bytes (http_head 200 ''OK'' ''text/x-nix-narinfo'' (length body)) @ body\<rparr>))"
proof -
  have plain: "plain_text ''GET''" "plain_text (''/'' @ h @ ''.narinfo'')"
    using narinfo_path(2) [OF assms(2)] by (simp_all add: plain_text_def visible_def)
  have path: "trim_end_matches ''.narinfo'' (trim_start_matches ''/'' (''/'' @ h @ ''.narinfo'')) = h"
    by (rule narinfo_path [OF assms(2)])
  show ?thesis
    unfolding handle_request [OF plain] route_narinfo [OF assms(2)] handle_narinfo_def path
    using assms(1,3) by (simp add: Let_def send_response_open open_stream_def)
qed

lemma serve_nar_path:
  assumes "list_all is_hexdigit x" "su_unhex su x = Inr h" "length h = 32"
  shows "handle_connection su (cursor (http_request ''GET'' (''/nar/'' @ x @ ''.nar''))) s = handle_nar_hash su h False s"
proof -
  have plain: "plain_text ''GET''" "plain_text (''/nar/'' @ x @ ''.nar'')"
    using hex_visible [OF assms(1)] by (simp_all add: plain_text_def visible_def)
  show ?thesis
    unfolding handle_request [OF plain] route_nar handle_nar_def nar_path [OF assms(1)]
    using assms(2,3) by simp
qed

section \<open>Properties of the substituter\<close>

text \<open>
  C37: a store path in the index can be substituted: the GET for its hash is answered with a
  narinfo that the cache client reads back to the entry's path, hash, size, references and
  deriver, and the GET for the URL this narinfo names is answered with the NAR of the store path.
\<close>

theorem substitution_works:
  assumes "su_poisoned su = False" "su_sql su = None" "hash_text h" "servable e"
    and "get_by_store_hash None h (su_index su) = Inr (Some e)"
    and "get_by_blake3 None (he_blake3 e) (su_index su) = Inr (Some e)"
    and "list_all is_hexdigit (su_to_hex su (he_blake3 e))"
    and "su_unhex su (su_to_hex su (he_blake3 e)) = Inr (he_blake3 e)" "length (he_blake3 e) = 32"
    and "su_exists su (he_store_path e)"
    and "serialize_path (su_sha256 su) (su_blake3 su) (he_store_path e) (su_node su (he_store_path e)) = Inr (nar, info)"
  shows "let body = narinfo_body (su_to_hex su) e; served = served_info (su_to_hex su) e in
     handle_connection su (cursor (http_request ''GET'' (''/'' @ h @ ''.narinfo''))) open_stream =
       (Inr (), open_stream\<lparr>ss_sent := as_bytes (http_head 200 ''OK'' ''text/x-nix-narinfo'' (length body)) @ as_bytes body\<rparr>) \<and>
     parse_narinfo unhex unb64 body = Inr served \<and>
     handle_connection su (cursor (http_request ''GET'' (''/'' @ cn_url served))) open_stream =
       (Inr (), open_stream\<lparr>ss_sent := nar_head (unat (cn_nar_size served)) @ nar\<rparr>)"
proof -
  have 1: "handle_connection su (cursor (http_request ''GET'' (''/'' @ h @ ''.narinfo''))) open_stream =
      (let body = as_bytes (narinfo_body (su_to_hex su) e)
       in (Inr (), open_stream\<lparr>ss_sent := as_bytes (http_head 200 ''OK'' ''text/x-nix-narinfo'' (length body)) @ body\<rparr>))"
    using assms(1-5) by (intro serve_narinfo) (simp_all add: ok_flatten_def)
  have 2: "parse_narinfo unhex unb64 (narinfo_body (su_to_hex su) e) = Inr (served_info (su_to_hex su) e)"
    by (rule narinfo_parses [of e "su_to_hex su" unhex unb64, OF assms(4) hex_visible [OF assms(7)]])
  have 3: "handle_nar_hash su (he_blake3 e) False open_stream =
      (Inr (), open_stream\<lparr>ss_sent := nar_head (unat (he_nar_size e)) @ nar\<rparr>)"
    using assms by (simp add: handle_nar_hash_def ok_flatten_def join_blocking_def open_stream_def)
  have url: "''/'' @ cn_url (served_info (su_to_hex su) e) = ''/nar/'' @ su_to_hex su (he_blake3 e) @ ''.nar''"
    by (simp add: served_info_def)
  have size: "cn_nar_size (served_info (su_to_hex su) e) = he_nar_size e" by (simp add: served_info_def)
  show ?thesis
    unfolding Let_def url size serve_nar_path [OF assms(7-9)] 3 2 1 by simp
qed

definition sample_substituter :: substituter where
  "sample_substituter = \<lparr>su_config = substituter_default, su_index = snd (index_insert None (sample_entry 5 ''abc-hello'') []),
     su_poisoned = False, su_sql = None, su_p2p = None, su_exists = (\<lambda>_. True),
     su_node = (\<lambda>_. FileNode 0x1A4 2 (Inr [Inr [104, 105]])), su_sha256 = toy_hash, su_blake3 = toy_hash,
     su_to_hex = (\<lambda>h. if h = replicate 32 5 then ''05'' else ''00''),
     su_unhex = (\<lambda>x. if x = ''05'' then Inr (replicate 32 5) else Inr (replicate 32 0))\<rparr>"

theorem substitution_works_witness:
  "\<exists>served. parse_narinfo (\<lambda>_. Inl []) (\<lambda>_. Inl [])
      (narinfo_body (su_to_hex sample_substituter) (sample_entry 5 ''abc-hello'')) = Inr served \<and>
    handle_connection sample_substituter (cursor (http_request ''GET'' (''/'' @ cn_url served))) open_stream =
      (Inr (), open_stream\<lparr>ss_sent := nar_head (unat (cn_nar_size served)) @ nar_bytes (Reg False [104, 105])\<rparr>)"
proof -
  let ?e = "sample_entry 5 ''abc-hello''" and ?su = sample_substituter
  have st: "stored ?e = ?e" using sample_entry_ok by (intro stored_plain)
  have row: "tuple_to_entry (row_of_entry ?e) = Inr ?e" using sample_entry_ok by (simp add: st)
  have path: "he_store_path ?e = store_prefix @ ''abc-hello''" by (simp add: sample_entry_def)
  have "extract_store_hash (store_prefix @ ''abc-hello'') = Some ''abc''"
    by (simp add: extract_store_hash_def before_char_def)
  then have h: "get_by_store_hash None ''abc'' (su_index ?su) = Inr (Some ?e)"
    using row by (simp add: sample_substituter_def get_by_store_hash_def with_sql_def index_insert_def insert_row_def
        optional_tuple_to_entry_def, simp add: row_of_entry_def path)
  have b: "get_by_blake3 None (he_blake3 ?e) (su_index ?su) = Inr (Some ?e)"
    using row by (simp add: sample_substituter_def get_by_blake3_def with_sql_def index_insert_def insert_row_def
        optional_tuple_to_entry_def, simp add: row_of_entry_def)
  have serv: "servable ?e"
  proof -
    have ref: "store_ref (store_prefix @ w) \<longleftrightarrow> w \<noteq> [] \<and> no_ws w" for w by (simp add: store_ref_def)
    have "list_all visible store_prefix" "store_prefix \<noteq> []" by (simp_all add: store_prefix_def visible_def)
    moreover have "no_ws ''r1''" "no_ws ''r2''" "no_ws ''d.drv''" by (rule no_ws_visible, simp add: visible_def)+
    ultimately show ?thesis by (simp add: servable_def sample_entry_def ref) (simp add: visible_def)
  qed
  obtain info where nar: "serialize_path (su_sha256 ?su) (su_blake3 ?su) (he_store_path ?e) (su_node ?su (he_store_path ?e)) =
      Inr (nar_bytes (Reg False [104, 105]), info)"
    unfolding serialize_path_iff by (simp add: sample_substituter_def file_contents_def)
  have basic: "su_poisoned ?su = False" "su_sql ?su = None" "hash_text ''abc''"
      "list_all is_hexdigit (su_to_hex ?su (he_blake3 ?e))" "su_exists ?su (he_store_path ?e)"
      "su_unhex ?su (su_to_hex ?su (he_blake3 ?e)) = Inr (he_blake3 ?e)" "length (he_blake3 ?e) = 32"
    by (simp_all add: sample_substituter_def hash_text_def nix_alphabet_def sample_entry_def is_hexdigit_def)
  from substitution_works [where su = ?su, OF basic(1-3) serv h b basic(4) basic(6,7,5) nar]
  show ?thesis by (auto simp: Let_def)
qed

text \<open>
  What a HEAD request is sent is the beginning of what the same GET request is sent, for
  every path and state of the server, on a connection that does not fail.
\<close>

theorem head_is_prefix_of_get:
  assumes "plain_text path"
  shows "prefix (ss_sent (snd (handle_connection su (cursor (http_request ''HEAD'' path)) open_stream)))
                (ss_sent (snd (handle_connection su (cursor (http_request ''GET'' path)) open_stream)))"
proof -
  have "plain_text ''GET''" "plain_text ''HEAD''" by (simp_all add: plain_text_def visible_def)
  moreover have "ss_limit open_stream = None" by (simp add: open_stream_def)
  ultimately show ?thesis
    using extends_route [of open_stream su path] by (simp add: handle_request assms extends_def)
qed

theorem head_is_prefix_of_get_witness:
  "prefix (ss_sent (snd (handle_connection sample_substituter (cursor (http_request ''HEAD'' ''/nix-cache-info'')) open_stream)))
          (ss_sent (snd (handle_connection sample_substituter (cursor (http_request ''GET'' ''/nix-cache-info'')) open_stream)))"
  by (rule head_is_prefix_of_get) (simp add: plain_text_def visible_def)

text \<open>
  A path known only through gossip is announced with a zero hash: the narinfo names an
  all-zero SHA-256 and a URL that the same server answers with 404.
\<close>

theorem gossip_narinfo_dead_url:
  assumes "su_poisoned su = False" "hash_text h" "su_p2p su = Some ctx"
    and "ok_flatten (get_by_store_hash (su_sql su) h (su_index su)) = None"
    and "find (provides_hash h) (concat (map snd (gs_providers (pc_gossip ctx)))) = Some p"
    and "ok_flatten (get_by_blake3 (su_sql su) (replicate 32 0) (su_index su)) = None"
    and "list_all is_hexdigit (su_to_hex su (replicate 32 0))"
    and "su_unhex su (su_to_hex su (replicate 32 0)) = Inr (replicate 32 0)"
    and "pi_store_path p \<noteq> []" "list_all visible (pi_store_path p)"
  shows "\<exists>body. handle_connection su (cursor (http_request ''GET'' (''/'' @ h @ ''.narinfo''))) open_stream =
       (Inr (), open_stream\<lparr>ss_sent := as_bytes (http_head 200 ''OK'' ''text/x-nix-narinfo'' (length body)) @ as_bytes body\<rparr>) \<and>
     (\<exists>served. parse_narinfo unhex unb64 body = Inr served \<and> cn_nar_hash served = replicate 32 0 \<and>
        handle_connection su (cursor (http_request ''GET'' (''/'' @ cn_url served))) open_stream =
          send_response 404 ''Not Found'' ''text/plain'' (as_bytes ''Not Found'') False open_stream)"
proof -
  let ?e = "gossip_entry p"
  have "try_find_via_gossip h (su_p2p su) = Some ?e"
    using assms(3,5) by (simp add: try_find_via_gossip_def)
  with assms(4) have 1: "handle_connection su (cursor (http_request ''GET'' (''/'' @ h @ ''.narinfo''))) open_stream =
      (let body = as_bytes (narinfo_body (su_to_hex su) ?e)
       in (Inr (), open_stream\<lparr>ss_sent := as_bytes (http_head 200 ''OK'' ''text/x-nix-narinfo'' (length body)) @ body\<rparr>))"
    by (intro serve_narinfo [OF assms(1,2)]) simp
  have "servable ?e" "he_blake3 ?e = replicate 32 0"
    using assms(9,10) by (simp_all add: servable_def gossip_entry_def)
  with assms(7) have 2: "parse_narinfo unhex unb64 (narinfo_body (su_to_hex su) ?e) = Inr (served_info (su_to_hex su) ?e)"
    by (intro narinfo_parses hex_visible) simp_all
  have url: "''/'' @ cn_url (served_info (su_to_hex su) ?e) = ''/nar/'' @ su_to_hex su (replicate 32 0) @ ''.nar''"
    by (simp add: served_info_def gossip_entry_def)
  have 3: "handle_connection su (cursor (http_request ''GET'' (''/'' @ cn_url (served_info (su_to_hex su) ?e)))) open_stream =
      send_response 404 ''Not Found'' ''text/plain'' (as_bytes ''Not Found'') False open_stream"
    unfolding url serve_nar_path [OF assms(7,8) length_replicate]
    using assms(1,6) by (simp add: handle_nar_hash_def)
  have 4: "cn_nar_hash (served_info (su_to_hex su) ?e) = replicate 32 0"
    by (simp add: served_info_def gossip_entry_def)
  show ?thesis using 1 2 3 4 by (auto simp: Let_def)
qed

theorem gossip_narinfo_dead_url_witness:
  "\<exists>su (served :: cache_nar_info). su_p2p su \<noteq> None \<and> cn_nar_hash served = replicate 32 0 \<and>
     handle_connection su (cursor (http_request ''GET'' (''/'' @ cn_url served))) open_stream =
       send_response 404 ''Not Found'' ''text/plain'' (as_bytes ''Not Found'') False open_stream"
proof -
  define p where "p = \<lparr>pi_endpoint_id = [1], pi_store_path = ''/nix/store/abc-x'', pi_nar_size = 9\<rparr>"
  define ctx where "ctx = \<lparr>pc_gossip = (gossip_new [0] False False)\<lparr>gs_providers := [([7], [p])]\<rparr>,
    pc_fetch = (\<lambda>_ _. throw (Connection ''offline''))\<rparr>"
  define su where "su = sample_substituter\<lparr>su_index := [], su_p2p := Some ctx\<rparr>"
  have none: "ok_flatten (get_by_store_hash (su_sql su) ''abc'' (su_index su)) = None"
      "ok_flatten (get_by_blake3 (su_sql su) (replicate 32 0) (su_index su)) = None"
    by (simp_all add: su_def sample_substituter_def get_by_store_hash_def get_by_blake3_def with_sql_def
        optional_tuple_to_entry_def ok_flatten_def)
  have "provides_hash ''abc'' p" unfolding p_def provides_hash_def by code_simp
  then have found: "find (provides_hash ''abc'') (concat (map snd (gs_providers (pc_gossip ctx)))) = Some p"
    by (simp add: ctx_def gossip_new_def)
  have basic: "su_poisoned su = False" "hash_text ''abc''" "su_p2p su = Some ctx"
      "list_all is_hexdigit (su_to_hex su (replicate 32 0))"
      "su_unhex su (su_to_hex su (replicate 32 0)) = Inr (replicate 32 0)"
      "pi_store_path p \<noteq> []" "list_all visible (pi_store_path p)"
    by (simp_all add: su_def sample_substituter_def hash_text_def nix_alphabet_def is_hexdigit_def p_def visible_def)
  note dead = gossip_narinfo_dead_url [where su = su, OF basic(1-3) none(1) found none(2) basic(4-7)]
  from dead [of "\<lambda>_. Inl []" "\<lambda>_. Inl []"]
  have "\<exists>served :: cache_nar_info. cn_nar_hash served = replicate 32 0 \<and>
     handle_connection su (cursor (http_request ''GET'' (''/'' @ cn_url served))) open_stream =
       send_response 404 ''Not Found'' ''text/plain'' (as_bytes ''Not Found'') False open_stream" by blast
  with basic(3) show ?thesis by blast
qed

end
