(* ===== verification/Commands.thy ===== *)
theory Commands
  imports Node Builder_Worker Substituter
begin

text \<open>
  The commands of \<open>main.rs\<close>: the node configuration the command line gives, what the daemon
  starts, and the commands on the index, the providers and the build queue. The argument parser,
  the parsers of relay URLs, endpoint ids and socket addresses, and hex decoding are parameters;
  a command's value is its result and the node it leaves; what it prints is in \<open>Reports\<close> and
  \<open>Main_Command\<close>.
\<close>

section \<open>The configuration\<close>

record cli =
  cl_data_dir :: string
  cl_relay_mode :: string
  cl_network :: "string option"
  cl_peers :: "string list"
  cl_substituters :: "string list"
  cl_no_substituters :: bool

definition relay_config :: "(string \<Rightarrow> string + string) \<Rightarrow> string \<Rightarrow> 'k node_config \<Rightarrow> 'k node_config result" where
  "relay_config parse_relay mode config =
     (if mode = ''disabled'' then Inr (with_relay_mode RelayDisabled config)
      else if mode = ''default'' then Inr config
      else if mode = ''staging'' then Inr (with_relay_mode RelayStaging config)
      else (case parse_relay mode of
         Inl e \<Rightarrow> throw (Protocol (''invalid relay URL: '' @ e))
       | Inr url \<Rightarrow> Inr (with_relay_mode (RelayCustom url) config)))"

fun parse_peers :: "(string \<Rightarrow> string + endpoint_id) \<Rightarrow> string list \<Rightarrow> endpoint_id list result" where
  "parse_peers parse_id [] = Inr []"
| "parse_peers parse_id (peer # peers) =
     (case parse_id peer of
        Inl e \<Rightarrow> throw (Protocol (''invalid peer ID '' @ [CHR 0x27] @ peer @ [CHR 0x27] @ '': '' @ e))
      | Inr p \<Rightarrow> rbind (parse_peers parse_id peers) (\<lambda>ids. Inr (p # ids)))"

definition config_of_cli :: "(string \<Rightarrow> string + string) \<Rightarrow> (string \<Rightarrow> string + endpoint_id) \<Rightarrow> cli \<Rightarrow> 'k node_config result" where
  "config_of_cli parse_relay parse_id cl =
     rbind (relay_config parse_relay (cl_relay_mode cl) (node_config_new (cl_data_dir cl))) (\<lambda>config.
     let config = (case cl_network cl of None \<Rightarrow> config | Some network \<Rightarrow> with_network_id network config)
     in rbind (if cl_peers cl = [] then Inr config
               else rbind (parse_peers parse_id (cl_peers cl)) (\<lambda>ids. Inr (with_bootstrap_peers ids config))) (\<lambda>config.
     Inr (if cl_no_substituters cl then with_substituters [] config
          else if cl_substituters cl \<noteq> [] then with_substituters (cl_substituters cl) config
          else config)))"

section \<open>The daemon\<close>

text \<open>
  What the daemon runs until it is told to stop, beside the NAR server every daemon runs: the
  substituter's configuration, the builder's, the control socket and the period of the cleanup.
\<close>

record daemon =
  dm_substituter :: substituter_config
  dm_builder :: "builder_config option"
  dm_control :: "string option"
  dm_cleanup :: "u64 option"

record daemon_args =
  da_bind :: string
  da_priority :: u32
  da_builder :: bool
  da_features :: "string list"
  da_stream_logs :: bool
  da_cleanup_interval :: u64

definition path_join :: "string \<Rightarrow> string \<Rightarrow> string" where
  "path_join dir name = (if starts_with name ''/'' then name
     else if dir = [] \<or> last dir = CHR ''/'' then dir @ name else dir @ ''/'' @ name)"

definition builder_enabled :: "daemon_args \<Rightarrow> bool" where
  "builder_enabled a \<longleftrightarrow> da_builder a \<or> da_features a \<noteq> []"

definition builder_features :: "string list \<Rightarrow> string list" where
  "builder_features features = (if features = [] then [''x86_64-linux''] else features)"

text \<open>
  \<open>run_daemon\<close> up to the wait for its end. \<open>spawned\<close> is the node of the configuration,
  \<open>parse_addr\<close> the parser of socket addresses.
\<close>

definition run_daemon :: "(string \<Rightarrow> string + string) \<Rightarrow> ('k node_config \<Rightarrow> 'u node result) \<Rightarrow> 'k node_config \<Rightarrow> daemon_args \<Rightarrow>
    ('u node \<times> daemon) result" where
  "run_daemon parse_addr spawned config a =
     (if builder_enabled a \<and> nc_network_id config = None
      then throw (Protocol ''Builder mode requires gossip. Use --network to enable gossip.'')
      else rbind (spawned config) (\<lambda>nd.
      case parse_addr (da_bind a) of
        Inl e \<Rightarrow> throw (Protocol (''invalid bind address '' @ [CHR 0x27] @ da_bind a @ [CHR 0x27] @ '': '' @ e))
      | Inr bind_addr \<Rightarrow>
          if builder_enabled a \<and> \<not> gossip_enabled nd then panic ''gossip required for builder''
          else Inr (nd, \<lparr>dm_substituter = \<lparr>sc_bind_addr = bind_addr, sc_priority = da_priority a\<rparr>,
            dm_builder = (if builder_enabled a
              then Some \<lparr>bc_system_features = builder_features (da_features a), bc_stream_logs = da_stream_logs a\<rparr>
              else None),
            dm_control = (if serves_control nd then Some (path_join (nc_data_dir config) ''control.sock'') else None),
            dm_cleanup = (if da_cleanup_interval a > 0 then Some (da_cleanup_interval a) else None)\<rparr>)))"

section \<open>Hashes in hex\<close>

definition blake3_from_hex :: "(string \<Rightarrow> string + byte list) \<Rightarrow> string \<Rightarrow> hash32 result" where
  "blake3_from_hex unhex s = (case unhex s of
     Inl e \<Rightarrow> throw (Protocol (''invalid hex: '' @ e)) | Inr bytes \<Rightarrow> blake3_from_slice bytes)"

section \<open>The index\<close>

text \<open>The file tree of \<open>add\<close> may be somewhere else than at the store path.\<close>

definition add_store_path :: "node_env \<Rightarrow> string \<Rightarrow> string option \<Rightarrow> 'u node \<Rightarrow> hash_entry result \<times> 'u node" where
  "add_store_path ne store_path path nd =
     (let fs_path = (case path of None \<Rightarrow> store_path | Some p \<Rightarrow> p)
      in if \<not> ne_exists ne fs_path then (throw (StorePathNotFound fs_path), nd)
         else index_store_path ne store_path fs_path nd)"

section \<open>Providers\<close>

text \<open>
  \<open>fetch\<close>: from the given node, or from a provider that gossip names. \<open>wait\<close> and \<open>later\<close> are
  what the gossip receiver does to the node during the two seconds of waiting and until the
  providers are read again.
\<close>

definition cmd_retry_config :: "u32 \<Rightarrow> u64 \<Rightarrow> retry_config" where
  "cmd_retry_config retries delay_ms =
     default_config\<lparr>max_retries := unat retries, initial_delay := real (unat delay_ms) / 1000\<rparr>"

definition no_providers :: error where
  "no_providers = Protocol ''No providers found via gossip. Try specifying --from directly.''"

definition find_provider :: "('u node \<Rightarrow> 'u node) \<Rightarrow> ('u node \<Rightarrow> 'u node) \<Rightarrow> node_env \<Rightarrow> hash32 \<Rightarrow> 'u node \<Rightarrow>
    provider_info result \<times> 'u node" where
  "find_provider wait later ne h nd =
     (if \<not> gossip_enabled nd
      then (throw (Protocol ''No --from specified and gossip not enabled. Use --network to enable gossip or specify --from.''), nd)
      else st_bind (query_providers ne h nd) (\<lambda>providers nd1.
           let nd2 = (if providers = [] then wait nd1 else nd1)
           in if providers = [] \<and> node_get_providers h nd2 = [] then (throw no_providers, nd2)
              else let nd3 = later nd2 in
                (case node_get_providers h nd3 of
                   [] \<Rightarrow> (panic ''index out of bounds'', nd3)
                 | provider # _ \<Rightarrow> (Inr provider, nd3))))"

definition fetch_nar_cmd :: "(string \<Rightarrow> string + byte list) \<Rightarrow> (string \<Rightarrow> string + endpoint_id) \<Rightarrow> ('u node \<Rightarrow> 'u node) \<Rightarrow>
    ('u node \<Rightarrow> 'u node) \<Rightarrow> node_env \<Rightarrow> (endpoint_id \<Rightarrow> nat \<Rightarrow> remote) \<Rightarrow> string option \<Rightarrow> string \<Rightarrow> u32 \<Rightarrow> u64 \<Rightarrow> 'u node \<Rightarrow>
    import_result result \<times> 'u node" where
  "fetch_nar_cmd unhex parse_id wait later ne dial from hash retries delay_ms nd =
     (case blake3_from_hex unhex hash of
        Inl e \<Rightarrow> (Inl e, nd)
      | Inr h \<Rightarrow>
          st_bind (st_bind (case from of
               Some peer \<Rightarrow> (case parse_id peer of
                   Inl e \<Rightarrow> (throw (Protocol (''invalid endpoint ID: '' @ e)), nd) | Inr remote_id \<Rightarrow> (Inr remote_id, nd))
             | None \<Rightarrow> st_bind (find_provider wait later ne h nd) (\<lambda>p nd1. (Inr (pi_endpoint_id p), nd1)))
           (\<lambda>remote_id. fetch_by_id_with_config ne dial remote_id h (cmd_retry_config retries delay_ms)))
          (\<lambda>(imported, _) nd1. (Inr imported, nd1)))"

definition query_providers_cmd :: "(string \<Rightarrow> string + byte list) \<Rightarrow> ('u node \<Rightarrow> 'u node) \<Rightarrow> node_env \<Rightarrow> string \<Rightarrow> 'u node \<Rightarrow>
    provider_info list result \<times> 'u node" where
  "query_providers_cmd unhex wait ne hash nd =
     (if \<not> gossip_enabled nd then (throw (error.Gossip ''Gossip not enabled. Use --network to enable.''), nd)
      else case blake3_from_hex unhex hash of
        Inl e \<Rightarrow> (Inl e, nd)
      | Inr h \<Rightarrow> st_bind (query_providers ne h nd) (\<lambda>_ nd1. let nd2 = wait nd1 in (Inr (node_get_providers h nd2), nd2)))"

section \<open>The build queue\<close>

definition queue_of :: "'u node \<Rightarrow> build_queue result" where
  "queue_of nd = ok_or (nd_queue nd)
     (Protocol ''Build queue not enabled. Use --network to enable gossip and the build queue.'')"

definition pending_line :: "build_job \<Rightarrow> string" where
  "pending_line j = ''  ['' @ show_nat (unat (bj_id j)) @ ''] '' @ bj_drv_path j @ '' (features: '' @
     join '', '' (bj_system_features j) @ '')''"

definition leased_line :: "(endpoint_id \<Rightarrow> string) \<Rightarrow> job_id \<times> leased_job \<Rightarrow> string" where
  "leased_line show_id = (\<lambda>(jid, l). ''  ['' @ show_nat (unat jid) @ ''] '' @ bj_drv_path (lj_job l) @ '' (builder: '' @
     show_id (lj_builder l) @ '', status: '' @ lj_status l @ '')'')"

text \<open>The lines \<open>build-queue\<close> prints.\<close>

definition show_build_queue :: "(endpoint_id \<Rightarrow> string) \<Rightarrow> 'u node \<Rightarrow> string list result" where
  "show_build_queue show_id nd = rbind (queue_of nd) (\<lambda>q.
     let stats = queue_stats_of q in
     Inr ([''Build Queue Status'', ''=================='',
           ''Pending jobs: '' @ show_nat (pending_count stats),
           ''Leased jobs: '' @ show_nat (leased_count stats),
           ''Completed jobs: '' @ show_nat (completed_count stats)] @
          (if pending_count stats > 0 then [[], ''Pending:''] @ map pending_line (list_pending q) else []) @
          (if leased_count stats > 0 then [[], ''In Progress:''] @ map (leased_line show_id) (list_leased q) else [])))"

text \<open>\<open>build-logs\<close> subscribes to one job or to all; an entry is printed with a final newline.\<close>

definition watch_subscribe :: "u64 option \<Rightarrow> 'u node \<Rightarrow> 'u node result" where
  "watch_subscribe job nd = rbind (queue_of nd) (\<lambda>q.
     Inr (nd\<lparr>nd_queue := Some (case job of Some jid \<Rightarrow> subscribe_logs jid q | None \<Rightarrow> subscribe_all_logs q)\<rparr>))"

definition log_text :: "(byte list \<Rightarrow> string) \<Rightarrow> log_entry \<Rightarrow> string" where
  "log_text lossy e =
     (let msg = lossy (le_data e)
      in ''[job '' @ show_nat (unat (le_job_id e)) @ ''][''
         @ (if le_stream e = 1 then ''stdout'' else ''stderr'') @ ''] '' @ msg
         @ (if ends_with msg [CHR 0x0A] then [] else [CHR 0x0A]))"

section \<open>Properties of the commands\<close>

text \<open>
  The features given on the command line replace the default system: a daemon started with some
  features, none of them a job's system, leaves that job in every queue it visits.
\<close>

theorem explicit_features_only:
  assumes "run_daemon parse_addr spawned config a = Inr (nd, dm)" "dm_builder dm = Some bc"
    and "da_features a \<noteq> []" "set (bj_system_features j) - set (da_features a) \<noteq> {}"
  shows "pull t1 t2 b (bc_system_features bc) q = (r, q') \<Longrightarrow> r \<noteq> Some j"
proof -
  from assms(1-3) have "bc_system_features bc = da_features a"
    by (auto simp: run_daemon_def builder_features_def split: if_splits sum.splits)
  then have "\<not> matches (bc_system_features bc) j" using assms(4) by (auto simp: matches_def list_all_iff)
  then show "pull t1 t2 b (bc_system_features bc) q = (r, q') \<Longrightarrow> r \<noteq> Some j"
    using pull_step [of t1 t2 b "bc_system_features bc" q j q'] by auto
qed

text \<open>
  The daemon's own panic, of a builder without gossip, cannot happen on a node that was started:
  when it starts, it runs the control socket exactly when a network is configured and a builder
  only then; an error is the one of the start or of the two checks.
\<close>

lemma daemon_starts:
  assumes "run_daemon parse_addr (\<lambda>c. spawn blake3 public from_key c mkdir_error key_loaded bind_error index subscribe
      parse_url client_error) config a = res"
    and "spawn blake3 public from_key config mkdir_error key_loaded bind_error index subscribe parse_url client_error = Inr nd0"
  shows "(\<forall>m. res \<noteq> panic m) \<and>
    (\<forall>nd dm. res = Inr (nd, dm) \<longrightarrow> nd = nd0 \<and> (dm_control dm \<noteq> None) = (nc_network_id config \<noteq> None) \<and>
       (dm_builder dm \<noteq> None) = builder_enabled a \<and> (builder_enabled a \<longrightarrow> nc_network_id config \<noteq> None))"
  using assms(1) spawned_serves_control [OF assms(2)]
  by (auto simp: run_daemon_def assms(2) split: sum.splits if_splits)

text \<open>
  \<open>build-queue\<close> shows the queue of the node it has just started, never the daemon's: whatever is
  queued, it prints the empty queue.
\<close>

theorem build_queue_shows_nothing:
  assumes "spawn blake3 public from_key config mkdir_error key_loaded bind_error index subscribe parse_url client_error = Inr nd"
    and "nc_network_id config \<noteq> None"
  shows "show_build_queue show_id nd = Inr [''Build Queue Status'', ''=================='', ''Pending jobs: 0'',
    ''Leased jobs: 0'', ''Completed jobs: 0'']"
  using spawn_services [OF assms(1)] assms(2)
  by (simp add: show_build_queue_def queue_of_def new_queue_def queue_stats_of_def Let_def show_nat.simps [of 0]
      digit_char_def char_of_def bit_Suc_0_iff)

theorem build_queue_shows_nothing_witness:
  "\<exists>nd. spawn (\<lambda>_. []) (\<lambda>k. [k]) (\<lambda>_. 7) (with_network_id ''net'' (with_substituters [] (node_config_new ''d''))) None (Inr []) None
      (Inr []) (\<lambda>_ _. None) (\<lambda>_. Inl []) None = Inr (nd :: unit node) \<and>
    show_build_queue (\<lambda>_. []) nd = Inr [''Build Queue Status'', ''=================='', ''Pending jobs: 0'',
      ''Leased jobs: 0'', ''Completed jobs: 0'']"
proof -
  obtain nd where nd: "spawn (\<lambda>_. []) (\<lambda>k. [k]) (\<lambda>_. 7) (with_network_id ''net'' (with_substituters [] (node_config_new ''d''))) None
      (Inr []) None (Inr []) (\<lambda>_ _. None) (\<lambda>_. Inl []) None = Inr (nd :: unit node)"
    by (simp add: spawn_def with_network_id_def with_substituters_def node_config_new_def node_config_default_def
        gossip_join_def with_callbacks_def Let_def)
  from build_queue_shows_nothing [OF this, of "\<lambda>_. []"] nd show ?thesis
    by (simp add: with_network_id_def)
qed

text \<open>A provider found over gossip is one the cache names when it is read for the last time.\<close>

lemma find_provider_named:
  "find_provider wait later ne h nd = (Inr p, nd') \<Longrightarrow> p \<in> set (node_get_providers h nd') \<and> gossip_enabled nd"
  by (auto simp: find_provider_def Let_def st_bind_def split: if_splits prod.splits sum.splits list.splits)

end
