(* ===== verification/Build_Plan.thy ===== *)
theory Build_Plan
  imports Nix_Info
begin

text \<open>
  The build plan of \<open>main.rs\<close>: the derivations \<open>nix derivation show --recursive\<close> prints, the
  output paths that exist, and the order in which what is missing is built. The JSON library is
  the record of its accessors; processes and the lossy text conversion are parameters. A hash
  map's list order is its iteration order; \<open>order\<close> is the order in which the sort meets the
  entries of its own map.
\<close>

section \<open>Derivations\<close>

record drv_info =
  dr_drv_path :: string
  dr_system :: string
  dr_required_features :: "string list"
  dr_outputs :: "string list"
  dr_input_drvs :: "(string, string list) hmap"
  dr_input_srcs :: "string list"

record build_plan =
  bp_to_build :: "drv_info list"
  bp_existing_paths :: "string list"

record 'j json_api =
  js_get :: "'j \<Rightarrow> string \<Rightarrow> 'j option"
  js_str :: "'j \<Rightarrow> string option"
  js_array :: "'j \<Rightarrow> 'j list option"
  js_object :: "'j \<Rightarrow> (string \<times> 'j) list option"

definition or_else :: "'a option \<Rightarrow> 'a \<Rightarrow> 'a" where
  "or_else x d = (case x of None \<Rightarrow> d | Some y \<Rightarrow> y)"

definition str_items :: "'j json_api \<Rightarrow> 'j list \<Rightarrow> string list" where
  "str_items js arr = List.map_filter (js_str js) arr"

definition parse_drv_from_json :: "'j json_api \<Rightarrow> string \<Rightarrow> 'j \<Rightarrow> drv_info result" where
  "parse_drv_from_json js drv_path drv_obj =
     rbind (ok_or (Option.bind (js_get js drv_obj ''system'') (js_str js))
              (Protocol (drv_path @ '': missing '' @ [CHR 0x27] @ ''system'' @ [CHR 0x27] @ '' field''))) (\<lambda>system.
     let required_features = or_else (map_option split_whitespace
           (Option.bind (Option.bind (js_get js drv_obj ''env'') (\<lambda>env. js_get js env ''requiredSystemFeatures''))
             (js_str js))) [];
         outputs = or_else (map_option (List.map_filter (\<lambda>(_, v). Option.bind (js_get js v ''path'') (js_str js)))
           (Option.bind (js_get js drv_obj ''outputs'') (js_object js))) [];
         input_drvs = or_else (map_option (map (\<lambda>(drv, info).
             (drv, or_else (map_option (str_items js) (Option.bind (js_get js info ''outputs'') (js_array js))) [''out''])))
           (Option.bind (js_get js drv_obj ''inputDrvs'') (js_object js))) [];
         input_srcs = or_else (map_option (str_items js)
           (Option.bind (js_get js drv_obj ''inputSrcs'') (js_array js))) []
     in Inr \<lparr>dr_drv_path = drv_path, dr_system = system, dr_required_features = required_features,
             dr_outputs = outputs, dr_input_drvs = fold (\<lambda>(k, v). hm_insert k v) input_drvs [],
             dr_input_srcs = input_srcs\<rparr>)"

fun parse_drvs :: "'j json_api \<Rightarrow> (string \<times> 'j) list \<Rightarrow> (string, drv_info) hmap \<Rightarrow> (string, drv_info) hmap result" where
  "parse_drvs js [] drvs = Inr drvs"
| "parse_drvs js ((path, drv_obj) # obj) drvs =
     rbind (parse_drv_from_json js path drv_obj) (\<lambda>info. parse_drvs js obj (hm_insert path info drvs))"

definition parse_drvs_recursive :: "(string list \<Rightarrow> process_answer) \<Rightarrow> (byte list \<Rightarrow> string) \<Rightarrow>
    (string \<Rightarrow> string + 'j) \<Rightarrow> 'j json_api \<Rightarrow> string \<Rightarrow> (string, drv_info) hmap result" where
  "parse_drvs_recursive run lossy json_parse js drv_path =
     (case run [''nix'', ''derivation'', ''show'', ''--recursive'', drv_path] of
        Inl e \<Rightarrow> throw (Protocol (''failed to run '' @ [CHR 0x27] @ ''nix derivation show'' @ [CHR 0x27] @ '': '' @ e))
      | Inr (success, out, err) \<Rightarrow>
          if \<not> success then throw (Protocol (''nix derivation show failed: '' @ lossy err))
          else (case json_parse (lossy out) of
             Inl e \<Rightarrow> throw (Protocol (''failed to parse derivation JSON: '' @ e))
           | Inr json \<Rightarrow>
               (case js_object js json of None \<Rightarrow> Inr [] | Some obj \<Rightarrow> parse_drvs js obj [])))"

definition check_existing_paths :: "(string list \<Rightarrow> process_answer) \<Rightarrow> (byte list \<Rightarrow> string) \<Rightarrow> string list \<Rightarrow>
    string list result" where
  "check_existing_paths run lossy paths =
     (if paths = [] then Inr []
      else case run ([''nix'', ''path-info''] @ paths) of
        Inl e \<Rightarrow> throw (Protocol (''failed to run '' @ [CHR 0x27] @ ''nix path-info'' @ [CHR 0x27] @ '': '' @ e))
      | Inr (_, out, _) \<Rightarrow> Inr (remdups (map trim (lines (lossy out)))))"

section \<open>Sorting\<close>

text \<open>\<open>entry(k).or_insert(v)\<close>\<close>

definition or_insert :: "'k \<Rightarrow> 'v \<Rightarrow> ('k, 'v) hmap \<Rightarrow> ('k, 'v) hmap" where
  "or_insert k v m = (case hm_get k m of Some _ \<Rightarrow> m | None \<Rightarrow> hm_insert k v m)"

type_synonym degrees = "(string, nat) hmap"
type_synonym dependents = "(string, string list) hmap"

definition add_edge :: "string \<Rightarrow> string \<Rightarrow> degrees \<times> dependents \<Rightarrow> degrees \<times> dependents" where
  "add_edge d dep s = (hm_modify d Suc (or_insert d 0 (fst s)), hm_modify dep (\<lambda>l. l @ [d]) (or_insert dep [] (snd s)))"

definition needs :: "(string, drv_info) hmap \<Rightarrow> string list \<Rightarrow> string \<Rightarrow> string list" where
  "needs drvs to_build d = (case hm_get d drvs of
     None \<Rightarrow> [] | Some info \<Rightarrow> filter (\<lambda>dep. dep \<in> set to_build) (hm_keys (dr_input_drvs info)))"

definition add_node :: "(string, drv_info) hmap \<Rightarrow> string list \<Rightarrow> string \<Rightarrow> degrees \<times> dependents \<Rightarrow>
    degrees \<times> dependents" where
  "add_node drvs to_build d s = fold (add_edge d) (needs drvs to_build d) (or_insert d 0 (fst s), snd s)"

text \<open>
  The nodes that depend on a finished one lose a degree; those that reach zero are queued. An
  underflow is a panic.
\<close>

fun release :: "string list \<Rightarrow> degrees \<Rightarrow> (degrees \<times> string list) result" where
  "release [] in_degree = Inr (in_degree, [])"
| "release (d # ds) in_degree =
     (case hm_get d in_degree of
        None \<Rightarrow> release ds in_degree
      | Some deg \<Rightarrow>
          if deg = 0 then panic ''attempt to subtract with overflow''
          else rbind (release ds (hm_modify d (\<lambda>_. deg - 1) in_degree)) (\<lambda>(m, new).
               Inr (m, if deg - 1 = 0 then d # new else new)))"

definition waiting :: "degrees \<Rightarrow> string set" where
  "waiting m = {d. \<exists>deg. hm_get d m = Some deg \<and> deg \<noteq> 0}"

lemma finite_waiting: "finite (waiting m)"
  by (rule finite_subset [of _ "fst ` set m"]) (auto simp: waiting_def dest: hm_get_key)

lemma release_waiting:
  "release ds m = Inr (m', new) \<Longrightarrow> card (waiting m') + length new \<le> card (waiting m)"
proof (induction ds arbitrary: m new)
  case (Cons d ds)
  show ?case
  proof (cases "hm_get d m")
    case None
    with Cons show ?thesis by simp
  next
    case (Some deg)
    let ?m = "hm_modify d (\<lambda>_. deg - 1) m"
    from Some Cons.prems have deg: "deg \<noteq> 0" by (auto split: if_splits)
    with Some Cons.prems obtain new' where r: "release ds ?m = Inr (m', new')" "new = (if deg - 1 = 0 then d # new' else new')"
      by auto
    have w: "waiting ?m = (if deg - 1 = 0 then waiting m - {d} else waiting m)"
      using Some deg by (auto simp: waiting_def split: if_splits)
    have "d \<in> waiting m" using Some deg by (simp add: waiting_def)
    then have "card (waiting ?m) + (if deg - 1 = 0 then 1 else 0) = card (waiting m)"
      unfolding w using card_Suc_Diff1 [OF finite_waiting] by (cases "deg - 1 = 0") simp_all
    with Cons.IH [OF r(1)] r(2) show ?thesis by (auto split: if_splits)
  qed
qed simp

text \<open>Kahn's algorithm; the queue is a \<open>VecDeque\<close> popped at the front.\<close>

function kahn :: "dependents \<Rightarrow> degrees \<Rightarrow> string list \<Rightarrow> string list \<Rightarrow> string list result" where
  "kahn dependents in_degree [] result = Inr result"
| "kahn dependents in_degree (node # queue) result =
     rbind (release (or_else (hm_get node dependents) []) in_degree) (\<lambda>(m, new).
     kahn dependents m (queue @ new) (result @ [node]))"
  by pat_completeness auto
termination
  by (relation "measure (\<lambda>(_, m, queue, _). length queue + card (waiting m))")
     (auto dest!: release_waiting)

definition topological_sort :: "(degrees \<Rightarrow> degrees) \<Rightarrow> (string, drv_info) hmap \<Rightarrow> string list \<Rightarrow> string list result" where
  "topological_sort order drvs to_build =
     (case fold (add_node drvs to_build) to_build ([], []) of
        (in_degree, dependents) \<Rightarrow>
          kahn dependents in_degree (map fst (filter (\<lambda>(_, deg). deg = 0) (order in_degree))) [])"

section \<open>The plan\<close>

definition missing_drvs :: "string list \<Rightarrow> (string, drv_info) hmap \<Rightarrow> string list" where
  "missing_drvs existing drvs =
     map fst (filter (\<lambda>(_, info). list_ex (\<lambda>out. out \<notin> set existing) (dr_outputs info)) drvs)"

definition create_build_plan :: "(string list \<Rightarrow> process_answer) \<Rightarrow> (byte list \<Rightarrow> string) \<Rightarrow>
    (string \<Rightarrow> string + 'j) \<Rightarrow> 'j json_api \<Rightarrow> (degrees \<Rightarrow> degrees) \<Rightarrow> string \<Rightarrow> build_plan result" where
  "create_build_plan run lossy json_parse js order drv_path =
     rbind (parse_drvs_recursive run lossy json_parse js drv_path) (\<lambda>drvs.
     rbind (check_existing_paths run lossy (concat (map (dr_outputs \<circ> snd) drvs))) (\<lambda>existing.
     rbind (topological_sort order drvs (missing_drvs existing drvs)) (\<lambda>build_order.
     Inr \<lparr>bp_to_build = List.map_filter (\<lambda>path. hm_get path drvs) build_order, bp_existing_paths = existing\<rparr>)))"

section \<open>The two maps of the sort\<close>

lemma or_insert_get [hm_simps, simp]:
  "hm_get k (or_insert k' v m) = (if k = k' \<and> hm_get k' m = None then Some v else hm_get k m)"
  by (auto simp: or_insert_def split: option.split)

lemma needs_subset: "set (needs drvs tb d) \<subseteq> set tb"
  by (auto simp: needs_def split: option.split)

lemma degree_edges:
  assumes "d = d0 \<longrightarrow> hm_get d m = Some n"
  shows "hm_get d (fst (fold (add_edge d0) deps (m, dm))) = (if d = d0 then Some (n + length deps) else hm_get d m)"
  using assms
proof (induction deps arbitrary: m dm n)
  case (Cons dep deps)
  have "fold (add_edge d0) (dep # deps) (m, dm) = fold (add_edge d0) deps (add_edge d0 dep (m, dm))" by simp
  moreover have "hm_get d (fst (add_edge d0 dep (m, dm))) = (if d = d0 then Some (Suc n) else hm_get d m)"
    using Cons.prems by (auto simp: add_edge_def)
  ultimately show ?case
    using Cons.IH [of "fst (add_edge d0 dep (m, dm))" "Suc n" "snd (add_edge d0 dep (m, dm))"] by auto
qed auto

lemma dependents_edges:
  "or_else (hm_get k (snd (fold (add_edge d0) deps (m, dm)))) [] =
     or_else (hm_get k dm) [] @ replicate (count_list deps k) d0"
proof (induction deps arbitrary: m dm)
  case (Cons dep deps)
  have step: "or_else (hm_get k (snd (add_edge d0 dep (m, dm)))) [] =
      or_else (hm_get k dm) [] @ (if dep = k then [d0] else [])"
    by (auto simp: add_edge_def or_else_def split: option.splits)
  show ?case
    using Cons.IH [of "fst (add_edge d0 dep (m, dm))" "snd (add_edge d0 dep (m, dm))"] step
    by (auto simp: replicate_append_same [symmetric])
qed simp

lemma add_node_get:
  assumes "hm_get d0 m = None"
  shows "hm_get d (fst (add_node drvs tb d0 (m, dm))) = (if d = d0 then Some (length (needs drvs tb d0)) else hm_get d m)"
    and "or_else (hm_get k (snd (add_node drvs tb d0 (m, dm)))) [] =
      or_else (hm_get k dm) [] @ replicate (count_list (needs drvs tb d0) k) d0"
  using assms degree_edges [of d d0 "or_insert d0 0 m" 0 "needs drvs tb d0" dm] dependents_edges [of k d0 "needs drvs tb d0" "or_insert d0 0 m" dm]
  by (simp_all add: add_node_def)

lemma degrees_of_nodes:
  assumes "distinct nodes" "\<forall>d \<in> set nodes. hm_get d m = None"
  shows "hm_get d (fst (fold (add_node drvs tb) nodes (m, dm))) =
      (if d \<in> set nodes then Some (length (needs drvs tb d)) else hm_get d m) \<and>
    or_else (hm_get k (snd (fold (add_node drvs tb) nodes (m, dm)))) [] =
      or_else (hm_get k dm) [] @ concat (map (\<lambda>d. replicate (count_list (needs drvs tb d) k) d) nodes)"
  using assms
proof (induction nodes arbitrary: m dm)
  case (Cons d0 nodes)
  obtain m1 dm1 where s: "add_node drvs tb d0 (m, dm) = (m1, dm1)" by fastforce
  have none: "hm_get d0 m = None" using Cons.prems by simp
  have 1: "hm_get x m1 = (if x = d0 then Some (length (needs drvs tb d0)) else hm_get x m)" for x
    using add_node_get(1) [OF none, of x drvs tb dm] s by simp
  have 2: "or_else (hm_get k dm1) [] = or_else (hm_get k dm) [] @ replicate (count_list (needs drvs tb d0) k) d0"
    using add_node_get(2) [OF none, of k drvs tb dm] s by simp
  have "distinct nodes" "\<forall>d \<in> set nodes. hm_get d m1 = None" using Cons.prems by (auto simp: 1)
  from Cons.IH [OF this, of dm1] Cons.prems show ?case by (auto simp: s 1 2)
qed simp

lemma count_distinct: "distinct xs \<Longrightarrow> count_list xs k = (if k \<in> set xs then 1 else 0)"
  by (induction xs) auto

lemma concat_singles: "concat (map (\<lambda>d. if P d then [d] else []) xs) = filter P xs"
  by (induction xs) auto

section \<open>Kahn's algorithm\<close>

lemma release_spec:
  assumes "distinct ds" "\<forall>d \<in> set ds. \<exists>n. hm_get d m = Some (Suc n)"
  shows "\<exists>m'. release ds m = Inr (m', filter (\<lambda>d. hm_get d m = Some 1) ds) \<and>
    (\<forall>k. hm_get k m' = (if k \<in> set ds then map_option (\<lambda>n. n - 1) (hm_get k m) else hm_get k m))"
  using assms
proof (induction ds arbitrary: m)
  case (Cons d ds)
  then obtain n where n: "hm_get d m = Some (Suc n)" by auto
  let ?m = "hm_modify d (\<lambda>_. n) m"
  have same: "filter (\<lambda>x. hm_get x ?m = Some 1) ds = filter (\<lambda>x. hm_get x m = Some 1) ds"
    using Cons.prems(1) by (intro filter_cong) auto
  have "\<forall>x \<in> set ds. \<exists>n. hm_get x ?m = Some (Suc n)" using Cons.prems by auto
  then obtain m' where r: "release ds ?m = Inr (m', filter (\<lambda>x. hm_get x m = Some 1) ds)"
    and g: "\<forall>k. hm_get k m' = (if k \<in> set ds then map_option (\<lambda>n. n - 1) (hm_get k ?m) else hm_get k ?m)"
    using Cons.IH [of ?m] Cons.prems(1) unfolding same by auto
  have "release (d # ds) m = Inr (m', filter (\<lambda>x. hm_get x m = Some 1) (d # ds))"
    using n r by simp
  then show ?case using g n Cons.prems(1) by (intro exI [of _ m']) auto
qed simp

text \<open>How many needs of \<open>d\<close> are not done; a list in which every node comes after its needs.\<close>

definition open_needs :: "(string \<Rightarrow> string list) \<Rightarrow> string list \<Rightarrow> string \<Rightarrow> nat" where
  "open_needs need finished d = length (filter (\<lambda>x. x \<notin> set finished) (need d))"

definition ordered :: "(string \<Rightarrow> string list) \<Rightarrow> string list \<Rightarrow> bool" where
  "ordered need res \<longleftrightarrow> (\<forall>xs d ys. res = xs @ d # ys \<longrightarrow> set (need d) \<subseteq> set xs)"

definition kahn_inv :: "(string \<Rightarrow> string list) \<Rightarrow> string list \<Rightarrow> degrees \<Rightarrow> string list \<Rightarrow> string list \<Rightarrow> bool" where
  "kahn_inv need tb m queue result \<longleftrightarrow> distinct (result @ queue) \<and> set (result @ queue) \<subseteq> set tb \<and>
     (\<forall>d \<in> set tb. hm_get d m = Some (open_needs need result d)) \<and>
     (\<forall>d \<in> set tb. d \<in> set (result @ queue) \<longleftrightarrow> open_needs need result d = 0) \<and> ordered need result"

lemma open_needs_zero: "open_needs need finished d = 0 \<longleftrightarrow> set (need d) \<subseteq> set finished"
  by (auto simp: open_needs_def filter_empty_conv)

lemma filter_insert_count:
  "distinct xs \<Longrightarrow> x \<notin> S \<Longrightarrow> length (filter (\<lambda>y. y \<notin> S) xs) =
     length (filter (\<lambda>y. y \<notin> insert x S) xs) + (if x \<in> set xs then 1 else 0)"
  by (induction xs) auto

lemma open_needs_step:
  "distinct (need d) \<Longrightarrow> x \<notin> set finished \<Longrightarrow>
     open_needs need finished d = open_needs need (finished @ [x]) d + (if x \<in> set (need d) then 1 else 0)"
  using filter_insert_count [of "need d" x "set finished"] by (simp add: open_needs_def)

lemma ordered_append: "ordered need res \<Longrightarrow> set (need x) \<subseteq> set res \<Longrightarrow> ordered need (res @ [x])"
  unfolding ordered_def
proof (intro allI impI)
  fix xs d ys
  assume o: "\<forall>xs d ys. res = xs @ d # ys \<longrightarrow> set (need d) \<subseteq> set xs" and x: "set (need x) \<subseteq> set res" and r: "res @ [x] = xs @ d # ys"
  show "set (need d) \<subseteq> set xs"
  proof (cases ys rule: rev_cases)
    case Nil
    with r x show ?thesis by simp
  next
    case (snoc zs z)
    with r o show ?thesis by simp
  qed
qed

lemma kahn_step:
  assumes graph: "\<And>d. distinct (need d)" "\<And>d. set (need d) \<subseteq> set tb" "distinct tb"
    and deps: "or_else (hm_get x dependents) [] = filter (\<lambda>d. x \<in> set (need d)) tb"
    and inv: "kahn_inv need tb m (x # queue) result"
  shows "\<exists>m' new. release (or_else (hm_get x dependents) []) m = Inr (m', new) \<and> kahn_inv need tb m' (queue @ new) (result @ [x])"
proof -
  let ?ds = "filter (\<lambda>d. x \<in> set (need d)) tb"
  have x: "x \<in> set tb" "x \<notin> set result" "x \<notin> set queue" "open_needs need result x = 0"
    and get: "\<And>d. d \<in> set tb \<Longrightarrow> hm_get d m = Some (open_needs need result d)"
    using inv by (auto simp: kahn_inv_def)
  have step: "open_needs need result d = open_needs need (result @ [x]) d + (if x \<in> set (need d) then 1 else 0)" for d
    by (rule open_needs_step [OF graph(1) x(2)])
  have "\<forall>d \<in> set ?ds. \<exists>n. hm_get d m = Some (Suc n)" by (auto simp: get step)
  with release_spec [of ?ds m] graph(3) obtain m' where r: "release ?ds m = Inr (m', filter (\<lambda>d. hm_get d m = Some 1) ?ds)"
    and get': "\<And>k. hm_get k m' = (if k \<in> set ?ds then map_option (\<lambda>n. n - 1) (hm_get k m) else hm_get k m)" by auto
  let ?new = "filter (\<lambda>d. hm_get d m = Some 1) ?ds"
  have new: "d \<in> set ?new \<longleftrightarrow> d \<in> set tb \<and> x \<in> set (need d) \<and> open_needs need (result @ [x]) d = 0" for d
    by (auto simp: get step)
  have inq: "d \<in> set (result @ x # queue) \<longleftrightarrow> open_needs need result d = 0" if "d \<in> set tb" for d
    using inv that by (simp add: kahn_inv_def)
  have fresh: "d \<notin> set (result @ x # queue)" if "d \<in> set ?new" for d
    using that inq [of d] step [of d] new [of d] by auto
  have "kahn_inv need tb m' (queue @ ?new) (result @ [x])"
    unfolding kahn_inv_def
  proof (intro conjI ballI)
    show "distinct ((result @ [x]) @ queue @ ?new)"
      using inv graph(3) fresh by (auto simp: kahn_inv_def)
    show "set ((result @ [x]) @ queue @ ?new) \<subseteq> set tb"
      using inv new by (auto simp: kahn_inv_def)
    show "hm_get d m' = Some (open_needs need (result @ [x]) d)" if "d \<in> set tb" for d
      using that by (auto simp: get' get step)
    show "d \<in> set ((result @ [x]) @ queue @ ?new) \<longleftrightarrow> open_needs need (result @ [x]) d = 0" if "d \<in> set tb" for d
      using inq [OF that] new [of d] step [of d] that by (cases "x \<in> set (need d)") auto
    show "ordered need (result @ [x])"
      using inv x(4) by (intro ordered_append) (auto simp: kahn_inv_def open_needs_zero)
  qed
  with r show ?thesis unfolding deps by blast
qed

lemma kahn_spec:
  assumes graph: "\<And>d. distinct (need d)" "\<And>d. set (need d) \<subseteq> set tb" "distinct tb"
    and deps: "\<And>x. or_else (hm_get x dependents) [] = filter (\<lambda>d. x \<in> set (need d)) tb"
    and "kahn_inv need tb m queue result"
  shows "\<exists>res. kahn dependents m queue result = Inr res \<and> distinct res \<and> set res \<subseteq> set tb \<and>
    (\<forall>d \<in> set tb. d \<in> set res \<longleftrightarrow> set (need d) \<subseteq> set res) \<and> ordered need res"
  using assms(5)
proof (induction "length queue + card (waiting m)" arbitrary: m queue result rule: less_induct)
  case less
  show ?case
  proof (cases queue)
    case Nil
    with less.prems show ?thesis by (auto simp: kahn_inv_def open_needs_zero)
  next
    case (Cons x q)
    obtain m' new where r: "release (or_else (hm_get x dependents) []) m = Inr (m', new)"
      and inv: "kahn_inv need tb m' (q @ new) (result @ [x])"
      using kahn_step [OF graph deps] less.prems Cons by blast
    from less.hyps [OF _ inv] release_waiting [OF r] Cons r show ?thesis by auto
  qed
qed

section \<open>What the sort gives\<close>

text \<open>A derivation to build all of whose needs, and theirs in turn, can be built first.\<close>

inductive buildable :: "(string, drv_info) hmap \<Rightarrow> string list \<Rightarrow> string \<Rightarrow> bool" for drvs to_build where
  "d \<in> set to_build \<Longrightarrow> (\<And>dep. dep \<in> set (needs drvs to_build d) \<Longrightarrow> buildable drvs to_build dep) \<Longrightarrow>
     buildable drvs to_build d"

lemma ordered_snoc:
  assumes "ordered need (res @ [x])"
  shows "ordered need res" "set (need x) \<subseteq> set res"
proof -
  show "ordered need res"
    unfolding ordered_def
  proof (intro allI impI)
    fix xs d ys assume "res = xs @ d # ys"
    then have "res @ [x] = xs @ d # (ys @ [x])" by simp
    with assms show "set (need d) \<subseteq> set xs" unfolding ordered_def by (elim allE impE)
  qed
  show "set (need x) \<subseteq> set res"
    using assms [unfolded ordered_def, THEN spec, THEN spec, THEN spec, of res x "[]"] by simp
qed

lemma ordered_buildable:
  assumes "ordered (needs drvs tb) res" "set res \<subseteq> set tb"
  shows "d \<in> set res \<Longrightarrow> buildable drvs tb d"
  using assms
proof (induction res arbitrary: d rule: rev_induct)
  case (snoc x res)
  have o: "ordered (needs drvs tb) res"
    using ordered_snoc(1) [OF snoc.prems(2)] .
  have IH: "y \<in> set res \<Longrightarrow> buildable drvs tb y" for y
    using snoc.IH [OF _ o] snoc.prems(3) by simp
  have "set (needs drvs tb x) \<subseteq> set res"
    using ordered_snoc(2) [OF snoc.prems(2)] .
  with IH snoc.prems(3) have "buildable drvs tb x" by - (rule buildable.intros, auto)
  with IH snoc.prems(1) show ?case by auto
qed simp

lemma buildable_in: "buildable drvs tb d \<Longrightarrow> \<forall>d \<in> set tb. set (needs drvs tb d) \<subseteq> set res \<longrightarrow> d \<in> set res \<Longrightarrow> d \<in> set res"
  by (induction rule: buildable.induct) blast

text \<open>Without cycles everything can be built; \<open>rank\<close> is any numbering that grows along the needs.\<close>

lemma ranked_buildable:
  assumes "\<And>d dep. dep \<in> set (needs drvs tb d) \<Longrightarrow> (rank dep :: nat) < rank d"
  shows "d \<in> set tb \<Longrightarrow> buildable drvs tb d"
proof (induction "rank d" arbitrary: d rule: less_induct)
  case less
  show ?case
  proof (rule buildable.intros [OF less.prems])
    fix dep assume dep: "dep \<in> set (needs drvs tb d)"
    then have "dep \<in> set tb" using needs_subset [of drvs tb d] by blast
    with assms [OF dep] show "buildable drvs tb dep" by (rule less.hyps)
  qed
qed

lemma hm_wf_or_insert [simp]: "hm_wf m \<Longrightarrow> hm_wf (or_insert k v m)"
  by (simp add: or_insert_def split: option.split)

lemma hm_wf_edges: "hm_wf (fst s) \<Longrightarrow> hm_wf (fst (fold (add_edge d) deps s))"
  by (induction deps arbitrary: s) (simp_all add: add_edge_def)

lemma hm_wf_nodes: "hm_wf (fst s) \<Longrightarrow> hm_wf (fst (fold (add_node drvs tb) nodes s))"
  by (induction nodes arbitrary: s) (simp_all add: add_node_def hm_wf_edges)

definition inputs_wf :: "(string, drv_info) hmap \<Rightarrow> bool" where
  "inputs_wf drvs \<longleftrightarrow> list_all (\<lambda>(_, info). hm_wf (dr_input_drvs info)) drvs"

lemma distinct_needs: "inputs_wf drvs \<Longrightarrow> distinct (needs drvs tb d)"
  by (fastforce simp: needs_def inputs_wf_def list_all_iff hm_wf_def hm_keys_def dest: hm_get_SomeD
      intro!: distinct_filter split: option.split)

lemma topological_sort_spec:
  assumes "inputs_wf drvs" "distinct tb" "\<And>m. mset (order m) = mset m"
  shows "\<exists>res. topological_sort order drvs tb = Inr res \<and> distinct res \<and> ordered (needs drvs tb) res \<and>
    (\<forall>d. d \<in> set res \<longleftrightarrow> buildable drvs tb d)"
proof -
  let ?need = "needs drvs tb"
  obtain m dm where md: "fold (add_node drvs tb) tb ([], []) = (m, dm)" by fastforce
  have nodes: "hm_get d m = (if d \<in> set tb then Some (length (?need d)) else None)"
    "or_else (hm_get k dm) [] = concat (map (\<lambda>d. replicate (count_list (?need d) k) d) tb)" for d k
    using degrees_of_nodes [OF assms(2), of "[]" d drvs tb "[]" k] md by (simp_all add: or_else_def)
  have "or_else (hm_get k dm) [] = concat (map (\<lambda>d. if k \<in> set (?need d) then [d] else []) tb)" for k
    unfolding nodes(2) using distinct_needs [OF assms(1)]
    by (intro arg_cong [where f = concat] map_cong) (simp_all add: count_distinct)
  then have deps: "or_else (hm_get k dm) [] = filter (\<lambda>d. k \<in> set (?need d)) tb" for k
    by (simp add: concat_singles)
  have wf: "hm_wf m" using hm_wf_nodes [of "([], [])" drvs tb tb] md by simp
  let ?q = "map fst (filter (\<lambda>(_, deg). deg = 0) (order m))"
  have wfo: "hm_wf (order m)" using wf assms(3) hm_wf_perm by blast
  have "d \<in> set ?q \<longleftrightarrow> (d, 0) \<in> set (order m)" for d by force
  then have inq: "d \<in> set ?q \<longleftrightarrow> hm_get d m = Some 0" for d
    using assms(3) [THEN mset_eq_setD] hm_get_Some_iff [OF wf, of d 0] by simp
  have "distinct ?q" using wfo by (simp add: hm_wf_def distinct_map_filter)
  then have "kahn_inv ?need tb m ?q []"
    by (auto simp: kahn_inv_def inq nodes(1) open_needs_def ordered_def simp del: set_map split: if_splits)
  with kahn_spec [of ?need tb dm m ?q "[]"] distinct_needs [OF assms(1)] needs_subset assms(2) deps
  obtain res where res: "kahn dm m ?q [] = Inr res" "distinct res" "set res \<subseteq> set tb"
    "\<forall>d \<in> set tb. d \<in> set res \<longleftrightarrow> set (?need d) \<subseteq> set res" "ordered ?need res" by blast
  have "d \<in> set res \<longleftrightarrow> buildable drvs tb d" for d
    using ordered_buildable [OF res(5,3)] buildable_in [of drvs tb d res] res(4) by blast
  with res md show ?thesis by (auto simp: topological_sort_def)
qed

section \<open>Properties of the plan\<close>

lemma hm_wf_inserts: "hm_wf m \<Longrightarrow> hm_wf (fold (\<lambda>(k, v). hm_insert k v) kvs m)"
  by (induction kvs arbitrary: m) auto

lemma parse_drv_wf: "parse_drv_from_json js path obj = Inr info \<Longrightarrow> hm_wf (dr_input_drvs info) \<and> dr_drv_path info = path"
  by (auto simp: parse_drv_from_json_def Let_def hm_wf_inserts)

lemma parse_drvs_wf:
  "parse_drvs js obj drvs = Inr drvs' \<Longrightarrow> hm_wf drvs \<Longrightarrow> inputs_wf drvs \<Longrightarrow> hm_wf drvs' \<and> inputs_wf drvs'"
proof (induction obj arbitrary: drvs)
  case (Cons po obj)
  obtain path drv_obj where po: "po = (path, drv_obj)" by fastforce
  with Cons.prems(1) obtain info where "parse_drv_from_json js path drv_obj = Inr info" "parse_drvs js obj (hm_insert path info drvs) = Inr drvs'"
    by auto
  with Cons.IH [OF this(2)] parse_drv_wf [OF this(1)] Cons.prems(2,3) show ?case
    by (auto simp: inputs_wf_def list_all_iff set_hm_insert)
qed simp

lemma parse_drvs_recursive_wf:
  "parse_drvs_recursive run lossy json_parse js drv_path = Inr drvs \<Longrightarrow> hm_wf drvs \<and> inputs_wf drvs"
  by (auto simp: parse_drvs_recursive_def inputs_wf_def dest: parse_drvs_wf split: sum.splits prod.splits option.splits if_splits)

text \<open>
  C10: Whatever order the sort's hash map has, it succeeds without an underflow and returns every
  derivation that can be built, each once and after all the derivations it needs; a derivation is
  left out exactly when its needs lead into a cycle, so without cycles the list is complete.
\<close>

theorem topological_sort_exact:
  assumes "inputs_wf drvs" "distinct tb" "\<And>m. mset (order m) = mset m"
  shows "\<exists>res. topological_sort order drvs tb = Inr res \<and> distinct res \<and> ordered (needs drvs tb) res \<and>
    (\<forall>d. d \<in> set res \<longleftrightarrow> buildable drvs tb d) \<and>
    (\<forall>rank :: string \<Rightarrow> nat. (\<forall>d dep. dep \<in> set (needs drvs tb d) \<longrightarrow> rank dep < rank d) \<longrightarrow> set res = set tb)"
proof -
  obtain res where res: "topological_sort order drvs tb = Inr res" "distinct res" "ordered (needs drvs tb) res"
    "\<And>d. d \<in> set res \<longleftrightarrow> buildable drvs tb d"
    using topological_sort_spec [OF assms] by blast
  have "set res = set tb" if "\<forall>d dep. dep \<in> set (needs drvs tb d) \<longrightarrow> rank dep < rank d" for rank :: "string \<Rightarrow> nat"
    using ranked_buildable [of drvs tb rank] that res(4) buildable.cases by blast
  with res show ?thesis by blast
qed

text \<open>Two derivations, of which the second needs the first, and two that need each other.\<close>

definition sample_drv :: "string \<Rightarrow> string list \<Rightarrow> string \<times> drv_info" where
  "sample_drv p deps = (p, \<lparr>dr_drv_path = p, dr_system = ''x86_64-linux'', dr_required_features = [],
     dr_outputs = [p @ ''-out''], dr_input_drvs = map (\<lambda>d. (d, [''out''])) deps, dr_input_srcs = []\<rparr>)"

definition sample_drvs :: "(string, drv_info) hmap" where
  "sample_drvs = [sample_drv ''b'' [''a''], sample_drv ''a'' [], sample_drv ''c'' [''d''], sample_drv ''d'' [''c'']]"

lemma sample_drvs_wf: "inputs_wf sample_drvs"
  by (simp add: inputs_wf_def sample_drvs_def sample_drv_def hm_wf_def)

theorem topological_sort_exact_witness:
  "\<exists>res. topological_sort (\<lambda>m. m) sample_drvs [''b'', ''a'', ''c'', ''d''] = Inr res \<and>
     res = [''a'', ''b''] \<and> distinct res \<and> \<not> buildable sample_drvs [''b'', ''a'', ''c'', ''d''] ''c''"
proof -
  have "topological_sort (\<lambda>m. m) sample_drvs [''b'', ''a'', ''c'', ''d''] = Inr [''a'', ''b'']"
    by code_simp
  moreover obtain res where "topological_sort (\<lambda>m. m) sample_drvs [''b'', ''a'', ''c'', ''d''] = Inr res"
    and iff: "\<forall>d. d \<in> set res \<longleftrightarrow> buildable sample_drvs [''b'', ''a'', ''c'', ''d''] d"
    using topological_sort_exact [OF sample_drvs_wf, of "[''b'', ''a'', ''c'', ''d'']" "\<lambda>m. m"] by (simp del: not_Some_eq) blast
  ultimately have res: "res = [''a'', ''b'']" and sort: "topological_sort (\<lambda>m. m) sample_drvs [''b'', ''a'', ''c'', ''d''] = Inr [''a'', ''b'']"
    by simp_all
  have "\<not> buildable sample_drvs [''b'', ''a'', ''c'', ''d''] ''c''"
    using iff [THEN spec, of "''c''"] by (simp add: res)
  with sort show ?thesis by (intro exI [of _ "[''a'', ''b'']"]) simp
qed

text \<open>
  C30: The build plan holds, each once and after what it needs, exactly the derivations of the
  closure with an output that does not exist and whose missing needs can all be built.
\<close>

theorem build_plan_exact:
  assumes "parse_drvs_recursive run lossy json_parse js drv_path = Inr drvs"
    and "check_existing_paths run lossy (concat (map (dr_outputs \<circ> snd) drvs)) = Inr existing"
    and "\<And>m. mset (order m) = mset m"
  shows "\<exists>plan paths. create_build_plan run lossy json_parse js order drv_path = Inr plan \<and>
    map Some (bp_to_build plan) = map (\<lambda>p. hm_get p drvs) paths \<and> bp_existing_paths plan = existing \<and>
    distinct paths \<and> ordered (needs drvs (missing_drvs existing drvs)) paths \<and>
    (\<forall>p. p \<in> set paths \<longleftrightarrow> buildable drvs (missing_drvs existing drvs) p)"
proof -
  have wf: "hm_wf drvs" "inputs_wf drvs" using parse_drvs_recursive_wf [OF assms(1)] by auto
  have sub: "set (missing_drvs existing drvs) \<subseteq> fst ` set drvs" and dist: "distinct (missing_drvs existing drvs)"
    using wf(1) by (auto simp: missing_drvs_def hm_wf_def distinct_map_filter)
  obtain paths where p: "topological_sort order drvs (missing_drvs existing drvs) = Inr paths" "distinct paths"
    "ordered (needs drvs (missing_drvs existing drvs)) paths"
    "\<And>p. p \<in> set paths \<longleftrightarrow> buildable drvs (missing_drvs existing drvs) p"
    using topological_sort_spec [OF wf(2) dist assms(3)] by blast
  have "p \<in> fst ` set drvs" if "p \<in> set paths" for p
    using that sub buildable.cases [of drvs "missing_drvs existing drvs" p] p(4) by blast
  then have "map Some (List.map_filter (\<lambda>path. hm_get path drvs) paths) = map (\<lambda>p. hm_get p drvs) paths"
    by (induction paths) (auto simp: List.map_filter_simps hm_get_None_iff split: option.split)
  with p assms(1,2) show ?thesis
    by (intro exI [of _ "\<lparr>bp_to_build = List.map_filter (\<lambda>path. hm_get path drvs) paths, bp_existing_paths = existing\<rparr>"] exI [of _ paths])
       (simp add: create_build_plan_def)
qed

text \<open>A JSON value of strings, arrays and objects, and a closure of two derivations.\<close>

datatype toy_json = TStr string | TArr "toy_json list" | TObj "(string \<times> toy_json) list"

definition toy_api :: "toy_json json_api" where
  "toy_api = \<lparr>js_get = (\<lambda>j k. case j of TObj kvs \<Rightarrow> map_of kvs k | _ \<Rightarrow> None),
     js_str = (\<lambda>j. case j of TStr s \<Rightarrow> Some s | _ \<Rightarrow> None), js_array = (\<lambda>j. case j of TArr l \<Rightarrow> Some l | _ \<Rightarrow> None),
     js_object = (\<lambda>j. case j of TObj kvs \<Rightarrow> Some kvs | _ \<Rightarrow> None)\<rparr>"

definition toy_closure :: toy_json where
  "toy_closure = TObj
     [(''b.drv'', TObj [(''system'', TStr ''x86_64-linux''), (''outputs'', TObj [(''out'', TObj [(''path'', TStr ''/nix/store/b'')])]),
        (''inputDrvs'', TObj [(''a.drv'', TObj [])]), (''env'', TObj [(''requiredSystemFeatures'', TStr ''kvm big-parallel'')])]),
      (''a.drv'', TObj [(''system'', TStr ''x86_64-linux''), (''outputs'', TObj [(''out'', TObj [(''path'', TStr ''/nix/store/a'')])])])]"

definition toy_run :: "string list \<Rightarrow> process_answer" where
  "toy_run args = Inr (True, [], [])"

definition toy_drvs :: "(string, drv_info) hmap" where
  "toy_drvs = projr (parse_drvs_recursive toy_run of_bytes (\<lambda>_. Inr toy_closure) toy_api ''b.drv'')"

theorem build_plan_exact_witness:
  "\<exists>plan paths. create_build_plan toy_run of_bytes (\<lambda>_. Inr toy_closure) toy_api (\<lambda>m. m) ''b.drv'' = Inr plan \<and>
     map dr_drv_path (bp_to_build plan) = [''a.drv'', ''b.drv''] \<and>
     map Some (bp_to_build plan) = map (\<lambda>p. hm_get p toy_drvs) paths"
proof -
  have 1: "parse_drvs_recursive toy_run of_bytes (\<lambda>_. Inr toy_closure) toy_api ''b.drv'' = Inr toy_drvs" by code_simp
  have 2: "check_existing_paths toy_run of_bytes (concat (map (dr_outputs \<circ> snd) toy_drvs)) = Inr []" by code_simp
  have 3: "map_option (map dr_drv_path \<circ> bp_to_build)
      (case create_build_plan toy_run of_bytes (\<lambda>_. Inr toy_closure) toy_api (\<lambda>m. m) ''b.drv'' of Inr p \<Rightarrow> Some p | Inl _ \<Rightarrow> None) =
      Some [''a.drv'', ''b.drv'']" by code_simp
  obtain plan paths where p: "create_build_plan toy_run of_bytes (\<lambda>_. Inr toy_closure) toy_api (\<lambda>m. m) ''b.drv'' = Inr plan"
    "map Some (bp_to_build plan) = map (\<lambda>p. hm_get p toy_drvs) paths"
    using build_plan_exact [OF 1 2, of "\<lambda>m. m"] by blast
  with 3 show ?thesis by (intro exI [of _ plan] exI [of _ paths]) (simp add: o_def)
qed

end
