(* ===== verification/Build_Push.thy ===== *)
theory Build_Push
  imports Commands Build_Plan
begin

text \<open>
  The command \<open>build-push\<close> of \<open>main.rs\<close>: it indexes what exists, queues a job for every
  derivation of the build plan and then serves builders until the queue is empty, fetching the
  outputs of completed builds and importing them. What the builders and the gossip receiver do to
  the node meanwhile are functions of the environment, one before each turn of the loop, one
  during its fetching. The loop may go on for ever, then its value is None.
\<close>

section \<open>Jobs\<close>

definition not_builtin :: "string \<Rightarrow> bool" where
  "not_builtin f \<longleftrightarrow> f \<noteq> ''builtin''"

definition job_features :: "string list \<Rightarrow> drv_info \<Rightarrow> string list" where
  "job_features features d = (if features \<noteq> [] then features
     else dr_system d # filter not_builtin (dr_required_features d))"

text \<open>\<open>hash_index.lock().unwrap()\<close>, and an entry that the query finds.\<close>

definition indexed_input :: "node_env \<Rightarrow> 'u node \<Rightarrow> string \<Rightarrow> input_path list result" where
  "indexed_input ne nd p =
     (if ne_poisoned ne then panic ''called Result::unwrap() on an Err value''
      else case get_by_store_path (ne_sql ne) p (nd_index nd) of
        Inr (Some entry) \<Rightarrow> Inr [\<lparr>ip_store_path = p, ip_blake3 = he_blake3 entry\<rparr>]
      | Inr None \<Rightarrow> Inr []
      | Inl (Panic m) \<Rightarrow> panic m
      | Inl (Err _) \<Rightarrow> Inr [])"

fun indexed_inputs :: "node_env \<Rightarrow> 'u node \<Rightarrow> string list \<Rightarrow> input_path list result" where
  "indexed_inputs ne nd [] = Inr []"
| "indexed_inputs ne nd (p # ps) =
     rbind (indexed_input ne nd p) (\<lambda>ip. rbind (indexed_inputs ne nd ps) (\<lambda>ips. Inr (ip @ ips)))"

text \<open>The outputs of the dependencies that are themselves in the plan.\<close>

definition planned_outputs :: "drv_info list \<Rightarrow> drv_info \<Rightarrow> string list" where
  "planned_outputs plan d = concat (map (\<lambda>dep. case find (\<lambda>d'. dr_drv_path d' = dep) plan of
     None \<Rightarrow> [] | Some info \<Rightarrow> dr_outputs info) (hm_keys (dr_input_drvs d)))"

definition job_inputs :: "node_env \<Rightarrow> drv_info list \<Rightarrow> drv_info \<Rightarrow> 'u node \<Rightarrow> input_path list result" where
  "job_inputs ne plan d nd = indexed_inputs ne nd (dr_input_srcs d @ planned_outputs plan d)"

text \<open>\<open>clock\<close> gives the time stamp of each job.\<close>

fun queue_builds :: "node_env \<Rightarrow> (drv_info \<Rightarrow> u64) \<Rightarrow> string list \<Rightarrow> drv_info list \<Rightarrow> drv_info list \<Rightarrow> 'u node \<Rightarrow>
    (job_id \<times> bool) list result \<times> 'u node" where
  "queue_builds ne clock features plan [] nd = (Inr [], nd)"
| "queue_builds ne clock features plan (d # ds) nd =
     (case job_inputs ne plan d nd of
        Inl e \<Rightarrow> (Inl e, nd)
      | Inr input_paths \<Rightarrow>
          st_bind (push_build ne (clock d) (dr_drv_path d) (job_features features d) (dr_outputs d) input_paths nd) (\<lambda>r nd1.
          st_bind (queue_builds ne clock features plan ds nd1) (\<lambda>rs nd2. (Inr (r # rs), nd2))))"

text \<open>Existing paths are indexed; errors are warnings.\<close>

fun index_existing :: "node_env \<Rightarrow> string list \<Rightarrow> 'u node \<Rightarrow> unit result \<times> 'u node" where
  "index_existing ne [] nd = (Inr (), nd)"
| "index_existing ne (p # ps) nd =
     (if ne_exists ne p
      then (case index_store_path ne p p nd of
              (Inl (Panic m), nd1) \<Rightarrow> (panic m, nd1)
            | (_, nd1) \<Rightarrow> index_existing ne ps nd1)
      else index_existing ne ps nd)"

section \<open>The monitor\<close>

definition import_nar_to_nix_store :: "(string \<Rightarrow> byte list \<Rightarrow> string + (io_error + (bool \<times> byte list))) \<Rightarrow>
    (byte list \<Rightarrow> string) \<Rightarrow> byte list \<Rightarrow> string \<Rightarrow> unit result" where
  "import_nar_to_nix_store restore lossy nar_data store_path =
     (case restore store_path nar_data of
        Inl e \<Rightarrow> throw (Build (''failed to spawn nix-store: '' @ e))
      | Inr (Inl (kind, e)) \<Rightarrow> throw (Io kind e)
      | Inr (Inr (success, stderr)) \<Rightarrow>
          if \<not> success then throw (Build (''failed to import '' @ store_path @ '': '' @ lossy stderr)) else Inr ())"

datatype monitor_turn = CancelTurn | AnnounceTurn | FetchTurn

record 'u push_env =
  ps_turn :: "nat \<Rightarrow> monitor_turn"
  ps_before :: "nat \<Rightarrow> 'u node \<Rightarrow> 'u node"
  ps_during :: "nat \<Rightarrow> 'u node \<Rightarrow> 'u node"
  ps_valid_id :: "hash32 \<Rightarrow> bool"
  ps_dial :: "endpoint_id \<Rightarrow> nat \<Rightarrow> remote"
  ps_restore :: "string \<Rightarrow> byte list \<Rightarrow> string + (io_error + (bool \<times> byte list))"

text \<open>\<open>pu_fetched\<close> counts the fetched outputs; \<open>pu_imports\<close> are those the store has taken.\<close>

record 'u pusher =
  pu_node :: "'u node"
  pu_fetched :: nat
  pu_imports :: "(string \<times> byte list) list"

definition fetch_output :: "'u push_env \<Rightarrow> node_env \<Rightarrow> endpoint_id \<Rightarrow> build_output \<Rightarrow> 'u pusher \<Rightarrow> unit result \<times> 'u pusher" where
  "fetch_output pe ne builder_id out s =
     (case fetch_by_id ne (ps_dial pe) builder_id (bo_blake3 out) (pu_node s) of
        (Inl (Panic m), nd) \<Rightarrow> (panic m, s\<lparr>pu_node := nd\<rparr>)
      | (Inl (Err _), nd) \<Rightarrow> (Inr (), s\<lparr>pu_node := nd\<rparr>)
      | (Inr (_, nar_data), nd) \<Rightarrow>
          (Inr (), s\<lparr>pu_node := nd, pu_fetched := pu_fetched s + 1, pu_imports :=
             (case import_nar_to_nix_store (ps_restore pe) (ne_lossy ne) nar_data (bo_store_path out) of
                Inl _ \<Rightarrow> pu_imports s | Inr _ \<Rightarrow> pu_imports s @ [(bo_store_path out, nar_data)])\<rparr>))"

fun fetch_outputs :: "'u push_env \<Rightarrow> node_env \<Rightarrow> endpoint_id \<Rightarrow> build_output list \<Rightarrow> 'u pusher \<Rightarrow> unit result \<times> 'u pusher" where
  "fetch_outputs pe ne b [] s = (Inr (), s)"
| "fetch_outputs pe ne b (out # outs) s =
     st_bind (fetch_output pe ne b out s) (\<lambda>_. fetch_outputs pe ne b outs)"

fun fetch_results :: "'u push_env \<Rightarrow> node_env \<Rightarrow> build_result list \<Rightarrow> 'u pusher \<Rightarrow> unit result \<times> 'u pusher" where
  "fetch_results pe ne [] s = (Inr (), s)"
| "fetch_results pe ne (r # rs) s =
     (if \<not> ps_valid_id pe (br_builder r) then (panic ''invalid builder ID'', s)
      else st_bind (fetch_outputs pe ne (br_builder r) (br_outputs r) s) (\<lambda>_. fetch_results pe ne rs))"

definition drained :: "build_queue \<Rightarrow> bool" where
  "drained q \<longleftrightarrow> pending_count (queue_stats_of q) = 0 \<and> leased_count (queue_stats_of q) = 0 \<and> \<not> has_pending_fetches q"

text \<open>The queue of the node, which the command has checked to be there.\<close>

definition the_queue :: "'u node \<Rightarrow> build_queue result" where
  "the_queue nd = (case nd_queue nd of None \<Rightarrow> panic ''called Option::unwrap() on a None value'' | Some q \<Rightarrow> Inr q)"

text \<open>A fetching turn; its value is whether all builds are done.\<close>

definition fetch_turn :: "'u push_env \<Rightarrow> node_env \<Rightarrow> nat \<Rightarrow> 'u pusher \<Rightarrow> bool result \<times> 'u pusher" where
  "fetch_turn pe ne k s =
     (case the_queue (pu_node s) of
        Inl e \<Rightarrow> (Inl e, s)
      | Inr q \<Rightarrow>
          (case take_pending_fetches q of
             (pending_fetches, q1) \<Rightarrow>
               st_bind (fetch_results pe ne pending_fetches (s\<lparr>pu_node := (pu_node s)\<lparr>nd_queue := Some q1\<rparr>\<rparr>)) (\<lambda>_ s2.
               let s3 = s2\<lparr>pu_node := ps_during pe k (pu_node s2)\<rparr>
               in (rbind (the_queue (pu_node s3)) (\<lambda>q3. Inr (drained q3)), s3))))"

text \<open>A turn of the announcement timer; a failed announcement is a warning.\<close>

definition announce_turn :: "node_env \<Rightarrow> string list \<Rightarrow> 'u pusher \<Rightarrow> unit result \<times> 'u pusher" where
  "announce_turn ne features_vec s =
     (case the_queue (pu_node s) of
        Inl e \<Rightarrow> (Inl e, s)
      | Inr q \<Rightarrow>
          if pending_count (queue_stats_of q) > 0
          then (case nd_gossip (pu_node s) of
                  None \<Rightarrow> (panic ''called Option::unwrap() on a None value'', s)
                | Some g \<Rightarrow> (Inr (), s\<lparr>pu_node := (pu_node s)\<lparr>nd_sent := nd_sent (pu_node s) @
                    snd (announce_need_builder (ne_encode_gossip ne) (ne_broadcast ne) features_vec g)\<rparr>\<rparr>))
          else (Inr (), s))"

partial_function (option) monitor :: "'u push_env \<Rightarrow> node_env \<Rightarrow> string list \<Rightarrow> nat \<Rightarrow> 'u pusher \<Rightarrow>
    (unit result \<times> 'u pusher) option" where
  "monitor pe ne features_vec k s =
     (let s1 = s\<lparr>pu_node := ps_before pe k (pu_node s)\<rparr>
      in case ps_turn pe k of
           CancelTurn \<Rightarrow> Some (Inr (), s1)
         | AnnounceTurn \<Rightarrow>
             (case announce_turn ne features_vec s1 of
                (Inl e, s2) \<Rightarrow> Some (Inl e, s2) | (Inr _, s2) \<Rightarrow> monitor pe ne features_vec (k + 1) s2)
         | FetchTurn \<Rightarrow>
             (case fetch_turn pe ne k s1 of
                (Inl e, s2) \<Rightarrow> Some (Inl e, s2)
              | (Inr finished, s2) \<Rightarrow> if finished then Some (Inr (), s2) else monitor pe ne features_vec (k + 1) s2))"

section \<open>The command\<close>

text \<open>The features of all jobs, in the order \<open>hash_order\<close> of a hash set.\<close>

definition plan_features :: "(string list \<Rightarrow> string list) \<Rightarrow> drv_info list \<Rightarrow> string list" where
  "plan_features hash_order plan =
     hash_order (remdups (filter not_builtin (concat (map (\<lambda>d. dr_system d # dr_required_features d) plan))))"

definition build_push :: "'u push_env \<Rightarrow> node_env \<Rightarrow> (drv_info \<Rightarrow> u64) \<Rightarrow> (string list \<Rightarrow> string list) \<Rightarrow> build_plan result \<Rightarrow>
    string list \<Rightarrow> 'u node \<Rightarrow> (unit result \<times> 'u pusher) option" where
  "build_push pe ne clock hash_order plan features nd =
     (let start = \<lparr>pu_node = nd, pu_fetched = 0, pu_imports = []\<rparr> in
      case queue_of nd of
        Inl e \<Rightarrow> Some (Inl e, start)
      | Inr _ \<Rightarrow>
     (case plan of
        Inl e \<Rightarrow> Some (Inl e, start)
      | Inr p \<Rightarrow>
          if bp_to_build p = [] then Some (Inr (), start)
          else (case st_bind (index_existing ne (bp_existing_paths p) nd)
                       (\<lambda>_. queue_builds ne clock features (bp_to_build p) (bp_to_build p)) of
             (Inl e, nd1) \<Rightarrow> Some (Inl e, start\<lparr>pu_node := nd1\<rparr>)
           | (Inr _, nd1) \<Rightarrow>
               if \<not> gossip_enabled nd1 then Some (panic ''called Option::unwrap() on a None value'', start\<lparr>pu_node := nd1\<rparr>)
               else monitor pe ne (plan_features hash_order (bp_to_build p)) 0 (start\<lparr>pu_node := nd1\<rparr>))))"

section \<open>What is queued\<close>

definition announces_ok :: "node_env \<Rightarrow> bool" where
  "announces_ok ne \<longleftrightarrow> (\<forall>fs g. fst (announce_need_builder (ne_encode_gossip ne) (ne_broadcast ne) fs g) = Inr ())"

text \<open>The inputs of a job as the index has them when the jobs are queued.\<close>

definition known_inputs :: "node_env \<Rightarrow> index_table \<Rightarrow> string list \<Rightarrow> input_path list" where
  "known_inputs ne t ps = concat (map (\<lambda>p. case get_by_store_path (ne_sql ne) p t of
     Inr (Some entry) \<Rightarrow> [\<lparr>ip_store_path = p, ip_blake3 = he_blake3 entry\<rparr>] | _ \<Rightarrow> []) ps)"

definition job_of :: "node_env \<Rightarrow> (drv_info \<Rightarrow> u64) \<Rightarrow> string list \<Rightarrow> drv_info list \<Rightarrow> index_table \<Rightarrow> job_id \<Rightarrow> drv_info \<Rightarrow> build_job" where
  "job_of ne clock features plan t jid d = \<lparr>bj_id = jid, bj_drv_hash = from_drv_path (ne_blake3 ne) (dr_drv_path d),
     bj_drv_path = dr_drv_path d, bj_system_features = job_features features d, bj_outputs = dr_outputs d,
     bj_input_paths = known_inputs ne t (dr_input_srcs d @ planned_outputs plan d), bj_submitted_at = clock d\<rparr>"

fun jobs_of :: "node_env \<Rightarrow> (drv_info \<Rightarrow> u64) \<Rightarrow> string list \<Rightarrow> drv_info list \<Rightarrow> index_table \<Rightarrow> job_id \<Rightarrow> drv_info list \<Rightarrow> build_job list" where
  "jobs_of ne clock features plan t jid [] = []"
| "jobs_of ne clock features plan t jid (d # ds) =
     job_of ne clock features plan t jid d # jobs_of ne clock features plan t (jid + 1) ds"

text \<open>A lookup never panics, so the inputs are found unless the lock is poisoned.\<close>

lemma lookup_no_panic: "get_by_store_path sql p t \<noteq> panic m"
  by (auto simp: get_by_store_path_def with_sql_def optional_tuple_to_entry_def tuple_to_entry_def
      blake3_from_slice_def sha256_from_slice_def split: option.splits list.splits if_splits sum.splits)

lemma indexed_inputs_known: "\<not> ne_poisoned ne \<Longrightarrow> indexed_inputs ne nd ps = Inr (known_inputs ne (nd_index nd) ps)"
  by (induction ps)
     (auto simp: known_inputs_def indexed_input_def lookup_no_panic split: sum.split option.split fault.split)

lemma push_build_exact:
  assumes "nd_queue nd = Some q" "announces_ok ne" "push (ne_blake3 ne) now p fs outs ips q = (r, q')"
  shows "\<exists>nd'. push_build ne now p fs outs ips nd = (Inr r, nd') \<and> nd_queue nd' = Some q' \<and>
    nd_index nd' = nd_index nd \<and> nd_gossip nd' = nd_gossip nd"
proof (cases r)
  case (Pair jid announce)
  show ?thesis
  proof (cases "if announce then nd_gossip nd else None")
    case None
    then show ?thesis using assms Pair by (auto simp: push_build_def Let_def split: if_splits)
  next
    case (Some g)
    then have ann: "announce" "nd_gossip nd = Some g" by (auto split: if_splits)
    obtain sent where "announce_need_builder (ne_encode_gossip ne) (ne_broadcast ne) fs g = (Inr (), sent)"
      using assms(2) unfolding announces_ok_def by (metis prod.collapse)
    then show ?thesis using assms Pair ann by (simp add: push_build_def Let_def)
  qed
qed

text \<open>
  Queueing the plan: each push announces only when the queue was empty or nothing was announced
  before.
\<close>

definition announces_first :: "build_queue \<Rightarrow> bool" where
  "announces_first q \<longleftrightarrow> bq_pending q = [] \<or> bq_needed_features q = None"

definition push_jobs :: "build_job list \<Rightarrow> build_queue \<Rightarrow> build_queue" where
  "push_jobs js q = q\<lparr>bq_next_job_id := bq_next_job_id q + of_nat (length js), bq_pending := bq_pending q @ js,
     bq_needed_features := (if js \<noteq> [] \<and> announces_first q then Some (bj_system_features (hd js)) else bq_needed_features q)\<rparr>"

lemma push_jobs_Nil: "push_jobs [] q = q"
  by (simp add: push_jobs_def)

lemma push_jobs_Cons: "push_jobs (j # js) q = push_jobs js (push_jobs [j] q)"
  by (simp add: push_jobs_def announces_first_def)

lemma push_is_push_jobs:
  "push (ne_blake3 ne) (clock d) (dr_drv_path d) (job_features features d) (dr_outputs d)
     (known_inputs ne t (dr_input_srcs d @ planned_outputs plan d)) q =
   ((bq_next_job_id q, announces_first q), push_jobs [job_of ne clock features plan t (bq_next_job_id q) d] q)"
  by (simp add: push_def push_jobs_def announces_first_def job_of_def Let_def)

lemma announces_after: "js \<noteq> [] \<Longrightarrow> \<not> announces_first (push_jobs js q)"
  by (auto simp: announces_first_def push_jobs_def)

lemma queue_builds_pushed:
  assumes "\<not> ne_poisoned ne" "announces_ok ne" "nd_queue nd = Some q"
  shows "\<exists>rs nd'. queue_builds ne clock features plan ds nd = (Inr rs, nd') \<and>
    nd_queue nd' = Some (push_jobs (jobs_of ne clock features plan (nd_index nd) (bq_next_job_id q) ds) q) \<and>
    nd_index nd' = nd_index nd \<and> nd_gossip nd' = nd_gossip nd \<and>
    map fst rs = map bj_id (jobs_of ne clock features plan (nd_index nd) (bq_next_job_id q) ds) \<and>
    map snd rs = (case ds of [] \<Rightarrow> [] | _ # ds' \<Rightarrow> announces_first q # map (\<lambda>_. False) ds')"
  using assms(3)
proof (induction ds arbitrary: nd q)
  case Nil
  then show ?case by (simp add: push_jobs_Nil)
next
  case (Cons d ds)
  let ?j = "job_of ne clock features plan (nd_index nd) (bq_next_job_id q) d" and ?q1 = "push_jobs [job_of ne clock features plan (nd_index nd) (bq_next_job_id q) d] q"
  from push_build_exact [OF Cons.prems assms(2) push_is_push_jobs] obtain nd1 where 1:
    "push_build ne (clock d) (dr_drv_path d) (job_features features d) (dr_outputs d)
       (known_inputs ne (nd_index nd) (dr_input_srcs d @ planned_outputs plan d)) nd = (Inr (bq_next_job_id q, announces_first q), nd1)"
    "nd_queue nd1 = Some ?q1" "nd_index nd1 = nd_index nd" "nd_gossip nd1 = nd_gossip nd" by blast
  have next_id: "bq_next_job_id ?q1 = bq_next_job_id q + 1" by (simp add: push_jobs_def)
  from Cons.IH [OF 1(2)] obtain rs nd2 where 2: "queue_builds ne clock features plan ds nd1 = (Inr rs, nd2)"
    "nd_queue nd2 = Some (push_jobs (jobs_of ne clock features plan (nd_index nd) (bq_next_job_id q + 1) ds) ?q1)"
    "nd_index nd2 = nd_index nd" "nd_gossip nd2 = nd_gossip nd"
    "map fst rs = map bj_id (jobs_of ne clock features plan (nd_index nd) (bq_next_job_id q + 1) ds)"
    "map snd rs = (case ds of [] \<Rightarrow> [] | _ # ds' \<Rightarrow> announces_first ?q1 # map (\<lambda>_. False) ds')"
    unfolding next_id 1(3,4) by blast
  have "map snd rs = map (\<lambda>_. False) ds" using 2(6) announces_after [of "[?j]" q] by (cases ds) simp_all
  moreover have "bj_id ?j = bq_next_job_id q" by (simp add: job_of_def)
  moreover have "push_jobs (?j # jobs_of ne clock features plan (nd_index nd) (bq_next_job_id q + 1) ds) q =
      push_jobs (jobs_of ne clock features plan (nd_index nd) (bq_next_job_id q + 1) ds) ?q1" by (rule push_jobs_Cons)
  moreover have "job_inputs ne plan d nd = Inr (known_inputs ne (nd_index nd) (dr_input_srcs d @ planned_outputs plan d))"
    by (simp add: job_inputs_def indexed_inputs_known [OF assms(1)])
  ultimately show ?case using 1(1) 2(1-5) by simp
qed

section \<open>The course of the monitor\<close>

text \<open>
  Builders act on the queue as \<open>before\<close> and \<open>during\<close> say, and leave the gossip service there.
\<close>

definition acts_on_queue :: "'u push_env \<Rightarrow> (nat \<Rightarrow> build_queue \<Rightarrow> build_queue) \<Rightarrow> (nat \<Rightarrow> build_queue \<Rightarrow> build_queue) \<Rightarrow> bool" where
  "acts_on_queue pe before during \<longleftrightarrow>
     (\<forall>k nd. nd_queue (ps_before pe k nd) = map_option (before k) (nd_queue nd) \<and>
        nd_queue (ps_during pe k nd) = map_option (during k) (nd_queue nd) \<and>
        (nd_gossip nd \<noteq> None \<longrightarrow> nd_gossip (ps_before pe k nd) \<noteq> None \<and> nd_gossip (ps_during pe k nd) \<noteq> None))"

text \<open>The queue before turn \<open>k\<close>, and the results the turn finds.\<close>

primrec queue_at :: "(nat \<Rightarrow> monitor_turn) \<Rightarrow> (nat \<Rightarrow> build_queue \<Rightarrow> build_queue) \<Rightarrow> (nat \<Rightarrow> build_queue \<Rightarrow> build_queue) \<Rightarrow>
    build_queue \<Rightarrow> nat \<Rightarrow> build_queue" where
  "queue_at turn before during q 0 = q"
| "queue_at turn before during q (Suc k) =
     (let q1 = before k (queue_at turn before during q k)
      in if turn k = FetchTurn then during k (snd (take_pending_fetches q1)) else q1)"

definition turn_results :: "(nat \<Rightarrow> monitor_turn) \<Rightarrow> (nat \<Rightarrow> build_queue \<Rightarrow> build_queue) \<Rightarrow> (nat \<Rightarrow> build_queue \<Rightarrow> build_queue) \<Rightarrow>
    build_queue \<Rightarrow> nat \<Rightarrow> build_result list" where
  "turn_results turn before during q k =
     (if turn k = FetchTurn then bq_pending_fetch (before k (queue_at turn before during q k)) else [])"

text \<open>A result that can be fetched: every output is served by the builder and taken by the store.\<close>

definition fetchable :: "'u push_env \<Rightarrow> node_env \<Rightarrow> (build_output \<Rightarrow> byte list) \<Rightarrow> build_result \<Rightarrow> bool" where
  "fetchable pe ne nar r \<longleftrightarrow> ps_valid_id pe (br_builder r) \<and>
     (\<forall>out \<in> set (br_outputs r).
        (\<exists>header. \<forall>k. fetch_nar_once (ne_encode_request ne) (ne_decode_header ne) (ne_lossy ne) (ne_blake3 ne) (ne_hex ne)
           (ps_dial pe (br_builder r) k) (bo_blake3 out) = Inr (header, nar out)) \<and>
        import_nar_to_nix_store (ps_restore pe) (ne_lossy ne) (nar out) (bo_store_path out) = Inr ())"

definition imports_of :: "(build_output \<Rightarrow> byte list) \<Rightarrow> build_result list \<Rightarrow> (string \<times> byte list) list" where
  "imports_of nar rs = map (\<lambda>out. (bo_store_path out, nar out)) (concat (map br_outputs rs))"

definition node_ok :: "node_env \<Rightarrow> bool" where
  "node_ok ne \<longleftrightarrow> \<not> ne_poisoned ne \<and> ne_sql ne = None \<and> (\<forall>p m. ne_query ne p \<noteq> panic m)"

text \<open>After fetching, only the index, the count and the imports have changed.\<close>

definition collected :: "(string \<times> byte list) list \<Rightarrow> 'u pusher \<Rightarrow> 'u pusher \<Rightarrow> bool" where
  "collected is s s' \<longleftrightarrow> nd_queue (pu_node s') = nd_queue (pu_node s) \<and> nd_gossip (pu_node s') = nd_gossip (pu_node s) \<and>
     pu_fetched s' = pu_fetched s + length is \<and> pu_imports s' = pu_imports s @ is"

lemma collected_trans: "collected is s s1 \<Longrightarrow> collected js s1 s2 \<Longrightarrow> collected (is @ js) s s2"
  by (simp add: collected_def)

lemma collected_refl: "collected [] s s"
  by (simp add: collected_def)

lemma fetch_outputs_collect:
  assumes "node_ok ne"
    and "\<forall>out \<in> set outs. (\<exists>header. \<forall>k. fetch_nar_once (ne_encode_request ne) (ne_decode_header ne) (ne_lossy ne) (ne_blake3 ne)
        (ne_hex ne) (ps_dial pe b k) (bo_blake3 out) = Inr (header, nar out)) \<and>
      import_nar_to_nix_store (ps_restore pe) (ne_lossy ne) (nar out) (bo_store_path out) = Inr ()"
  shows "\<exists>s'. fetch_outputs pe ne b outs s = (Inr (), s') \<and> collected (map (\<lambda>out. (bo_store_path out, nar out)) outs) s s'"
  using assms(2)
proof (induction outs arbitrary: s)
  case Nil
  then show ?case by (simp add: collected_refl)
next
  case (Cons out outs)
  from Cons.prems obtain header where served: "fetch_nar_once (ne_encode_request ne) (ne_decode_header ne) (ne_lossy ne) (ne_blake3 ne)
      (ne_hex ne) (ps_dial pe b k) (bo_blake3 out) = Inr (header, nar out)" for k by auto
  have imp: "import_nar_to_nix_store (ps_restore pe) (ne_lossy ne) (nar out) (bo_store_path out) = Inr ()"
    using Cons.prems by simp
  have ok: "\<not> ne_poisoned ne" "ne_sql ne = None" "\<And>p m. ne_query ne p \<noteq> panic m"
    using assms(1) by (simp_all add: node_ok_def)
  obtain x t where "fetch_by_id ne (ps_dial pe) b (bo_blake3 out) (pu_node s) = (Inr (x, nar out), (pu_node s)\<lparr>nd_index := t\<rparr>)"
    using fetch_from_ok [of ne "ps_dial pe b", OF served ok, where nd = "pu_node s"] unfolding fetch_by_id_def by blast
  then obtain s1 where 1: "fetch_output pe ne b out s = (Inr (), s1)" "collected [(bo_store_path out, nar out)] s s1"
    using imp by (simp add: fetch_output_def collected_def)
  have "\<exists>s2. fetch_outputs pe ne b outs s1 = (Inr (), s2) \<and> collected (map (\<lambda>out. (bo_store_path out, nar out)) outs) s1 s2"
    using Cons.prems by (intro Cons.IH) simp
  then obtain s2 where "fetch_outputs pe ne b outs s1 = (Inr (), s2)"
    "collected (map (\<lambda>out. (bo_store_path out, nar out)) outs) s1 s2" by blast
  with 1 show ?case using collected_trans [OF 1(2)] by fastforce
qed

lemma fetch_results_collect:
  assumes "node_ok ne" "\<forall>r \<in> set rs. fetchable pe ne nar r"
  shows "\<exists>s'. fetch_results pe ne rs s = (Inr (), s') \<and> collected (imports_of nar rs) s s'"
  using assms(2)
proof (induction rs arbitrary: s)
  case Nil
  then show ?case by (simp add: collected_refl imports_of_def)
next
  case (Cons r rs)
  then have r: "ps_valid_id pe (br_builder r)" by (simp add: fetchable_def)
  obtain s1 where 1: "fetch_outputs pe ne (br_builder r) (br_outputs r) s = (Inr (), s1)"
      "collected (map (\<lambda>out. (bo_store_path out, nar out)) (br_outputs r)) s s1"
    using fetch_outputs_collect [OF assms(1), of "br_outputs r" pe "br_builder r" nar s] Cons.prems by (auto simp: fetchable_def)
  obtain s2 where "fetch_results pe ne rs s1 = (Inr (), s2)" "collected (imports_of nar rs) s1 s2"
    using Cons.IH Cons.prems by auto
  with r 1 show ?case using collected_trans [OF 1(2)] by (fastforce simp: imports_of_def)
qed

lemma fetch_turn_collects:
  fixes k :: nat
  assumes "node_ok ne" "acts_on_queue pe before during" "nd_queue (pu_node s) = Some q" "nd_gossip (pu_node s) \<noteq> None"
    and "\<forall>r \<in> set (bq_pending_fetch q). fetchable pe ne nar r"
  defines "q' \<equiv> during k (snd (take_pending_fetches q))"
  shows "\<exists>s'. fetch_turn pe ne k s = (Inr (drained q'), s') \<and> nd_queue (pu_node s') = Some q' \<and> nd_gossip (pu_node s') \<noteq> None \<and>
    pu_fetched s' = pu_fetched s + length (imports_of nar (bq_pending_fetch q)) \<and>
    pu_imports s' = pu_imports s @ imports_of nar (bq_pending_fetch q)"
proof -
  obtain q1 where tk: "take_pending_fetches q = (bq_pending_fetch q, q1)" by (simp add: take_pending_fetches_def)
  let ?s = "s\<lparr>pu_node := (pu_node s)\<lparr>nd_queue := Some q1\<rparr>\<rparr>"
  from fetch_results_collect [OF assms(1,5)] obtain s2 where
    2: "fetch_results pe ne (bq_pending_fetch q) ?s = (Inr (), s2)" "collected (imports_of nar (bq_pending_fetch q)) ?s s2" by blast
  have d: "nd_queue (ps_during pe k (pu_node s2)) = Some q'" "nd_gossip (ps_during pe k (pu_node s2)) \<noteq> None"
    using assms(2,4) 2(2) by (simp_all add: acts_on_queue_def collected_def q'_def tk)
  show ?thesis
    using 2 d assms(3) by (simp add: fetch_turn_def the_queue_def tk Let_def collected_def)
qed

lemma announce_turn_collects:
  assumes "nd_queue (pu_node s) = Some q" "nd_gossip (pu_node s) \<noteq> None"
  shows "\<exists>s'. announce_turn ne fs s = (Inr (), s') \<and> collected [] s s'"
  using assms by (auto simp: announce_turn_def the_queue_def collected_def)

text \<open>
  The monitor ends with its first fetching turn that leaves the queue drained, and has imported
  what the results it found on its way announce.
\<close>

lemma monitor_collects:
  fixes before during :: "nat \<Rightarrow> build_queue \<Rightarrow> build_queue"
  assumes env: "node_ok ne" "acts_on_queue pe before during"
    and n: "ps_turn pe n = FetchTurn" "drained (queue_at (ps_turn pe) before during q (Suc n))"
    and early: "\<forall>i<n. ps_turn pe i \<noteq> CancelTurn \<and>
      (ps_turn pe i = FetchTurn \<longrightarrow> \<not> drained (queue_at (ps_turn pe) before during q (Suc i)))"
    and results: "\<forall>i\<le>n. \<forall>r \<in> set (turn_results (ps_turn pe) before during q i). fetchable pe ne nar r"
    and "k \<le> n" "nd_queue (pu_node s) = Some (queue_at (ps_turn pe) before during q k)" "nd_gossip (pu_node s) \<noteq> None"
  defines "imps \<equiv> \<lambda>k. imports_of nar (concat (map (turn_results (ps_turn pe) before during q) [k..<Suc n]))"
  shows "\<exists>s'. monitor pe ne fs k s = Some (Inr (), s') \<and> nd_queue (pu_node s') = Some (queue_at (ps_turn pe) before during q (Suc n)) \<and>
    pu_fetched s' = pu_fetched s + length (imps k) \<and> pu_imports s' = pu_imports s @ imps k"
  using assms(7-9)
proof (induction arbitrary: s rule: inc_induct)
  case base
  let ?s = "s\<lparr>pu_node := ps_before pe n (pu_node s)\<rparr>" and ?q = "before n (queue_at (ps_turn pe) before during q n)"
  have q: "nd_queue (pu_node ?s) = Some ?q" "nd_gossip (pu_node ?s) \<noteq> None"
    using env(2) base by (simp_all add: acts_on_queue_def)
  have r: "\<forall>r \<in> set (bq_pending_fetch ?q). fetchable pe ne nar r"
    using results n(1) by (auto simp add: turn_results_def)
  have q': "queue_at (ps_turn pe) before during q (Suc n) = during n (snd (take_pending_fetches ?q))" using n(1) by (simp add: Let_def)
  have "imps n = imports_of nar (bq_pending_fetch ?q)" using n(1) by (simp add: imps_def turn_results_def)
  with fetch_turn_collects [OF env q r, of n] n q' show ?case by (subst monitor.simps) (auto simp: Let_def)
next
  case (step k)
  let ?s = "s\<lparr>pu_node := ps_before pe k (pu_node s)\<rparr>" and ?q = "before k (queue_at (ps_turn pe) before during q k)"
  have q: "nd_queue (pu_node ?s) = Some ?q" "nd_gossip (pu_node ?s) \<noteq> None"
    using env(2) step.prems by (simp_all add: acts_on_queue_def)
  have r: "\<forall>r \<in> set (turn_results (ps_turn pe) before during q k). fetchable pe ne nar r"
    using results less_imp_le [OF step.hyps(2)] by blast
  have imps: "imps k = imports_of nar (turn_results (ps_turn pe) before during q k) @ imps (Suc k)"
    using step.hyps by (simp add: imps_def imports_of_def upt_conv_Cons)
  show ?case
  proof (cases "ps_turn pe k")
    case CancelTurn
    then show ?thesis using early step.hyps(2) by simp
  next
    case AnnounceTurn
    obtain s1 where 1: "announce_turn ne fs ?s = (Inr (), s1)" "collected [] ?s s1"
      using announce_turn_collects [OF q] by blast
    have "nd_queue (pu_node s1) = Some (queue_at (ps_turn pe) before during q (Suc k))" "nd_gossip (pu_node s1) \<noteq> None"
      using 1(2) q AnnounceTurn by (simp_all add: collected_def)
    from step.IH [OF this] 1 AnnounceTurn imps show ?thesis
      by (subst monitor.simps) (auto simp: Let_def collected_def turn_results_def imports_of_def)
  next
    case FetchTurn
    then have r': "\<forall>r \<in> set (bq_pending_fetch ?q). fetchable pe ne nar r" using r by (simp add: turn_results_def)
    have q': "queue_at (ps_turn pe) before during q (Suc k) = during k (snd (take_pending_fetches ?q))"
      using FetchTurn by (simp add: Let_def)
    obtain s1 where 1: "fetch_turn pe ne k ?s = (Inr (drained (queue_at (ps_turn pe) before during q (Suc k))), s1)"
      "nd_queue (pu_node s1) = Some (queue_at (ps_turn pe) before during q (Suc k))" "nd_gossip (pu_node s1) \<noteq> None"
      "pu_fetched s1 = pu_fetched s + length (imports_of nar (bq_pending_fetch ?q))"
      "pu_imports s1 = pu_imports s @ imports_of nar (bq_pending_fetch ?q)"
      using fetch_turn_collects [OF env q r', of k] unfolding q' by auto
    have "\<not> drained (queue_at (ps_turn pe) before during q (Suc k))" using early step.hyps(2) FetchTurn by blast
    with step.IH [OF 1(2,3)] 1 FetchTurn imps show ?thesis
      by (subst monitor.simps) (auto simp del: queue_at.simps simp: Let_def turn_results_def)
  qed
qed

section \<open>The whole command\<close>

lemma index_store_path_keeps:
  "nd_queue (snd (index_store_path ne p f nd)) = nd_queue nd \<and> (nd_gossip (snd (index_store_path ne p f nd)) = nd_gossip nd)"
  by (auto simp: index_store_path_def insert_into_index_def st_bind_def split: sum.splits option.splits prod.splits)

lemma index_existing_keeps:
  "index_existing ne ps nd = (res, nd') \<Longrightarrow> nd_queue nd' = nd_queue nd \<and> nd_gossip nd' = nd_gossip nd"
proof (induction ps arbitrary: nd)
  case (Cons p ps)
  obtain r nd1 where i: "index_store_path ne p p nd = (r, nd1)" by fastforce
  have "nd_queue nd1 = nd_queue nd \<and> nd_gossip nd1 = nd_gossip nd" using index_store_path_keeps [of ne p p nd] i by simp
  with Cons i show ?case by (auto split: if_splits sum.splits fault.splits)
qed simp

lemma build_push_collects:
  fixes before during :: "nat \<Rightarrow> build_queue \<Rightarrow> build_queue"
  assumes env: "node_ok ne" "announces_ok ne" "acts_on_queue pe before during"
    and nd: "nd_queue nd = Some q0" "nd_gossip nd \<noteq> None"
    and p: "bp_to_build p \<noteq> []" "index_existing ne (bp_existing_paths p) nd = (Inr (), nd1)"
      "q = push_jobs (jobs_of ne clock features (bp_to_build p) (nd_index nd1) (bq_next_job_id q0) (bp_to_build p)) q0"
    and n: "ps_turn pe n = FetchTurn" "drained (queue_at (ps_turn pe) before during q (Suc n))"
    and early: "\<forall>i<n. ps_turn pe i \<noteq> CancelTurn \<and>
      (ps_turn pe i = FetchTurn \<longrightarrow> \<not> drained (queue_at (ps_turn pe) before during q (Suc i)))"
    and results: "\<forall>i\<le>n. \<forall>r \<in> set (turn_results (ps_turn pe) before during q i). fetchable pe ne nar r"
  shows "\<exists>s'. build_push pe ne clock hash_order (Inr p) features nd = Some (Inr (), s') \<and>
    nd_queue (pu_node s') = Some (queue_at (ps_turn pe) before during q (Suc n)) \<and>
    pu_imports s' = imports_of nar (concat (map (turn_results (ps_turn pe) before during q) [0..<Suc n])) \<and>
    pu_fetched s' = length (pu_imports s')"
proof -
  have nd1: "nd_queue nd1 = Some q0" "nd_gossip nd1 \<noteq> None" using index_existing_keeps [OF p(2)] nd by simp_all
  have "\<not> ne_poisoned ne" using env(1) by (simp add: node_ok_def)
  from queue_builds_pushed [OF this env(2) nd1(1), of clock features "bp_to_build p" "bp_to_build p"]
  obtain rs nd2 where qb: "queue_builds ne clock features (bp_to_build p) (bp_to_build p) nd1 = (Inr rs, nd2)"
    "nd_queue nd2 = Some q" "nd_gossip nd2 \<noteq> None" unfolding p(3) using nd1(2) by auto
  let ?s = "\<lparr>pu_node = nd2, pu_fetched = 0, pu_imports = []\<rparr>"
  have s: "nd_queue (pu_node ?s) = Some (queue_at (ps_turn pe) before during q 0)" "nd_gossip (pu_node ?s) \<noteq> None"
    using qb by simp_all
  from monitor_collects [OF env(1,3) n early results le0 s, where fs = "plan_features hash_order (bp_to_build p)"]
  obtain s' where s': "monitor pe ne (plan_features hash_order (bp_to_build p)) 0 ?s = Some (Inr (), s')"
    "nd_queue (pu_node s') = Some (queue_at (ps_turn pe) before during q (Suc n))"
    "pu_fetched s' = length (imports_of nar (concat (map (turn_results (ps_turn pe) before during q) [0..<Suc n])))"
    "pu_imports s' = imports_of nar (concat (map (turn_results (ps_turn pe) before during q) [0..<Suc n]))" by auto
  have "build_push pe ne clock hash_order (Inr p) features nd =
      monitor pe ne (plan_features hash_order (bp_to_build p)) 0 ?s"
    using nd p(1,2) qb by (auto simp: build_push_def queue_of_def gossip_enabled_def Let_def)
  with s' show ?thesis by auto
qed

text \<open>
  A failed build is drained like a completed one: when a builder takes the only job and reports
  its failure, the command returns without an error and has imported nothing.
\<close>

theorem failed_build_unnoticed:
  assumes env: "node_ok ne" "announces_ok ne" "acts_on_queue pe before during"
    and nd: "nd_queue nd = Some (new_queue me)" "nd_gossip nd \<noteq> None"
    and p: "bp_to_build p = [d]" "index_existing ne (bp_existing_paths p) nd = (Inr (), nd1)"
    and visit: "ps_turn pe 0 = FetchTurn" "during 0 = (\<lambda>q. q)" "set (job_features features d) \<subseteq> set fs"
      "before 0 = (\<lambda>q. snd (Build_Queue.fail 1 b msg (snd (pull t1 t2 b fs q))))"
  shows "\<exists>s' q'. build_push pe ne clock hash_order (Inr p) features nd = Some (Inr (), s') \<and> pu_imports s' = [] \<and>
    nd_queue (pu_node s') = Some q' \<and>
    get_outcome (from_drv_path (ne_blake3 ne) (dr_drv_path d)) q' = Some (job_outcome.Failed b msg)"
proof -
  let ?j = "job_of ne clock features [d] (nd_index nd1) 1 d"
  let ?q = "push_jobs [?j] (new_queue me)" and ?v = "before 0 (push_jobs [?j] (new_queue me))"
  have "matches fs ?j" "bj_id ?j = 1" "bj_drv_hash ?j = from_drv_path (ne_blake3 ne) (dr_drv_path d)"
    using visit(3) by (auto simp: matches_def list_all_iff job_of_def)
  then have v: "bq_pending ?v = []" "bq_leased ?v = []" "bq_pending_fetch ?v = []"
    "get_outcome (from_drv_path (ne_blake3 ne) (dr_drv_path d)) ?v = Some (job_outcome.Failed b msg)"
    unfolding visit(4) by (simp_all add: push_jobs_def new_queue_def pull_def remove_at_def Build_Queue.fail_def Let_def
        get_outcome_def hm_insert_def hm_remove_def hm_get_def announces_first_def)
  have tk: "snd (take_pending_fetches ?v) = ?v" using v(3) by (simp add: take_pending_fetches_def)
  have results: "turn_results (ps_turn pe) before during ?q 0 = []" using v(3) by (simp add: turn_results_def)
  have last: "queue_at (ps_turn pe) before during ?q (Suc 0) = ?v" using visit(1,2) tk by (simp add: Let_def)
  have "drained (queue_at (ps_turn pe) before during ?q (Suc 0))"
    unfolding last using v by (simp add: drained_def queue_stats_of_def has_pending_fetches_def)
  from build_push_collects [OF env nd, of p nd1 ?q clock features 0 "\<lambda>_. []" hash_order, OF _ p(2) _ visit(1) this]
  have "\<exists>s'. build_push pe ne clock hash_order (Inr p) features nd = Some (Inr (), s') \<and>
      nd_queue (pu_node s') = Some ?v \<and> pu_imports s' = []"
    using p(1) results last by (auto simp: new_queue_def imports_of_def)
  with v(4) show ?thesis by blast
qed


definition sample_plan :: "drv_info list" where
  "sample_plan = [\<lparr>dr_drv_path = ''/nix/store/a.drv'', dr_system = ''x86_64-linux'', dr_required_features = [],
      dr_outputs = [''/nix/store/a-out''], dr_input_drvs = [], dr_input_srcs = []\<rparr>,
    \<lparr>dr_drv_path = ''/nix/store/b.drv'', dr_system = ''builtin'', dr_required_features = [''builtin'', ''kvm''],
      dr_outputs = [''/nix/store/x-out''], dr_input_drvs = [(''/nix/store/a.drv'', [''out''])], dr_input_srcs = [''/nix/store/src'']\<rparr>]"

lemma sample_announces: "announces_ok sample_node_env"
  by (simp add: announces_ok_def announce_need_builder_def broadcast_message_def to_bytes_def sample_node_env_def)


end
