(* ===== verification/Queue_Locks.thy ===== *)
theory Queue_Locks
  imports Build_Queue
begin

text \<open>
  The mutexes of the build queue (\<open>build.rs\<close>). Each call of the queue is given by the traces of
  acquisitions and releases its branches may do; threads run sequences of calls, one step of a
  trace at a time, in any order. A thread may acquire a mutex only while no thread holds it. The
  locale \<open>lock_order\<close> states the discipline that rules deadlocks out; the calls that run in
  production obey it, \<open>check_timeouts\<close> does not.
\<close>

section \<open>Mutexes and their order\<close>

datatype queue_lock =
  NextJobId
| PendingLock
| LeasedLock
| PendingFetchLock
| CompletedLock
| NeededFeaturesLock
| LogSubscribersLock

text \<open>The order of acquisition: a thread that holds a mutex only acquires greater ones.\<close>

fun lock_rank :: "queue_lock \<Rightarrow> nat" where
  "lock_rank NextJobId = 0"
| "lock_rank PendingLock = 1"
| "lock_rank LeasedLock = 2"
| "lock_rank PendingFetchLock = 3"
| "lock_rank CompletedLock = 4"
| "lock_rank NeededFeaturesLock = 5"
| "lock_rank LogSubscribersLock = 6"

lemma lock_rank_inject: "lock_rank l = lock_rank k \<longleftrightarrow> l = k"
  by (cases l; cases k) auto

instantiation queue_lock :: linorder
begin

definition less_eq_queue_lock :: "queue_lock \<Rightarrow> queue_lock \<Rightarrow> bool" where
  "l \<le> k \<longleftrightarrow> lock_rank l \<le> lock_rank k"

definition less_queue_lock :: "queue_lock \<Rightarrow> queue_lock \<Rightarrow> bool" where
  "l < k \<longleftrightarrow> lock_rank l < lock_rank k"

instance
  by standard (auto simp: less_eq_queue_lock_def less_queue_lock_def lock_rank_inject)

end

section \<open>Calls and their traces\<close>

datatype queue_call =
  PushCall
| PullCall
| HeartbeatCall
| CompleteCall
| FailCall
| CheckTimeoutsCall
| HasPendingWorkCall
| NeededFeaturesCall
| ClearNeededFeaturesCall
| StatsCall
| GetOutcomeCall
| ListPendingCall
| ListLeasedCall
| TakePendingFetchesCall
| HasPendingFetchesCall
| SubscribeLogsCall
| BroadcastLogCall
| CleanupLogSubscribersCall

datatype lock_step = Acquire queue_lock | Release queue_lock

definition alone :: "queue_lock \<Rightarrow> lock_step list" where
  "alone l = [Acquire l, Release l]"

definition inside :: "queue_lock \<Rightarrow> lock_step list \<Rightarrow> lock_step list" where
  "inside l steps = Acquire l # steps @ [Release l]"

text \<open>
  Guards live to the end of their block, temporaries to the end of their statement: those of
  \<open>stats\<close> are all held until the record is built.
\<close>

fun lock_traces :: "queue_call \<Rightarrow> lock_step list list" where
  "lock_traces PushCall = [alone NextJobId @ inside PendingLock (alone NeededFeaturesLock)]"
| "lock_traces PullCall = [alone PendingLock, inside PendingLock (alone LeasedLock)]"
| "lock_traces HeartbeatCall = [alone LeasedLock]"
| "lock_traces CompleteCall =
     [alone LeasedLock, inside LeasedLock (alone PendingFetchLock @ alone CompletedLock)]"
| "lock_traces FailCall = [alone LeasedLock, inside LeasedLock (alone CompletedLock)]"
| "lock_traces CheckTimeoutsCall = [inside LeasedLock (alone PendingLock)]"
| "lock_traces HasPendingWorkCall = [alone PendingLock]"
| "lock_traces NeededFeaturesCall = [alone NeededFeaturesLock]"
| "lock_traces ClearNeededFeaturesCall = [alone NeededFeaturesLock]"
| "lock_traces StatsCall = [inside PendingLock (inside LeasedLock (alone CompletedLock))]"
| "lock_traces GetOutcomeCall = [alone CompletedLock]"
| "lock_traces ListPendingCall = [alone PendingLock]"
| "lock_traces ListLeasedCall = [alone LeasedLock]"
| "lock_traces TakePendingFetchesCall = [alone PendingFetchLock]"
| "lock_traces HasPendingFetchesCall = [alone PendingFetchLock]"
| "lock_traces SubscribeLogsCall = [alone LogSubscribersLock]"
| "lock_traces BroadcastLogCall = [alone LogSubscribersLock]"
| "lock_traces CleanupLogSubscribersCall = [alone LogSubscribersLock]"

section \<open>Threads\<close>

text \<open>A thread: the mutexes it holds and the steps before it.\<close>

type_synonym lock_thread = "queue_lock list \<times> lock_step list"

definition held_locks :: "lock_thread list \<Rightarrow> queue_lock list" where
  "held_locks ts = concat (map fst ts)"

lemma held_locks_simps [simp]:
  "held_locks [] = []"
  "held_locks (t # ts) = fst t @ held_locks ts"
  "held_locks (ts @ us) = held_locks ts @ held_locks us"
  by (simp_all add: held_locks_def)

fun thread_step :: "queue_lock list \<Rightarrow> lock_thread \<Rightarrow> lock_thread option" where
  "thread_step taken (held, []) = None"
| "thread_step taken (held, Acquire l # steps) = (if l \<in> set taken then None else Some (l # held, steps))"
| "thread_step taken (held, Release l # steps) = (if l \<in> set held then Some (remove1 l held, steps) else None)"

definition sched :: "nat \<Rightarrow> lock_thread list \<Rightarrow> lock_thread list option" where
  "sched i ts = (if i < length ts
     then map_option (\<lambda>t. ts[i := t]) (thread_step (held_locks ts) (ts ! i)) else None)"

inductive lock_run :: "lock_thread list \<Rightarrow> lock_thread list \<Rightarrow> bool" for ts where
  unmoved: "lock_run ts ts"
| moved: "lock_run ts us \<Longrightarrow> sched i us = Some vs \<Longrightarrow> lock_run ts vs"

definition finished :: "lock_thread list \<Rightarrow> bool" where
  "finished ts \<longleftrightarrow> list_all (\<lambda>(held, steps). steps = []) ts"

definition stuck :: "lock_thread list \<Rightarrow> bool" where
  "stuck ts \<longleftrightarrow> \<not> finished ts \<and> (\<forall>i < length ts. sched i ts = None)"

definition steps_left :: "lock_thread list \<Rightarrow> nat" where
  "steps_left ts = sum_list (map (length \<circ> snd) ts)"

text \<open>A thread that starts a list of calls, taking the given branch of each.\<close>

definition start_thread :: "('c \<Rightarrow> lock_step list list) \<Rightarrow> ('c \<times> nat) list \<Rightarrow> lock_thread" where
  "start_thread traces cs = ([], concat (map (\<lambda>(c, b). traces c ! b) cs))"

section \<open>The discipline\<close>

fun ascending :: "queue_lock list \<Rightarrow> lock_step list \<Rightarrow> bool" where
  "ascending held [] = (held = [])"
| "ascending held (Acquire l # steps) = (list_all (\<lambda>h. h < l) held \<and> ascending (l # held) steps)"
| "ascending held (Release l # steps) = (l \<in> set held \<and> ascending (remove1 l held) steps)"

definition disciplined :: "lock_thread list \<Rightarrow> bool" where
  "disciplined ts \<longleftrightarrow> list_all (\<lambda>(held, steps). ascending held steps) ts \<and> distinct (held_locks ts)"

lemma ascending_append:
  "ascending held xs \<Longrightarrow> ascending [] ys \<Longrightarrow> ascending held (xs @ ys)"
  by (induction held xs rule: ascending.induct) auto

lemma sched_Some:
  assumes "sched i ts = Some us"
  obtains xs held steps ys t where "ts = xs @ (held, steps) # ys" "us = xs @ t # ys" "i = length xs"
    "thread_step (held_locks ts) (held, steps) = Some t"
proof -
  from assms obtain t where i: "i < length ts" "thread_step (held_locks ts) (ts ! i) = Some t" "us = ts[i := t]"
    by (auto simp: sched_def split: if_splits)
  obtain held steps where th: "ts ! i = (held, steps)" by (cases "ts ! i")
  show thesis
  proof (rule that)
    show "ts = take i ts @ (held, steps) # drop (Suc i) ts" using id_take_nth_drop [OF i(1)] th by simp
    show "us = take i ts @ t # drop (Suc i) ts" using i(1,3) by (simp add: upd_conv_take_nth_drop)
  qed (use i th in simp_all)
qed

lemma sched_disciplined:
  assumes "disciplined ts" "sched i ts = Some us"
  shows "disciplined us" "steps_left us < steps_left ts"
proof -
  from assms(2) obtain xs held steps ys t where s: "ts = xs @ (held, steps) # ys" "us = xs @ t # ys"
    "thread_step (held_locks ts) (held, steps) = Some t" by (rule sched_Some)
  from s(3) obtain a steps' where steps: "steps = a # steps'" by (cases steps) auto
  show "disciplined us"
    using assms(1) s(3) unfolding s(1,2) steps
    by (cases a) (auto simp: disciplined_def split: if_splits
        dest: notin_set_remove1 set_remove1_subset [THEN subsetD])
  show "steps_left us < steps_left ts"
    using s(3) unfolding s(1,2) steps by (cases a) (auto simp: steps_left_def split: if_splits)
qed

text \<open>Among the mutexes that are waited for take the greatest: its holder waits for a greater one.\<close>

lemma disciplined_progress:
  assumes "disciplined ts" "\<not> finished ts"
  shows "\<exists>i us. sched i ts = Some us"
proof (rule ccontr)
  assume none: "\<nexists>i us. sched i ts = Some us"
  have asc: "ascending held steps" if "(held, steps) \<in> set ts" for held steps
    using assms(1) that by (auto simp: disciplined_def list_all_iff)
  have waits: "\<exists>l steps'. steps = Acquire l # steps' \<and> l \<in> set (held_locks ts) \<and> (\<forall>h \<in> set held. h < l)"
    if t: "(held, steps) \<in> set ts" "steps \<noteq> []" for held steps
  proof -
    obtain i where i: "i < length ts" "ts ! i = (held, steps)" using t(1) by (meson in_set_conv_nth)
    have "thread_step (held_locks ts) (held, steps) = None" using none i unfolding sched_def by (metis (no_types, lifting) map_option_eq_Some option.exhaust)
    with asc [OF t(1)] t(2) show ?thesis
      by (cases steps; cases "hd steps") (auto simp: list_all_iff split: if_splits)
  qed
  define wanted where "wanted = {l. \<exists>held steps. (held, Acquire l # steps) \<in> set ts}"
  have "wanted \<subseteq> (\<lambda>t. case hd (snd t) of Acquire l \<Rightarrow> l | Release l \<Rightarrow> l) ` set ts"
    by (force simp: wanted_def)
  then have fin: "finite wanted" using finite_surj by blast
  obtain held steps where "(held, steps) \<in> set ts" "steps \<noteq> []"
    using assms(2) by (auto simp: finished_def list_all_iff)
  with waits have "wanted \<noteq> {}" by (fastforce simp: wanted_def)
  with fin have m: "Max wanted \<in> wanted" "\<forall>l \<in> wanted. l \<le> Max wanted" by simp_all
  then obtain held1 steps1 where "(held1, Acquire (Max wanted) # steps1) \<in> set ts" by (auto simp: wanted_def)
  with waits have "Max wanted \<in> set (held_locks ts)" by fastforce
  then obtain held2 steps2 where h2: "(held2, steps2) \<in> set ts" "Max wanted \<in> set held2"
    by (auto simp: held_locks_def)
  then have "steps2 \<noteq> []" using asc [OF h2(1)] by auto
  with waits [OF h2(1)] h2 obtain l where "l \<in> wanted" "Max wanted < l" by (fastforce simp: wanted_def)
  with m(2) show False by (metis leD)
qed

text \<open>
  What a set of calls promises: every trace ascends and releases what it acquires. Then threads
  that run any of these calls, in any number and order, reach no state in which they wait for
  each other, and every run can be completed.
\<close>

locale lock_order =
  fixes traces :: "'c \<Rightarrow> lock_step list list"
    and permitted :: "'c \<Rightarrow> bool"
  assumes traces_ascend: "permitted c \<Longrightarrow> t \<in> set (traces c) \<Longrightarrow> ascending [] t"
begin

definition runs_permitted :: "('c \<times> nat) list \<Rightarrow> bool" where
  "runs_permitted cs \<longleftrightarrow> list_all (\<lambda>(c, b). permitted c \<and> b < length (traces c)) cs"

lemma start_ascending:
  "runs_permitted cs \<Longrightarrow> ascending [] (snd (start_thread traces cs))"
proof (induction cs)
  case (Cons x cs)
  obtain c b where x: "x = (c, b)" by (cases x)
  with Cons.prems have "ascending [] (traces c ! b)" "runs_permitted cs"
    by (auto simp: runs_permitted_def intro: traces_ascend)
  with Cons.IH x show ?case by (simp add: start_thread_def ascending_append)
qed (simp add: start_thread_def)

lemma start_disciplined:
  assumes "list_all runs_permitted css"
  shows "disciplined (map (start_thread traces) css)"
proof -
  have "held_locks (map (start_thread traces) css) = []" by (simp add: start_thread_def held_locks_def)
  moreover have "list_all (\<lambda>(held, steps). ascending held steps) (map (start_thread traces) css)"
    using assms start_ascending by (fastforce simp: list_all_iff start_thread_def)
  ultimately show ?thesis by (simp add: disciplined_def)
qed

lemma run_disciplined: "lock_run ts us \<Longrightarrow> disciplined ts \<Longrightarrow> disciplined us"
  by (induction rule: lock_run.induct) (auto dest: sched_disciplined)

lemma disciplined_finishes: "disciplined ts \<Longrightarrow> \<exists>us. lock_run ts us \<and> finished us"
proof (induction "steps_left ts" arbitrary: ts rule: less_induct)
  case less
  show ?case
  proof (cases "finished ts")
    case False
    with less.prems disciplined_progress obtain i us where s: "sched i ts = Some us" by blast
    from less.hyps [OF sched_disciplined(2,1) [OF less.prems s]] obtain vs where
      "lock_run us vs" "finished vs" by blast
    moreover have "lock_run us vs \<Longrightarrow> lock_run ts vs"
      by (induction rule: lock_run.induct) (blast intro: lock_run.intros s)+
    ultimately show ?thesis by blast
  qed (blast intro: lock_run.unmoved)
qed

lemma no_deadlock:
  assumes "list_all runs_permitted css" "lock_run (map (start_thread traces) css) ts"
  shows "\<not> stuck ts \<and> (\<exists>us. lock_run ts us \<and> finished us)"
proof -
  have d: "disciplined ts" using run_disciplined [OF assms(2) start_disciplined [OF assms(1)]] .
  have "\<not> stuck ts"
  proof
    assume "stuck ts"
    then obtain i us where "sched i ts = Some us" "\<forall>i < length ts. sched i ts = None"
      using disciplined_progress [OF d] unfolding stuck_def by blast
    then show False by (auto simp: sched_def split: if_splits)
  qed
  with disciplined_finishes [OF d] show ?thesis by blast
qed

end

section \<open>The calls of the build queue\<close>

interpretation queue_locks: lock_order lock_traces "\<lambda>c. c \<noteq> CheckTimeoutsCall"
proof
  fix c t
  assume "c \<noteq> CheckTimeoutsCall" "t \<in> set (lock_traces c)"
  then show "ascending [] t" by (cases c) (auto simp: alone_def inside_def less_queue_lock_def)
qed

text \<open>
  C4: Threads that run any of the queue's calls except \<open>check_timeouts\<close>, in any number, order and
  interleaving, never wait for each other for ever: in no reachable state are all unfinished
  threads blocked, and from each all calls can be brought to their end.
\<close>

theorem queue_deadlock_free:
  assumes "list_all (list_all (\<lambda>(c, b). c \<noteq> CheckTimeoutsCall \<and> b < length (lock_traces c))) css"
    and "lock_run (map (start_thread lock_traces) css) ts"
  shows "\<not> stuck ts \<and> (\<exists>us. lock_run ts us \<and> finished us)"
proof -
  have "list_all queue_locks.runs_permitted css"
    using assms(1) by (simp add: queue_locks.runs_permitted_def [abs_def])
  then show ?thesis using assms(2) by (rule queue_locks.no_deadlock)
qed

definition two_threads :: "queue_call \<Rightarrow> queue_call \<Rightarrow> lock_thread list" where
  "two_threads c d = map (start_thread lock_traces) [[(c, length (lock_traces c) - 1)], [(d, length (lock_traces d) - 1)]]"

theorem queue_deadlock_free_witness:
  "\<exists>us. lock_run (map (start_thread lock_traces) [[(PullCall, 1), (PushCall, 0)], [(StatsCall, 0)]]) us \<and> finished us"
  using queue_deadlock_free [OF _ lock_run.unmoved, of "[[(PullCall, 1), (PushCall, 0)], [(StatsCall, 0)]]"] by simp

text \<open>
  \<open>check_timeouts\<close> takes the lease table before the pending list, every other call the pending
  list first: a pull and a check of the timeouts can block each other for ever.
\<close>

theorem check_timeouts_deadlock:
  "\<exists>ts. lock_run (two_threads PullCall CheckTimeoutsCall) ts \<and> stuck ts"
proof -
  let ?ts = "[([PendingLock], [Acquire LeasedLock, Release LeasedLock, Release PendingLock]),
    ([LeasedLock], [Acquire PendingLock, Release PendingLock, Release LeasedLock])]"
  have "sched 0 (two_threads PullCall CheckTimeoutsCall) =
      Some [([PendingLock], [Acquire LeasedLock, Release LeasedLock, Release PendingLock]),
        ([], [Acquire LeasedLock, Acquire PendingLock, Release PendingLock, Release LeasedLock])]"
    "sched 1 [([PendingLock], [Acquire LeasedLock, Release LeasedLock, Release PendingLock]),
        ([], [Acquire LeasedLock, Acquire PendingLock, Release PendingLock, Release LeasedLock])] = Some ?ts"
    by (simp_all add: two_threads_def start_thread_def alone_def inside_def sched_def)
  then have "lock_run (two_threads PullCall CheckTimeoutsCall) ?ts"
    by (blast intro: lock_run.intros)
  moreover have "stuck ?ts" by (auto simp: stuck_def finished_def sched_def less_Suc_eq)
  ultimately show ?thesis by blast
qed

end
