(* ===== verification/Queue_Concurrent.thy ===== *)
theory Queue_Concurrent
  imports Queue_Locks Builder_Requests Control
begin

text \<open>
  The build queue under concurrent tasks, one critical section at a time. Most calls are a single
  section. A push takes its id under one mutex and appends its job under others; the handler of
  \<open>Complete\<close> (\<open>builder.rs\<close>) and that of \<open>CancelBuild\<close> (\<open>control.rs\<close>) look a lease up in a copy
  of the lease table and act on it under a second lock. A call between its two sections is in
  flight, with what it found in the first; the sections of different calls interleave in any
  order. The theory shows that the interleavings still refine the job-status machine, that no job
  is lost and that every outcome is filed under the hash of its own job.
\<close>

section \<open>Critical sections\<close>

definition push_alloc :: "build_queue \<Rightarrow> job_id \<times> build_queue" where
  "push_alloc q = (bq_next_job_id q, q\<lparr>bq_next_job_id := bq_next_job_id q + 1\<rparr>)"

definition pushed_job :: "(byte list \<Rightarrow> hash32) \<Rightarrow> u64 \<Rightarrow> job_id \<Rightarrow> string \<Rightarrow> string list \<Rightarrow> string list \<Rightarrow>
    input_path list \<Rightarrow> build_job" where
  "pushed_job blake3 now jid drv_path features outputs inputs =
     \<lparr>bj_id = jid, bj_drv_hash = from_drv_path blake3 drv_path, bj_drv_path = drv_path,
      bj_system_features = features, bj_outputs = outputs, bj_input_paths = inputs, bj_submitted_at = now\<rparr>"

definition push_enqueue :: "build_job \<Rightarrow> build_queue \<Rightarrow> bool \<times> build_queue" where
  "push_enqueue job q =
     (let q1 = q\<lparr>bq_pending := bq_pending q @ [job]\<rparr>
      in if bq_pending q = [] \<or> bq_needed_features q1 = None
         then (True, q1\<lparr>bq_needed_features := Some (bj_system_features job)\<rparr>) else (False, q1))"

lemma push_sections:
  "push blake3 now p fs os ins q =
     (case push_alloc q of (jid, q1) \<Rightarrow>
        (case push_enqueue (pushed_job blake3 now jid p fs os ins) q1 of (announce, q2) \<Rightarrow> ((jid, announce), q2)))"
  by (simp add: push_def push_alloc_def push_enqueue_def pushed_job_def Let_def)

definition lease_lookup :: "job_id \<Rightarrow> build_queue \<Rightarrow> leased_job option" where
  "lease_lookup jid q = map_option snd (find (\<lambda>(k, _). k = jid) (list_leased q))"

definition complete_found :: "job_id \<Rightarrow> endpoint_id \<Rightarrow> build_output_proto list \<Rightarrow> hash32 \<Rightarrow> hash32 \<Rightarrow> leased_job \<Rightarrow>
    build_queue \<Rightarrow> build_queue_response \<times> build_queue" where
  "complete_found jid b outputs r s l q =
     (case complete jid b (complete_result jid b outputs r s l) q of
        (ok, q') \<Rightarrow> (if ok then CompleteAck else ResponseError ''failed to complete job'', q'))"

text \<open>The answer is "cancelled" whatever \<open>fail\<close> returns.\<close>

definition cancel_found :: "job_id \<Rightarrow> leased_job \<Rightarrow> build_queue \<Rightarrow> control_response \<times> build_queue" where
  "cancel_found jid l q =
     (BuildStatus (build_state.Failed ''cancelled''), snd (fail jid (lj_builder l) ''cancelled by build-hook'' q))"

lemma handlers_sections:
  "handle_build_queue_request t1 t2 b (Complete jid outputs r s) q =
     (case lease_lookup jid q of
        Some l \<Rightarrow> complete_found jid b outputs r s l q | None \<Rightarrow> (ResponseError ''job not found'', q))"
  "handle_control_request blake3 show_id now (CancelBuild jid) q =
     (case lease_lookup jid q of
        Some l \<Rightarrow> (case cancel_found jid l q of (resp, q') \<Rightarrow> (resp, q', []))
      | None \<Rightarrow> (ControlError (''job '' @ show_nat (unat jid) @ '' not found or not in progress''), q, []))"
  by (auto simp: lease_lookup_def complete_found_def cancel_found_def split: option.splits)

lemma lease_lookup_get: "lease_lookup jid q = hm_get jid (bq_leased q)"
  by (simp add: lease_lookup_def list_leased_def find_key option.map_comp comp_def option.map_ident)

section \<open>The concurrent queue\<close>

text \<open>
  \<open>qc_calls\<close> are the calls in flight, each under the number of its task. \<open>qc_jobs\<close> is no part of the
  program: it records every job that has been appended, for the statements.
\<close>

datatype queue_task =
  Pushing build_job
| Completing job_id endpoint_id "build_output_proto list" hash32 hash32 leased_job
| Cancelling job_id leased_job

record queue_conc =
  qc_queue :: build_queue
  qc_calls :: "(nat, queue_task) hmap"
  qc_jobs :: "job_id \<Rightarrow> build_job option"

definition conc_start :: "endpoint_id \<Rightarrow> queue_conc" where
  "conc_start me = \<lparr>qc_queue = new_queue me, qc_calls = [], qc_jobs = (\<lambda>_. None)\<rparr>"

datatype critical_section =
  PushAlloc nat u64 string "string list" "string list" "input_path list"
| CompleteLookup nat job_id endpoint_id "build_output_proto list" hash32 hash32
| CancelLookup nat job_id
| Continue nat
| Single queue_op

fun single_section :: "queue_op \<Rightarrow> bool" where
  "single_section (Op_push _ _ _ _ _) = False"
| "single_section (Op_complete _ _ _) = False"
| "single_section _ = True"

text \<open>
  One critical section, with the events it causes; None when it cannot be next. A task has at most
  one call in flight.
\<close>

fun continue_call :: "queue_task \<Rightarrow> queue_conc \<Rightarrow> queue_event list \<times> queue_conc" where
  "continue_call (Pushing job) s =
     ([Submit (bj_id job)], s\<lparr>qc_queue := snd (push_enqueue job (qc_queue s)), qc_jobs := (qc_jobs s)(bj_id job \<mapsto> job)\<rparr>)"
| "continue_call (Completing jid b outputs r s' l) s =
     (case complete_found jid b outputs r s' l (qc_queue s) of
        (resp, q') \<Rightarrow> (if resp = CompleteAck then [Finish jid b] else [], s\<lparr>qc_queue := q'\<rparr>))"
| "continue_call (Cancelling jid l) s =
     (if fst (fail jid (lj_builder l) ''cancelled by build-hook'' (qc_queue s)) then [Finish jid (lj_builder l)] else [],
      s\<lparr>qc_queue := snd (cancel_found jid l (qc_queue s))\<rparr>)"

definition start_call :: "nat \<Rightarrow> queue_task option \<Rightarrow> queue_conc \<Rightarrow> queue_conc" where
  "start_call n task s = (case task of None \<Rightarrow> s | Some t \<Rightarrow> s\<lparr>qc_calls := hm_insert n t (qc_calls s)\<rparr>)"

fun conc_step :: "(byte list \<Rightarrow> hash32) \<Rightarrow> critical_section \<Rightarrow> queue_conc \<Rightarrow> (queue_event list \<times> queue_conc) option" where
  "conc_step blake3 (PushAlloc n now p fs os ins) s =
     (if hm_get n (qc_calls s) \<noteq> None \<or> \<not> counter_room (qc_queue s) then None
      else case push_alloc (qc_queue s) of (jid, q') \<Rightarrow>
        Some ([], start_call n (Some (Pushing (pushed_job blake3 now jid p fs os ins))) (s\<lparr>qc_queue := q'\<rparr>)))"
| "conc_step blake3 (CompleteLookup n jid b outputs r s') s =
     (if hm_get n (qc_calls s) \<noteq> None then None
      else Some ([], start_call n (map_option (Completing jid b outputs r s') (lease_lookup jid (qc_queue s))) s))"
| "conc_step blake3 (CancelLookup n jid) s =
     (if hm_get n (qc_calls s) \<noteq> None then None
      else Some ([], start_call n (map_option (Cancelling jid) (lease_lookup jid (qc_queue s))) s))"
| "conc_step blake3 (Continue n) s =
     map_option (\<lambda>task. continue_call task (s\<lparr>qc_calls := hm_remove n (qc_calls s)\<rparr>)) (hm_get n (qc_calls s))"
| "conc_step blake3 (Single op) s =
     (if \<not> single_section op \<or> \<not> op_enabled op (qc_queue s) then None
      else case do_op blake3 op (qc_queue s) of (es, q') \<Rightarrow> Some (es, s\<lparr>qc_queue := q'\<rparr>))"

inductive conc_run :: "(byte list \<Rightarrow> hash32) \<Rightarrow> queue_conc \<Rightarrow> queue_event list \<Rightarrow> queue_conc \<Rightarrow> bool" for blake3 s where
  start: "conc_run blake3 s [] s"
| step: "conc_run blake3 s es s1 \<Longrightarrow> conc_step blake3 c s1 = Some (fs, s2) \<Longrightarrow> conc_run blake3 s (es @ fs) s2"

section \<open>Jobs and outcomes\<close>

text \<open>The jobs that are pending or leased.\<close>

definition live_jobs :: "build_queue \<Rightarrow> build_job set" where
  "live_jobs q = set (bq_pending q) \<union> (lj_job \<circ> snd) ` set (bq_leased q)"

text \<open>Every job that was appended is live, or its derivation has an outcome; live jobs do not change.\<close>

definition jobs_kept :: "(job_id \<Rightarrow> build_job option) \<Rightarrow> build_queue \<Rightarrow> bool" where
  "jobs_kept jobs q \<longleftrightarrow> (\<forall>j \<in> live_jobs q. jobs (bj_id j) = Some j) \<and>
     (\<forall>k j. jobs k = Some j \<longrightarrow> bj_id j = k \<and> 0 < k \<and> k < bq_next_job_id q \<and>
        (j \<in> live_jobs q \<or> get_outcome (bj_drv_hash j) q \<noteq> None))"

definition outcomes_filed :: "(job_id \<Rightarrow> build_job option) \<Rightarrow> build_queue \<Rightarrow> bool" where
  "outcomes_filed jobs q \<longleftrightarrow> (\<forall>h r. get_outcome h q = Some (job_outcome.Completed r) \<longrightarrow>
     br_drv_hash r = h \<and> (\<exists>j. jobs (br_job_id r) = Some j \<and> bj_drv_hash j = h))"

lemma jobs_keptD:
  "jobs_kept jobs q \<Longrightarrow> j \<in> live_jobs q \<Longrightarrow> jobs (bj_id j) = Some j"
  "jobs_kept jobs q \<Longrightarrow> jobs k = Some j \<Longrightarrow> bj_id j = k \<and> 0 < k \<and> k < bq_next_job_id q \<and>
     (j \<in> live_jobs q \<or> get_outcome (bj_drv_hash j) q \<noteq> None)"
  unfolding jobs_kept_def by blast+

lemma jobs_kept_step:
  assumes "jobs_kept jobs q" "live_jobs q' \<subseteq> live_jobs q" "bq_next_job_id q' = bq_next_job_id q"
    and "\<And>j. j \<in> live_jobs q \<Longrightarrow> j \<in> live_jobs q' \<or> get_outcome (bj_drv_hash j) q' \<noteq> None"
    and "\<And>h. get_outcome h q \<noteq> None \<Longrightarrow> get_outcome h q' \<noteq> None"
  shows "jobs_kept jobs q'"
  using assms unfolding jobs_kept_def by (metis subsetD)

lemma live_unlease:
  assumes "hm_wf (bq_leased q)" "hm_get k (bq_leased q) = Some l"
  shows "live_jobs (q\<lparr>bq_leased := hm_remove k (bq_leased q)\<rparr>) \<subseteq> live_jobs q"
    "j \<in> live_jobs q \<Longrightarrow> j \<in> live_jobs (q\<lparr>bq_leased := hm_remove k (bq_leased q)\<rparr>) \<or> j = lj_job l"
  using assms(2) unfolding hm_get_Some_iff [OF assms(1)]
  by (auto simp: live_jobs_def set_hm_remove image_iff)
    (metis assms(1) fst_conv hm_get_Some_iff option.inject snd_conv)

lemma live_jobs_fields [simp]:
  "live_jobs (q\<lparr>bq_completed := c\<rparr>) = live_jobs q"
  "live_jobs (q\<lparr>bq_pending_fetch := pf\<rparr>) = live_jobs q"
  "live_jobs (q\<lparr>bq_needed_features := nf\<rparr>) = live_jobs q"
  "live_jobs (q\<lparr>bq_next_job_id := n\<rparr>) = live_jobs q"
  "live_jobs (q\<lparr>bq_log_subscribers := subs\<rparr>) = live_jobs q"
  by (simp_all add: live_jobs_def)

lemma live_pull:
  assumes "queue_wf blake3 q"
  shows "live_jobs (snd (pull t1 t2 b fs q)) = live_jobs q"
proof (cases rule: pull_cases [of q fs t1 t2 b])
  case (some us j vs)
  have "bj_id j \<notin> fst ` set (bq_leased q)"
    using queue_wfD(4) [OF assms] some(1) by (auto simp: pending_ids_def leased_ids_def)
  with some show ?thesis by (auto simp: live_jobs_def hm_insert_def hm_remove_absent)
qed simp

lemma live_heartbeat: "live_jobs (snd (heartbeat now jid b st q)) = live_jobs q"
  by (force simp: heartbeat_def live_jobs_def set_hm_modify image_iff split: option.split)

lemma live_check_timeouts: "live_jobs (snd (check_timeouts now q)) = live_jobs q"
  by (force simp: check_timeouts_def retain_live_eq live_jobs_def)

text \<open>A call that ends a lease files an outcome under the hash of its job; a refused one changes no job.\<close>

lemma end_lease:
  assumes "queue_wf blake3 q" "jobs_kept jobs q" "hm_get k (bq_leased q) = Some l"
    and "q' = q\<lparr>bq_leased := hm_remove k (bq_leased q), bq_pending_fetch := pf,
      bq_completed := hm_insert (bj_drv_hash (lj_job l)) v (bq_completed q)\<rparr>"
  shows "jobs_kept jobs q'"
proof (rule jobs_kept_step [OF assms(2)])
  note live = live_unlease [OF queue_wfD(3) [OF assms(1)] assms(3)]
  have eq: "live_jobs q' = live_jobs (q\<lparr>bq_leased := hm_remove k (bq_leased q)\<rparr>)"
    by (simp add: assms(4) live_jobs_def)
  show "live_jobs q' \<subseteq> live_jobs q" unfolding eq by (rule live(1))
  show "j \<in> live_jobs q' \<or> get_outcome (bj_drv_hash j) q' \<noteq> None" if "j \<in> live_jobs q" for j
    using live(2) [OF that] unfolding eq by (auto simp: get_outcome_def assms(4))
qed (simp_all add: get_outcome_def assms(4))

lemma kept_reinsert:
  assumes "queue_wf blake3 q" "hm_get k (bq_leased q) = Some l"
  shows "live_jobs (q\<lparr>bq_leased := hm_insert k l (hm_remove k (bq_leased q))\<rparr>) = live_jobs q"
  using reinsert_leased(2) [OF assms] by (simp add: live_jobs_def)

lemma kept_same_live:
  "jobs_kept jobs q \<Longrightarrow> live_jobs q' = live_jobs q \<Longrightarrow> bq_next_job_id q' = bq_next_job_id q \<Longrightarrow>
     (\<And>h. get_outcome h q' = get_outcome h q) \<Longrightarrow> jobs_kept jobs q'"
  by (rule jobs_kept_step) simp_all

lemma complete_kept:
  assumes "queue_wf blake3 q" "jobs_kept jobs q"
  shows "jobs_kept jobs (snd (complete jid b r q))"
proof (cases "hm_get jid (bq_leased q)")
  case (Some l)
  show ?thesis
  proof (cases "lj_builder l = b")
    case True
    with Some end_lease [OF assms Some refl, where pf = "bq_pending_fetch q @ [r]" and v = "job_outcome.Completed r"]
    show ?thesis by (simp add: complete_def Let_def)
  next
    case False
    with Some kept_same_live [OF assms(2) kept_reinsert [OF assms(1) Some]] show ?thesis
      by (simp add: complete_def Let_def get_outcome_def)
  qed
qed (simp add: complete_def assms(2))

lemma fail_kept:
  assumes "queue_wf blake3 q" "jobs_kept jobs q"
  shows "jobs_kept jobs (snd (fail jid b e q))"
proof (cases "hm_get jid (bq_leased q)")
  case (Some l)
  show ?thesis
  proof (cases "lj_builder l = b")
    case True
    with Some end_lease [OF assms Some refl, where pf = "bq_pending_fetch q" and v = "job_outcome.Failed b e"]
    show ?thesis by (simp add: fail_def Let_def)
  next
    case False
    with Some kept_same_live [OF assms(2) kept_reinsert [OF assms(1) Some]] show ?thesis
      by (simp add: fail_def Let_def get_outcome_def)
  qed
qed (simp add: fail_def assms(2))

lemma fail_filed: "outcomes_filed jobs q \<Longrightarrow> outcomes_filed jobs (snd (fail jid b e q))"
  by (auto simp: outcomes_filed_def get_outcome_def fail_def Let_def split: option.splits)

text \<open>The lookup may be stale: what counts is that it was of the job with this id.\<close>

lemma complete_filed:
  assumes "queue_wf blake3 q" "jobs_kept jobs q" "outcomes_filed jobs q"
    and "br_job_id r = jid" "jobs jid = Some j" "br_drv_hash r = bj_drv_hash j"
  shows "outcomes_filed jobs (snd (complete jid b r q))"
proof (cases "hm_get jid (bq_leased q)")
  case (Some l)
  then have in_m: "(jid, l) \<in> set (bq_leased q)" by (rule hm_get_SomeD)
  then have "lj_job l \<in> live_jobs q" by (force simp: live_jobs_def)
  from jobs_keptD(1) [OF assms(2) this] have "lj_job l = j"
    using queue_wfD(6) [OF assms(1) in_m] assms(5) by simp
  then have filed: "outcomes_filed jobs (q\<lparr>bq_leased := m, bq_pending_fetch := pf,
      bq_completed := hm_insert (bj_drv_hash (lj_job l)) (job_outcome.Completed r) (bq_completed q)\<rparr>)" for m pf
    using assms(3-6) by (simp add: outcomes_filed_def get_outcome_def)
  have "outcomes_filed jobs (q\<lparr>bq_leased := m\<rparr>)" for m
    using assms(3) by (simp add: outcomes_filed_def get_outcome_def)
  with filed Some show ?thesis by (simp add: complete_def Let_def)
qed (simp add: complete_def assms(3))

lemma single_keeps:
  assumes "queue_wf blake3 q" "jobs_kept jobs q" "outcomes_filed jobs q"
    and "single_section op" "op_enabled op q" "do_op blake3 op q = (es, q')"
  shows "jobs_kept jobs q' \<and> outcomes_filed jobs q'"
proof -
  have same: ?thesis if "live_jobs q' = live_jobs q" "bq_next_job_id q' = bq_next_job_id q"
      "\<And>h. get_outcome h q' = get_outcome h q"
    using kept_same_live [OF assms(2) that] assms(3) that(3) by (simp add: outcomes_filed_def)
  show ?thesis
  proof (cases op)
    case (Op_pull t1 t2 b fs)
    then have q': "q' = snd (pull t1 t2 b fs q)" using assms(6) by (auto split: prod.splits option.splits)
    show ?thesis
      by (rule same) (simp_all add: q' live_pull [OF assms(1)] get_outcome_def frame_simps,
        simp add: pull_def Let_def split: option.split)
  next
    case (Op_heartbeat now jid b st)
    with assms(6) show ?thesis
      by (intro same) (auto simp: live_heartbeat get_outcome_def frame_simps,
        simp add: heartbeat_def split: option.split)
  next
    case (Op_fail jid b e)
    with assms(6) have "q' = snd (fail jid b e q)" by (auto split: prod.splits)
    with fail_kept [OF assms(1,2)] fail_filed [OF assms(3)] show ?thesis by simp
  next
    case (Op_check_timeouts now)
    with assms(6) have q': "q' = snd (check_timeouts now q)" by (auto split: prod.splits)
    show ?thesis
      by (rule same) (simp_all add: q' live_check_timeouts, simp_all add: check_timeouts_def get_outcome_def split: prod.split)
  next
    case (Relayout m c subs)
    with assms(5,6) have q': "q' = q\<lparr>bq_leased := m, bq_completed := c, bq_log_subscribers := subs\<rparr>"
      and perm: "set m = set (bq_leased q)" "mset c = mset (bq_completed q)" by (auto dest: mset_eq_setD)
    have "hm_wf (bq_completed q)" using assms(1) by (simp add: queue_wf_def)
    then have "hm_get h c = hm_get h (bq_completed q)" for h using hm_get_perm perm(2) by metis
    then show ?thesis by (intro same) (simp_all add: q' live_jobs_def perm(1) get_outcome_def)
  qed (rule same; use assms(4,6) in \<open>auto simp: clear_needed_features_def take_pending_fetches_def subscribe_logs_def
      broadcast_log_def cleanup_log_subscribers_def Let_def get_outcome_def\<close>)+
qed

section \<open>The invariant\<close>

definition pushing_ids :: "(nat, queue_task) hmap \<Rightarrow> job_id list" where
  "pushing_ids calls = List.map_filter (\<lambda>(n, t). case t of Pushing j \<Rightarrow> Some (bj_id j) | _ \<Rightarrow> None) calls"

fun task_ok :: "(byte list \<Rightarrow> hash32) \<Rightarrow> queue_conc \<Rightarrow> queue_task \<Rightarrow> bool" where
  "task_ok blake3 s (Pushing j) = (job_ok blake3 (bq_next_job_id (qc_queue s)) j \<and> qc_jobs s (bj_id j) = None)"
| "task_ok blake3 s (Completing jid b outputs r s' l) = (qc_jobs s jid = Some (lj_job l))"
| "task_ok blake3 s (Cancelling jid l) = (qc_jobs s jid = Some (lj_job l))"

definition conc_ok :: "(byte list \<Rightarrow> hash32) \<Rightarrow> queue_conc \<Rightarrow> bool" where
  "conc_ok blake3 s \<longleftrightarrow> queue_wf blake3 (qc_queue s) \<and> jobs_kept (qc_jobs s) (qc_queue s) \<and>
     outcomes_filed (qc_jobs s) (qc_queue s) \<and> distinct (pushing_ids (qc_calls s)) \<and>
     (\<forall>(n, t) \<in> set (qc_calls s). task_ok blake3 s t)"

text \<open>The status of a job for the outside: a job is born when it is appended.\<close>

definition conc_status :: "queue_conc \<Rightarrow> job_id \<Rightarrow> job_status" where
  "conc_status s j = (if qc_jobs s j = None then Unborn else status_of (qc_queue s) j)"

lemma pushing_ids_Cons:
  "pushing_ids ((n, t) # calls) = (case t of Pushing j \<Rightarrow> [bj_id j] | _ \<Rightarrow> []) @ pushing_ids calls"
  by (simp add: pushing_ids_def List.map_filter_simps split: queue_task.split)

lemma set_pushing_ids: "i \<in> set (pushing_ids calls) \<longleftrightarrow> (\<exists>n j. (n, Pushing j) \<in> set calls \<and> bj_id j = i)"
proof (induction calls)
  case (Cons c calls)
  then show ?case by (cases c; cases "snd c") (auto simp: pushing_ids_Cons)
qed (simp add: pushing_ids_def List.map_filter_simps)

lemma pushing_ids_remove: "distinct (pushing_ids calls) \<Longrightarrow> distinct (pushing_ids (hm_remove n calls))"
proof (induction calls)
  case (Cons c calls)
  have "set (pushing_ids (hm_remove n calls)) \<subseteq> set (pushing_ids calls)"
    unfolding subset_iff set_pushing_ids set_hm_remove by blast
  with Cons show ?case
    by (cases c) (auto simp: hm_remove_def pushing_ids_Cons split: queue_task.splits)
qed (simp add: hm_remove_def)

lemma pushing_ids_own:
  "distinct (pushing_ids calls) \<Longrightarrow> (n, Pushing j) \<in> set calls \<Longrightarrow> bj_id j \<notin> set (pushing_ids (hm_remove n calls))"
proof (induction calls)
  case (Cons c calls)
  have sub: "set (pushing_ids (hm_remove n calls)) \<subseteq> set (pushing_ids calls)"
    unfolding subset_iff set_pushing_ids set_hm_remove by blast
  show ?case
  proof (cases "c = (n, Pushing j)")
    case True
    with Cons.prems sub show ?thesis by (auto simp: hm_remove_def pushing_ids_Cons)
  next
    case False
    with Cons.prems have "bj_id j \<in> set (pushing_ids calls)" by (auto simp: set_pushing_ids)
    with Cons False show ?thesis
      by (cases c) (auto simp: hm_remove_def pushing_ids_Cons split: queue_task.splits)
  qed
qed simp

text \<open>A job that was not appended is neither pending nor leased.\<close>

lemma unborn_status:
  assumes "queue_wf blake3 q" "jobs_kept jobs q" "jobs k = None"
  shows "status_of q k \<in> {Done, Unborn}" "k \<notin> pending_ids q" "k \<notin> leased_ids q"
proof -
  show p: "k \<notin> pending_ids q"
    using jobs_keptD(1) [OF assms(2)] assms(3) by (fastforce simp: pending_ids_def live_jobs_def)
  show l: "k \<notin> leased_ids q"
  proof
    assume "k \<in> leased_ids q"
    then obtain l where in_m: "(k, l) \<in> set (bq_leased q)" by (auto simp: leased_ids_def)
    then have "lj_job l \<in> live_jobs q" by (force simp: live_jobs_def)
    from jobs_keptD(1) [OF assms(2) this] queue_wfD(6) [OF assms(1) in_m] assms(3) show False by simp
  qed
  from p l show "status_of q k \<in> {Done, Unborn}"
    by (auto simp: status_of_def pending_ids_def leased_ids_def hm_get_None_iff [THEN iffD2])
qed

lemma lookup_job:
  assumes "queue_wf blake3 q" "jobs_kept jobs q" "lease_lookup k q = Some l"
  shows "jobs k = Some (lj_job l)"
proof -
  have in_m: "(k, l) \<in> set (bq_leased q)" using assms(3) by (simp add: lease_lookup_get hm_get_SomeD)
  then have "lj_job l \<in> live_jobs q" by (force simp: live_jobs_def)
  from jobs_keptD(1) [OF assms(2) this] queue_wfD(6) [OF assms(1) in_m] show ?thesis by simp
qed

text \<open>Events of appended jobs only are events of the outside view as well.\<close>

lemma spec_run_masked:
  assumes "spec_run es s = Some s'" "\<forall>j. masked j \<longrightarrow> s j \<in> {Done, Unborn}" "\<forall>j. Submit j \<notin> set es"
  shows "spec_run es (\<lambda>j. if masked j then Unborn else s j) = Some (\<lambda>j. if masked j then Unborn else s' j)"
  using assms
proof (induction es arbitrary: s)
  case (Cons e es)
  from Cons.prems(1) obtain s1 where s1: "spec_event e s = Some s1" "spec_run es s1 = Some s'"
    by (auto simp: bind_eq_Some_conv)
  have "\<not> masked (event_job e) \<and> (\<exists>st. s1 = s(event_job e := st) \<and>
      spec_event e (\<lambda>j. if masked j then Unborn else s j) = Some ((\<lambda>j. if masked j then Unborn else s j)(event_job e := st)))"
    using s1(1) Cons.prems(2,3)
    by (cases e; force simp: event_job_def split: if_splits job_status.splits)
  then obtain st where st: "\<not> masked (event_job e)" "s1 = s(event_job e := st)"
    "spec_event e (\<lambda>j. if masked j then Unborn else s j) = Some ((\<lambda>j. if masked j then Unborn else s j)(event_job e := st))"
    by blast
  then have "spec_event e (\<lambda>j. if masked j then Unborn else s j) = Some (\<lambda>j. if masked j then Unborn else s1 j)"
    by (auto simp: fun_eq_iff)
  moreover have "\<forall>j. masked j \<longrightarrow> s1 j \<in> {Done, Unborn}" using Cons.prems(2) st(1,2) by auto
  ultimately show ?case using Cons.IH [OF s1(2)] Cons.prems(3) by simp
qed simp

lemma single_no_submit: "single_section op \<Longrightarrow> do_op blake3 op q = (es, q') \<Longrightarrow> Submit j \<notin> set es"
  by (cases op) (auto split: prod.splits option.splits if_splits)

lemma next_id_wf:
  assumes "queue_wf blake3 q" "counter_room q"
  shows "queue_wf blake3 (q\<lparr>bq_next_job_id := bq_next_job_id q + 1\<rparr>)"
proof -
  let ?n = "bq_next_job_id q"
  have room: "?n \<noteq> - 1" using assms(2) by (simp add: counter_room_def)
  have mono: "job_ok blake3 (?n + 1) j" if "job_ok blake3 ?n j" for j
    using that room by (simp add: job_ok_def word_less_Suc)
  have "0 < ?n + 1" using room queue_wfD(1) [OF assms(1)] by (simp add: word_less_Suc)
  with assms(1) mono show ?thesis by (auto simp: queue_wf_def pending_ids_def leased_ids_def)
qed

lemma task_ok_cong:
  assumes "task_ok blake3 s t" "bq_next_job_id (qc_queue s') = bq_next_job_id (qc_queue s)" "qc_jobs s' = qc_jobs s"
  shows "task_ok blake3 s' t"
  using assms by (cases t) simp_all

lemma conc_okI:
  assumes "queue_wf blake3 (qc_queue s)" "jobs_kept (qc_jobs s) (qc_queue s)" "outcomes_filed (qc_jobs s) (qc_queue s)"
    and "distinct (pushing_ids (qc_calls s))" "\<And>n t. (n, t) \<in> set (qc_calls s) \<Longrightarrow> task_ok blake3 s t"
  shows "conc_ok blake3 s"
  using assms by (auto simp: conc_ok_def)

lemma conc_okD:
  assumes "conc_ok blake3 s"
  shows "queue_wf blake3 (qc_queue s)" "jobs_kept (qc_jobs s) (qc_queue s)" "outcomes_filed (qc_jobs s) (qc_queue s)"
    "distinct (pushing_ids (qc_calls s))" "(n, t) \<in> set (qc_calls s) \<Longrightarrow> task_ok blake3 s t"
  using assms by (auto simp: conc_ok_def)

text \<open>A new call: a lookup finds the job with its id; an allocated id is new.\<close>

lemma start_lookup:
  assumes "conc_ok blake3 s" "lease_lookup jid (qc_queue s) = Some l" "hm_get n (qc_calls s) = None"
    and "t = Completing jid b os r s' l \<or> t = Cancelling jid l"
  shows "conc_ok blake3 (start_call n (Some t) s)"
proof (rule conc_okI)
  note ok = conc_okD [OF assms(1)]
  have calls: "qc_calls (start_call n (Some t) s) = (n, t) # qc_calls s"
    using assms(3) by (simp add: start_call_def hm_insert_def hm_remove_absent hm_get_None_iff)
  show "distinct (pushing_ids (qc_calls (start_call n (Some t) s)))"
    using ok(4) assms(4) by (auto simp: calls pushing_ids_Cons)
  show "task_ok blake3 (start_call n (Some t) s) u" if "(m, u) \<in> set (qc_calls (start_call n (Some t) s))" for m u
  proof -
    have "task_ok blake3 s u"
      using that ok(5) lookup_job [OF ok(1,2) assms(2)] assms(4) by (auto simp: calls)
    then show ?thesis by (rule task_ok_cong) (simp_all add: start_call_def)
  qed
qed (use conc_okD [OF assms(1)] in \<open>simp_all add: start_call_def\<close>)

lemma start_push:
  assumes "conc_ok blake3 s" "hm_get n (qc_calls s) = None" "counter_room (qc_queue s)"
    and "push_alloc (qc_queue s) = (jid, q')"
    and s'_def: "s' = start_call n (Some (Pushing (pushed_job blake3 now jid p fs os ins))) (s\<lparr>qc_queue := q'\<rparr>)"
  shows "conc_ok blake3 s' \<and> conc_status s' = conc_status s"
proof -
  note ok = conc_okD [OF assms(1)]
  let ?q = "qc_queue s" let ?n = "bq_next_job_id ?q"
  have q': "q' = ?q\<lparr>bq_next_job_id := ?n + 1\<rparr>" and jid: "jid = ?n"
    using assms(4) by (auto simp: push_alloc_def)
  have calls: "qc_calls s' = (n, Pushing (pushed_job blake3 now jid p fs os ins)) # qc_calls s"
    using assms(2) by (simp add: s'_def start_call_def hm_insert_def hm_remove_absent hm_get_None_iff)
  have other: "qc_queue s' = q'" "qc_jobs s' = qc_jobs s" by (simp_all add: s'_def start_call_def)
  have less: "k < ?n + 1" if "k < ?n" for k
    using that assms(3) by (simp add: counter_room_def word_less_Suc)
  have new: "qc_jobs s jid = None" using jobs_keptD(2) [OF ok(2), of jid] jid by (cases "qc_jobs s jid") auto
  have old: "task_ok blake3 s' u" if "task_ok blake3 s u" for u
    using that less by (cases u) (simp_all add: other q' job_ok_def)
  have n: "job_ok blake3 (?n + 1) (pushed_job blake3 now jid p fs os ins)"
    using queue_wfD(1) [OF ok(1)] assms(3) by (simp add: jid pushed_job_def job_ok_def counter_room_def word_less_Suc)
  have "conc_ok blake3 s'"
  proof (rule conc_okI)
    show "queue_wf blake3 (qc_queue s')" using next_id_wf [OF ok(1) assms(3)] by (simp add: other q')
    show "jobs_kept (qc_jobs s') (qc_queue s')"
      using ok(2) less unfolding jobs_kept_def other q' by (simp add: get_outcome_def)
    show "outcomes_filed (qc_jobs s') (qc_queue s')"
      using ok(3) by (simp add: outcomes_filed_def other q' get_outcome_def)
    have "bj_id j < ?n" if "(m, Pushing j) \<in> set (qc_calls s)" for m j
      using ok(5) [OF that] by (simp add: job_ok_def)
    then show "distinct (pushing_ids (qc_calls s'))"
      using ok(4) jid by (fastforce simp: calls pushing_ids_Cons set_pushing_ids pushed_job_def)
    show "task_ok blake3 s' u" if "(m, u) \<in> set (qc_calls s')" for m u
    proof (cases "(m, u) \<in> set (qc_calls s)")
      case False
      with that have u: "u = Pushing (pushed_job blake3 now jid p fs os ins)" by (simp add: calls)
      show ?thesis using n new by (simp add: u other q') (simp add: pushed_job_def)
    qed (use ok(5) old in blast)
  qed
  moreover have "conc_status s' j = conc_status s j" for j
    using jobs_keptD(2) [OF ok(2), of j] less by (auto simp: conc_status_def other q' status_of_def split: option.split)
  ultimately show ?thesis by blast
qed

text \<open>The second section of a push: the job is born, queued, and new to the queue.\<close>

lemma enqueue_ok:
  assumes "queue_wf blake3 q" "jobs_kept jobs q" "outcomes_filed jobs q"
    and "job_ok blake3 (bq_next_job_id q) j" "jobs (bj_id j) = None" "push_enqueue j q = (announce, q')"
  shows "queue_wf blake3 q' \<and> jobs_kept (jobs(bj_id j \<mapsto> j)) q' \<and> outcomes_filed (jobs(bj_id j \<mapsto> j)) q' \<and>
    bq_next_job_id q' = bq_next_job_id q \<and> status_of q' = (status_of q)(bj_id j := Queued)"
proof -
  obtain nf where q': "q' = q\<lparr>bq_pending := bq_pending q @ [j], bq_needed_features := nf\<rparr>"
    using assms(6) by (cases q) (auto simp: push_enqueue_def Let_def split: if_splits)
  note fresh = unborn_status(2,3) [OF assms(1,2,5)]
  have "queue_wf blake3 q'"
    using assms(1,4) fresh by (auto simp: q' queue_wf_def pending_ids_def leased_ids_def)
  moreover have fields: "live_jobs q' = insert j (live_jobs q)" "bq_next_job_id q' = bq_next_job_id q"
    "get_outcome h q' = get_outcome h q" for h by (auto simp: q' live_jobs_def get_outcome_def)
  have "jobs_kept (jobs(bj_id j \<mapsto> j)) q'"
    unfolding jobs_kept_def
  proof (intro conjI ballI allI impI)
    fix i
    assume "i \<in> live_jobs q'"
    then show "(jobs(bj_id j \<mapsto> j)) (bj_id i) = Some i"
      using jobs_keptD(1) [OF assms(2), of i] assms(5) fields(1) by auto
  next
    fix k i
    assume k: "(jobs(bj_id j \<mapsto> j)) k = Some i"
    show "bj_id i = k" "0 < k" "k < bq_next_job_id q'" "i \<in> live_jobs q' \<or> get_outcome (bj_drv_hash i) q' \<noteq> None"
      using k jobs_keptD(2) [OF assms(2), of k i] assms(4)
      by (auto simp: fields job_ok_def split: if_splits)
  qed
  moreover have "outcomes_filed (jobs(bj_id j \<mapsto> j)) q'"
    using assms(3,5) by (force simp: outcomes_filed_def q' get_outcome_def)
  moreover have "status_of q' = (status_of q)(bj_id j := Queued)"
    by (rule ext) (auto simp: status_of_def q')
  ultimately show ?thesis by (simp add: q')
qed

text \<open>What a step of the queue gives for the whole state when the calls in flight stay.\<close>

lemma conc_ok_queue:
  assumes "conc_ok blake3 s" "queue_wf blake3 q'" "jobs_kept (qc_jobs s) q'" "outcomes_filed (qc_jobs s) q'"
    and "bq_next_job_id q' = bq_next_job_id (qc_queue s)"
  shows "conc_ok blake3 (s\<lparr>qc_queue := q'\<rparr>)"
proof (rule conc_okI)
  show "task_ok blake3 (s\<lparr>qc_queue := q'\<rparr>) t" if "(n, t) \<in> set (qc_calls (s\<lparr>qc_queue := q'\<rparr>))" for n t
  proof (rule task_ok_cong)
    show "task_ok blake3 s t" using conc_okD(5) [OF assms(1)] that by simp
  qed (simp_all add: assms(5))
qed (use assms conc_okD(4) [OF assms(1)] in simp_all)

lemma conc_ok_done:
  assumes "conc_ok blake3 s"
  shows "conc_ok blake3 (s\<lparr>qc_calls := hm_remove n (qc_calls s)\<rparr>)"
proof (rule conc_okI)
  show "task_ok blake3 (s\<lparr>qc_calls := hm_remove n (qc_calls s)\<rparr>) t"
    if "(m, t) \<in> set (qc_calls (s\<lparr>qc_calls := hm_remove n (qc_calls s)\<rparr>))" for m t
    using conc_okD(5) [OF assms, of m t] that by (auto simp: set_hm_remove intro: task_ok_cong)
qed (use conc_okD [OF assms] pushing_ids_remove in simp_all)

lemma ids_kept:
  "bq_next_job_id (snd (complete jid b r q)) = bq_next_job_id q"
  "bq_next_job_id (snd (fail jid b e q)) = bq_next_job_id q"
  by (simp_all add: complete_def fail_def Let_def split: option.split)

lemma finish_status:
  assumes "qc_jobs s jid = Some j" "status_of q' = (if ok then (status_of (qc_queue s))(jid := Done) else status_of (qc_queue s))"
    and "ok \<longleftrightarrow> status_of (qc_queue s) jid = Leased b"
  shows "spec_run (if ok then [Finish jid b] else []) (conc_status s) = Some (conc_status (s\<lparr>qc_queue := q'\<rparr>))"
  using assms by (auto simp: conc_status_def fun_eq_iff)

lemma continue_ok:
  assumes "conc_ok blake3 s" "task_ok blake3 s task" "continue_call task s = (es, s')"
    and "case task of Pushing j \<Rightarrow> bj_id j \<notin> set (pushing_ids (qc_calls s)) | _ \<Rightarrow> True"
  shows "conc_ok blake3 s' \<and> spec_run es (conc_status s) = Some (conc_status s')"
proof (cases task)
  case (Pushing j)
  note ok = conc_okD [OF assms(1)]
  obtain ann q' where q': "push_enqueue j (qc_queue s) = (ann, q')" by fastforce
  with Pushing assms(3) have s': "s' = s\<lparr>qc_queue := q', qc_jobs := (qc_jobs s)(bj_id j \<mapsto> j)\<rparr>" "es = [Submit (bj_id j)]"
    by simp_all
  have t: "job_ok blake3 (bq_next_job_id (qc_queue s)) j" "qc_jobs s (bj_id j) = None"
    using assms(2) Pushing by simp_all
  note e = enqueue_ok [OF ok(1-3) t q']
  have "conc_ok blake3 s'"
  proof (rule conc_okI)
    show "task_ok blake3 s' u" if "(m, u) \<in> set (qc_calls s')" for m u
    proof -
      have "(m, u) \<in> set (qc_calls s)" using that s' by simp
      moreover from this have "case u of Pushing i \<Rightarrow> bj_id i \<noteq> bj_id j | _ \<Rightarrow> True"
        using assms(4) Pushing by (cases u) (auto simp: set_pushing_ids)
      ultimately show ?thesis using ok(5) [of m u] e t(2) s' by (cases u) auto
    qed
  qed (use e ok(4) s' in simp_all)
  moreover have "conc_status s' = (conc_status s)(bj_id j := Queued)" "conc_status s (bj_id j) = Unborn"
    using e t(2) by (auto simp: conc_status_def s' fun_eq_iff)
  ultimately show ?thesis using s'(2) by simp
next
  case (Completing jid b outputs r s'' l)
  note ok = conc_okD [OF assms(1)]
  have job: "qc_jobs s jid = Some (lj_job l)" using assms(2) Completing by simp
  let ?res = "complete_result jid b outputs r s'' l" let ?q' = "snd (complete jid b ?res (qc_queue s))"
  note c = complete_eqs [OF ok(1), of jid b ?res]
  have s': "s' = s\<lparr>qc_queue := ?q'\<rparr>" "es = (if fst (complete jid b ?res (qc_queue s)) then [Finish jid b] else [])"
    using assms(3) Completing by (auto simp: complete_found_def split: prod.splits)
  have "outcomes_filed (qc_jobs s) ?q'"
    using complete_filed [OF ok(1-3) _ job] by (simp add: complete_result_def)
  with c complete_kept [OF ok(1,2)] have "conc_ok blake3 s'"
    unfolding s'(1) by (intro conc_ok_queue [OF assms(1)]) (simp_all add: ids_kept)
  with finish_status [OF job c(3,1)] s' show ?thesis by simp
next
  case (Cancelling jid l)
  note ok = conc_okD [OF assms(1)]
  have job: "qc_jobs s jid = Some (lj_job l)" using assms(2) Cancelling by simp
  let ?b = "lj_builder l" let ?e = "''cancelled by build-hook''" let ?q' = "snd (fail jid ?b ?e (qc_queue s))"
  note c = fail_eqs [OF ok(1), of jid ?b ?e]
  have s': "s' = s\<lparr>qc_queue := ?q'\<rparr>" "es = (if fst (fail jid ?b ?e (qc_queue s)) then [Finish jid ?b] else [])"
    using assms(3) Cancelling by (auto simp: cancel_found_def split: prod.splits)
  with c fail_kept [OF ok(1,2)] fail_filed [OF ok(3)] have "conc_ok blake3 s'"
    unfolding s'(1) by (intro conc_ok_queue [OF assms(1)]) (simp_all add: ids_kept)
  with finish_status [OF job c(3,1)] s' show ?thesis by simp
qed

lemma single_ids: "single_section op \<Longrightarrow> do_op blake3 op q = (es, q') \<Longrightarrow> bq_next_job_id q' = bq_next_job_id q"
  by (cases op) (auto simp: pull_def heartbeat_def fail_def check_timeouts_def clear_needed_features_def
      take_pending_fetches_def subscribe_logs_def broadcast_log_def cleanup_log_subscribers_def Let_def
      split: prod.splits option.splits if_splits)

lemma single_ok:
  assumes "conc_ok blake3 s" "single_section op" "op_enabled op (qc_queue s)" "do_op blake3 op (qc_queue s) = (es, q')"
  shows "conc_ok blake3 (s\<lparr>qc_queue := q'\<rparr>) \<and> spec_run es (conc_status s) = Some (conc_status (s\<lparr>qc_queue := q'\<rparr>))"
proof -
  note ok = conc_okD [OF assms(1)]
  note d = do_op_refines [OF ok(1) assms(3,4)]
  have "conc_ok blake3 (s\<lparr>qc_queue := q'\<rparr>)"
    using d single_keeps [OF ok(1-3) assms(2-4)] single_ids [OF assms(2,4)]
    by (intro conc_ok_queue [OF assms(1)]) simp_all
  moreover have "spec_run es (\<lambda>j. if qc_jobs s j = None then Unborn else status_of (qc_queue s) j) =
      Some (\<lambda>j. if qc_jobs s j = None then Unborn else status_of q' j)"
    using d unborn_status(1) [OF ok(1,2)] single_no_submit [OF assms(2,4)]
    by (intro spec_run_masked) auto
  moreover have "conc_status s = (\<lambda>j. if qc_jobs s j = None then Unborn else status_of (qc_queue s) j)"
    "conc_status (s\<lparr>qc_queue := q'\<rparr>) = (\<lambda>j. if qc_jobs s j = None then Unborn else status_of q' j)"
    by (auto simp: conc_status_def fun_eq_iff)
  ultimately show ?thesis by simp
qed

lemma conc_step_ok:
  assumes "conc_ok blake3 s" "conc_step blake3 c s = Some (es, s')"
  shows "conc_ok blake3 s' \<and> spec_run es (conc_status s) = Some (conc_status s')"
proof (cases c)
  case (PushAlloc n now p fs os ins)
  with assms(2) start_push [OF assms(1)] show ?thesis by (auto split: if_splits prod.splits)
next
  case (CompleteLookup n jid b os r sg)
  with assms(2) start_lookup [OF assms(1), of jid _ n] assms(1) show ?thesis
    by (cases "lease_lookup jid (qc_queue s)") (auto simp: start_call_def conc_status_def split: if_splits)
next
  case (CancelLookup n jid)
  with assms(2) start_lookup [OF assms(1), of jid _ n] assms(1) show ?thesis
    by (cases "lease_lookup jid (qc_queue s)") (auto simp: start_call_def conc_status_def split: if_splits)
next
  case (Continue n)
  let ?s = "s\<lparr>qc_calls := hm_remove n (qc_calls s)\<rparr>"
  from Continue assms(2) obtain task where t: "hm_get n (qc_calls s) = Some task" "continue_call task ?s = (es, s')"
    by auto
  then have in_calls: "(n, task) \<in> set (qc_calls s)" by (simp add: hm_get_SomeD)
  from conc_okD(5) [OF assms(1) this] have "task_ok blake3 ?s task" by (rule task_ok_cong) simp_all
  moreover have "case task of Pushing j \<Rightarrow> bj_id j \<notin> set (pushing_ids (qc_calls ?s)) | _ \<Rightarrow> True"
    using pushing_ids_own [OF conc_okD(4) [OF assms(1)]] in_calls by (cases task) auto
  ultimately have "conc_ok blake3 s' \<and> spec_run es (conc_status ?s) = Some (conc_status s')"
    using continue_ok [OF conc_ok_done [OF assms(1)] _ t(2)] by blast
  moreover have "conc_status ?s = conc_status s" by (simp add: conc_status_def fun_eq_iff)
  ultimately show ?thesis by simp
next
  case (Single op)
  with assms(2) single_ok [OF assms(1)] show ?thesis by (auto split: if_splits prod.splits)
qed

lemma conc_start_ok: "conc_ok blake3 (conc_start me)" "conc_status (conc_start me) j = Unborn"
proof -
  have "jobs_kept (\<lambda>_. None) (new_queue me)" "outcomes_filed (\<lambda>_. None) (new_queue me)"
    by (simp_all add: jobs_kept_def live_jobs_def new_queue_def outcomes_filed_def get_outcome_def)
  then show "conc_ok blake3 (conc_start me)"
    by (simp add: conc_ok_def conc_start_def new_queue_wf pushing_ids_def)
qed (simp add: conc_start_def conc_status_def)

lemma conc_run_ok:
  "conc_run blake3 s es s' \<Longrightarrow> conc_ok blake3 s \<Longrightarrow> conc_ok blake3 s' \<and> spec_run es (conc_status s) = Some (conc_status s')"
proof (induction rule: conc_run.induct)
  case (step es s1 c fs s2)
  then show ?case using conc_step_ok [of blake3 s1 c fs s2] by (simp add: spec_run_append)
qed simp

lemma conc_run_refines:
  assumes "conc_run blake3 (conc_start me) es s"
  shows "conc_ok blake3 s \<and> spec_run es (\<lambda>_. Unborn) = Some (conc_status s)"
proof -
  have "conc_status (conc_start me) = (\<lambda>_. Unborn)" by (simp add: fun_eq_iff conc_start_ok)
  with conc_run_ok [OF assms conc_start_ok(1)] show ?thesis by simp
qed

section \<open>Properties of the concurrent queue\<close>

text \<open>
  C3: Whatever the interleaving of the critical sections of pushes, pulls, heartbeats, completions,
  failures, cancellations, timeouts and log calls, what happens to the jobs is a run of the
  abstract job-status machine, in which a job is born when it is appended to the queue.
\<close>

theorem concurrent_refines_spec:
  assumes "conc_run blake3 (conc_start me) es s"
  shows "queue_wf blake3 (qc_queue s) \<and> spec_run es (\<lambda>_. Unborn) = Some (conc_status s)"
  using conc_run_refines [OF assms] conc_okD(1) by blast


text \<open>
  An outcome that reports a completed build is filed under the hash of the very derivation whose
  job was completed, even when the lease was looked up long before.
\<close>

theorem outcome_of_own_job:
  assumes "conc_run blake3 (conc_start me) es s" "get_outcome h (qc_queue s) = Some (job_outcome.Completed r)"
  shows "br_drv_hash r = h \<and> (\<exists>j. qc_jobs s (br_job_id r) = Some j \<and> bj_drv_hash j = h)"
  using conc_okD(3) [of blake3 s] conc_run_refines [OF assms(1)] assms(2) by (auto simp: outcomes_filed_def)

section \<open>Two interleavings\<close>

fun conc_exec :: "(byte list \<Rightarrow> hash32) \<Rightarrow> critical_section list \<Rightarrow> queue_conc \<Rightarrow> (queue_event list \<times> queue_conc) option" where
  "conc_exec blake3 [] s = Some ([], s)"
| "conc_exec blake3 (c # cs) s =
     (case conc_step blake3 c s of
        None \<Rightarrow> None
      | Some (es, s1) \<Rightarrow> map_option (\<lambda>(fs, s2). (es @ fs, s2)) (conc_exec blake3 cs s1))"

lemma conc_exec_run:
  "conc_exec blake3 cs s1 = Some (fs, s2) \<Longrightarrow> conc_run blake3 s es s1 \<Longrightarrow> conc_run blake3 s (es @ fs) s2"
proof (induction cs arbitrary: es s1 fs)
  case (Cons c cs)
  then obtain es1 s3 fs1 where c: "conc_step blake3 c s1 = Some (es1, s3)"
    "conc_exec blake3 cs s3 = Some (fs1, s2)" "fs = es1 @ fs1"
    by (auto split: option.splits)
  from Cons.IH [OF c(2) conc_run.step [OF Cons.prems(2) c(1)]] c(3) show ?case by simp
qed simp

lemmas conc_evals = conc_start_def start_call_def push_alloc_def pushed_job_def push_enqueue_def counter_room_def
  from_drv_path_def as_bytes_def no_hash_def new_queue_def hm_insert_def hm_remove_def hm_get_def lease_lookup_def
  list_leased_def pull_def matches_def remove_at_def complete_found_def complete_result_def complete_def Let_def

text \<open>Two pushes cross: the job with the greater id is queued, and leased, first.\<close>

definition crossing_pushes :: "critical_section list" where
  "crossing_pushes = [PushAlloc 1 0 ''a'' [] [] [], PushAlloc 2 0 ''b'' [] [] [], Continue 2, Continue 1,
     Single (Op_pull 5 5 [7] [])]"

lemma crossing_run:
  "\<exists>s. conc_run no_hash (conc_start [1]) [Submit 2, Submit 1, Lease 2 [7]] s \<and> map bj_id (bq_pending (qc_queue s)) = [1]"
proof -
  have "\<exists>s. conc_exec no_hash crossing_pushes (conc_start [1]) = Some ([Submit 2, Submit 1, Lease 2 [7]], s) \<and>
      map bj_id (bq_pending (qc_queue s)) = [1]"
    by (simp add: crossing_pushes_def conc_evals)
  then show ?thesis using conc_exec_run [OF _ conc_run.start, of no_hash crossing_pushes "conc_start [1]"] by fastforce
qed

theorem concurrent_refines_spec_witness:
  "spec_run [Submit 2, Submit 1, Lease 2 [7]] (\<lambda>_. Unborn) \<noteq> None"
proof -
  obtain s where "conc_run no_hash (conc_start [1]) [Submit 2, Submit 1, Lease 2 [7]] s" using crossing_run by blast
  from concurrent_refines_spec [OF this] show ?thesis by simp
qed


text \<open>
  A cancellation that finds the lease and then loses the race against the builder's completion
  still answers "cancelled", although the job is done and its outcome reports the build.
\<close>

definition late_cancel :: "critical_section list" where
  "late_cancel = [PushAlloc 1 0 ''a'' [] [] [], Continue 1, Single (Op_pull 5 5 [7] []), CancelLookup 2 1,
     CompleteLookup 3 1 [7] [] [] [], Continue 3]"

theorem cancel_too_late:
  "\<exists>es s l r. conc_run no_hash (conc_start [1]) es s \<and> hm_get 2 (qc_calls s) = Some (Cancelling 1 l) \<and>
     fst (cancel_found 1 l (qc_queue s)) = BuildStatus (build_state.Failed ''cancelled'') \<and>
     get_outcome (no_hash []) (snd (cancel_found 1 l (qc_queue s))) = Some (job_outcome.Completed r)"
proof -
  have "\<exists>s l r. conc_exec no_hash late_cancel (conc_start [1]) = Some ([Submit 1, Lease 1 [7], Finish 1 [7]], s) \<and>
     hm_get 2 (qc_calls s) = Some (Cancelling 1 l) \<and>
     get_outcome (no_hash []) (snd (cancel_found 1 l (qc_queue s))) = Some (job_outcome.Completed r)"
    by (simp add: late_cancel_def conc_evals cancel_found_def fail_def get_outcome_def)
  then show ?thesis
    using conc_exec_run [OF _ conc_run.start, of no_hash late_cancel "conc_start [1]"]
    by (fastforce simp: cancel_found_def)
qed

end
