(* ===== verification/Worker_Wire.thy ===== *)
theory Worker_Wire
  imports Builder_Worker
begin

text \<open>
  The builder on the wire: the client's framing and decoding, the streams and the requester's
  connection loop (all in \<open>builder.rs\<close>) between the worker and the request handler. The locale
  \<open>link_simulation\<close> is what the worker asks of its link: when each send and receive of one link is
  matched by another, so is the whole worker. Its two instances lead from the direct link of
  \<open>Builder_Worker\<close> to the wire, as long as each message of the session encodes, decodes and fits
  a frame.
\<close>

section \<open>Links that simulate each other\<close>

text \<open>Sequencing as a case distinction on the first result.\<close>

lemma worker_cases:
  "st_bind m h = (case m of (r, x) \<Rightarrow> (case r of Inl e \<Rightarrow> (Inl e, x) | Inr y \<Rightarrow> h y x))"
  "ignored m' = (case m' of (r, x) \<Rightarrow> (case r of Inl (Err e) \<Rightarrow> (Inr (), x) | Inl (Panic p) \<Rightarrow> (panic p, x) | Inr _ \<Rightarrow> (Inr (), x)))"
  "run_job env send recv ctx = (\<lambda>w. case execute_job_with_heartbeat env send recv ctx w of (r, w1) \<Rightarrow>
     (case r of
        Inl (Err e) \<Rightarrow> st_bind (ignored (on_link (send (Fail (jc_job_id ctx) (error_to_string e))) w1)) (\<lambda>_ w2. ignored (on_link recv w2))
      | Inl (Panic m) \<Rightarrow> (panic m, w1)
      | Inr _ \<Rightarrow> (Inr (), w1)))"
  by (auto simp: st_bind_def ignored_def run_job_def fun_eq_iff split: prod.split sum.split fault.split)

text \<open>The recursive parts of the worker, as functions of the worker's state.\<close>

lemma worker_funs:
  "fetch_each env r [] = (\<lambda>w. (Inr (), w))"
  "fetch_each env r (input # inputs) = (\<lambda>w. st_bind (fetch_dependency env r input w) (\<lambda>_. fetch_each env r inputs))"
  "index_outputs env [] = (\<lambda>w. (Inr [], w))"
  "index_outputs env (p # ps) = (\<lambda>w. st_bind (index_output env p w) (\<lambda>b w1.
     st_bind (index_outputs env ps w1) (\<lambda>bs w2. (Inr (b # bs), w2))))"
  "heartbeat_loop send recv jid [] st = (\<lambda>w. (Inr (), w))"
  "heartbeat_loop send recv jid (Tick # ts) st =
     (\<lambda>w. st_bind (exchange send recv (Heartbeat jid st) w) (\<lambda>_. heartbeat_loop send recv jid ts st))"
  "heartbeat_loop send recv jid (StatusTurn # ts) st = heartbeat_loop send recv jid ts ''building''"
  "heartbeat_loop send recv jid (LogTurn l # ts) st =
     (\<lambda>w. st_bind (exchange send recv (BuildLog (bl_job_id l) (bl_data l) (bl_stream l)) w)
       (\<lambda>_. heartbeat_loop send recv jid ts st))"
  by (rule ext, simp)+

locale link_simulation =
  fixes send1 :: "'s sender" and recv1 :: "'s receiver"
    and send2 :: "'t sender" and recv2 :: "'t receiver"
    and related :: "'s \<Rightarrow> 't \<Rightarrow> bool"
    and good :: "'s \<Rightarrow> bool"
  assumes send_matched: "send1 req s = (res, s') \<Longrightarrow> good s' \<Longrightarrow>
      good s \<and> (\<forall>t. related s t \<longrightarrow> (\<exists>t'. send2 req t = (res, t') \<and> related s' t'))"
    and recv_matched: "recv1 s = (resp, s') \<Longrightarrow> good s' \<Longrightarrow>
      good s \<and> (\<forall>t. related s t \<longrightarrow> (\<exists>t'. recv2 t = (resp, t') \<and> related s' t'))"
begin

definition alike :: "'s worker \<Rightarrow> 't worker \<Rightarrow> bool" where
  "alike w v \<longleftrightarrow> related (wk_link w) (wk_link v) \<and> wk_index v = wk_index w \<and> wk_imports v = wk_imports w"

definition sims :: "('s worker \<Rightarrow> 'a result \<times> 's worker) \<Rightarrow> ('t worker \<Rightarrow> 'a result \<times> 't worker) \<Rightarrow> bool" where
  "sims f g \<longleftrightarrow> (\<forall>w res w'. f w = (res, w') \<longrightarrow> good (wk_link w') \<longrightarrow>
     good (wk_link w) \<and> (\<forall>v. alike w v \<longrightarrow> (\<exists>v'. g v = (res, v') \<and> alike w' v')))"

lemma simsD:
  assumes "sims f g" "f w = (res, w')" "good (wk_link w')"
  shows "good (wk_link w)" "alike w v \<Longrightarrow> \<exists>v'. g v = (res, v') \<and> alike w' v'"
  using assms unfolding sims_def by blast+

lemma sims_return: "sims (\<lambda>w. (r, w)) (\<lambda>v. (r, v))"
  by (simp add: sims_def)

text \<open>A step and what follows it, whatever it gave; \<open>st_bind\<close> and \<open>ignored\<close> are cases of it.\<close>

lemma sims_then:
  assumes "sims f g" "\<And>r. sims (f' r) (g' r)"
  shows "sims (\<lambda>w. case f w of (r, w1) \<Rightarrow> f' r w1) (\<lambda>v. case g v of (r, v1) \<Rightarrow> g' r v1)"
  unfolding sims_def
proof (intro allI impI)
  fix w res w'
  assume b: "(case f w of (r, w1) \<Rightarrow> f' r w1) = (res, w')" and good: "good (wk_link w')"
  obtain r w1 where f: "f w = (r, w1)" by fastforce
  then have f': "f' r w1 = (res, w')" using b by simp
  note g1 = simsD [OF assms(2) f' good]
  note g2 = simsD [OF assms(1) f g1(1)]
  from g2 g1(2) show "good (wk_link w) \<and> (\<forall>v. alike w v \<longrightarrow> (\<exists>v'. (case g v of (r, v1) \<Rightarrow> g' r v1) = (res, v') \<and> alike w' v'))"
    by fastforce
qed

lemma sims_sum:
  assumes "\<And>e. sims (f1 e) (g1 e)" "\<And>x. sims (f2 x) (g2 x)"
  shows "sims (\<lambda>w. case m of Inl e \<Rightarrow> f1 e w | Inr x \<Rightarrow> f2 x w) (\<lambda>v. case m of Inl e \<Rightarrow> g1 e v | Inr x \<Rightarrow> g2 x v)"
  by (cases m) (simp_all add: assms)

lemma sims_bind:
  assumes "sims f g" "\<And>x. sims (f' x) (g' x)"
  shows "sims (\<lambda>w. st_bind (f w) f') (\<lambda>v. st_bind (g v) g')"
  unfolding worker_cases(1) by (intro sims_then assms sims_sum sims_return)

lemma sims_fault:
  assumes "\<And>e. sims (f1 e) (g1 e)" "\<And>m. sims (f2 m) (g2 m)" "\<And>x. sims (f3 x) (g3 x)"
  shows "sims (\<lambda>w. case r of Inl (Err e) \<Rightarrow> f1 e w | Inl (Panic m) \<Rightarrow> f2 m w | Inr x \<Rightarrow> f3 x w)
    (\<lambda>v. case r of Inl (Err e) \<Rightarrow> g1 e v | Inl (Panic m) \<Rightarrow> g2 m v | Inr x \<Rightarrow> g3 x v)"
proof (cases r)
  case (Inl e)
  then show ?thesis by (cases e) (simp_all add: assms)
qed (simp add: assms)

lemma sims_ignored:
  assumes "sims f g"
  shows "sims (\<lambda>w. ignored (f w)) (\<lambda>v. ignored (g v))"
  unfolding worker_cases(2) by (intro sims_then assms sims_fault sims_return)

lemma sims_on_link: "sims (on_link (send1 req)) (on_link (send2 req))" "sims (on_link recv1) (on_link recv2)"
  unfolding sims_def on_link_def alike_def
  by (auto split: prod.splits dest!: send_matched recv_matched)

lemma sims_exchange: "sims (exchange send1 recv1 req) (exchange send2 recv2 req)"
  unfolding exchange_def [abs_def] by (intro sims_bind sims_on_link)

text \<open>Steps that leave the link alone.\<close>

lemma sims_import: "sims (import_nar env p d) (import_nar env p d)"
  by (auto simp: sims_def alike_def import_nar_def Let_def split: sum.splits prod.splits if_splits)

lemma sims_insert: "sims (insert_entry env e) (insert_entry env e)"
  by (auto simp: sims_def alike_def insert_entry_def split: sum.splits prod.splits)

lemma sims_dependency: "sims (fetch_dependency env r input) (fetch_dependency env r input)"
  unfolding fetch_dependency_def [abs_def] case_prod_beta
  by (intro sims_sum sims_return sims_bind sims_import sims_insert)

lemma sims_each: "sims (fetch_each env r inputs) (fetch_each env r inputs)"
  by (induction inputs) (simp_all only: worker_funs, intro sims_return, intro sims_bind sims_dependency)

lemma sims_dependencies: "sims (fetch_dependencies env r inputs) (fetch_dependencies env r inputs)"
  using sims_each unfolding sims_def fetch_dependencies_def alike_def by force

lemma sims_output: "sims (index_output env p) (index_output env p)"
  unfolding index_output_def [abs_def] by (intro sims_sum sims_return sims_bind sims_insert)

lemma sims_outputs: "sims (index_outputs env ps) (index_outputs env ps)"
  by (induction ps) (simp_all only: worker_funs, intro sims_return, intro sims_bind sims_output sims_return)

section \<open>A job over matched links\<close>

lemma sims_heartbeats: "sims (heartbeat_loop send1 recv1 jid ts st) (heartbeat_loop send2 recv2 jid ts st)"
proof (induction ts arbitrary: st)
  case (Cons t ts)
  then show ?case by (cases t; simp only: worker_funs) (intro sims_bind sims_exchange | assumption)+
qed (simp only: worker_funs sims_return)

lemma sims_fetch_phase: "sims (fetch_phase env send1 recv1 ctx) (fetch_phase env send2 recv2 ctx)"
  unfolding fetch_phase_def [abs_def]
  by (cases "jc_input_paths ctx = []") (simp_all add: sims_return sims_bind sims_exchange sims_dependencies)

lemma sims_execute: "sims (execute_job_with_heartbeat env send1 recv1 ctx) (execute_job_with_heartbeat env send2 recv2 ctx)"
  unfolding execute_job_with_heartbeat_def [abs_def]
  by (intro sims_bind sims_sum sims_return sims_fetch_phase sims_heartbeats sims_outputs sims_exchange)

lemma sims_run_job: "sims (run_job env send1 recv1 ctx) (run_job env send2 recv2 ctx)"
  unfolding worker_cases(3)
  by (intro sims_then sims_execute sims_fault sims_return sims_bind sims_ignored sims_on_link)

text \<open>
  The loop: a run that ends is matched by a run that ends; by induction on the unfoldings of the
  first. A chain of matched steps is followed back from its end, where the link is known to be good.
\<close>

definition loop_sims :: "'k worker_env \<Rightarrow> 's sender \<Rightarrow> 's receiver \<Rightarrow> endpoint_id \<Rightarrow> nat \<Rightarrow> nat \<Rightarrow> 's worker \<Rightarrow>
    unit result \<times> 's worker \<Rightarrow> bool" where
  "loop_sims env send recv r k idle w y \<longleftrightarrow> (send = send1 \<longrightarrow> recv = recv1 \<longrightarrow> good (wk_link (snd y)) \<longrightarrow>
     good (wk_link w) \<and> (\<forall>v. alike w v \<longrightarrow>
       (\<exists>v'. work_loop env send2 recv2 r k idle v = Some (fst y, v') \<and> alike (snd y) v')))"

lemma sims_loop:
  fixes env :: "'k worker_env"
  assumes "work_loop env send1 recv1 r k idle w = Some y"
  shows "loop_sims env send1 recv1 r k idle w y"
proof (rule work_loop.raw_induct [where P = loop_sims, OF _ assms])
  fix loop and env :: "'k worker_env" and send recv r k idle w and y :: "unit result \<times> 's worker"
  assume IH: "\<And>(env :: 'k worker_env) send recv r k idle w y. loop env send recv r k idle w = Some y \<Longrightarrow> loop_sims env send recv r k idle w y"
  let ?pull = "Pull (bc_system_features (we_config env)) (bc_stream_logs (we_config env))"
  let ?ctx = "\<lambda>jid dh dp ips. \<lparr>jc_job_id = jid, jc_drv_hash = dh, jc_drv_path = dp, jc_input_paths = ips,
     jc_requester_id = r, jc_stream_logs = bc_stream_logs (we_config env)\<rparr>"
  assume run0: "(if we_cancelled env k then Some (Inr (), w)
      else case exchange send recv ?pull w of
        (Inl e, w1) \<Rightarrow> Some (Inl e, w1)
      | (Inr response, w1) \<Rightarrow>
          (case response of
             Job jid drv_hash drv_path _ input_paths \<Rightarrow>
               (case run_job env send recv (?ctx jid drv_hash drv_path input_paths) w1 of
                  (Inl e, w2) \<Rightarrow> Some (Inl e, w2)
                | (Inr _, w2) \<Rightarrow> loop env send recv r (k + 1) (we_clock env k) w2)
           | NoJob \<Rightarrow>
               if we_clock env k - idle > BUILDER_IDLE_TIMEOUT then Some (Inr (), w1)
               else loop env send recv r (k + 1) idle w1
           | _ \<Rightarrow> Some (Inr (), w1))) = Some y"
  show "loop_sims env send recv r k idle w y"
    unfolding loop_sims_def
  proof (intro impI)
    assume eqs: "send = send1" "recv = recv1" and good: "good (wk_link (snd y))"
    note run = run0 [unfolded eqs]
    have IH: "good (wk_link w1) \<and> (\<forall>v. alike w1 v \<longrightarrow>
        (\<exists>v'. work_loop env send2 recv2 r j t v = Some (fst y, v') \<and> alike (snd y) v'))"
      if "loop env send1 recv1 r j t w1 = Some y" for j t w1
      using IH [OF that] good by (simp add: loop_sims_def)
    obtain r1 w1 where x: "exchange send1 recv1 ?pull w = (r1, w1)" by fastforce
    note ex = simsD [OF sims_exchange x]
    show "good (wk_link w) \<and> (\<forall>v. alike w v \<longrightarrow>
        (\<exists>v'. work_loop env send2 recv2 r k idle v = Some (fst y, v') \<and> alike (snd y) v'))"
    proof (cases "\<not> we_cancelled env k \<and> (\<exists>jid dh dp os ips. r1 = Inr (Job jid dh dp os ips))")
      case True
      then obtain jid dh dp os ips where r1: "r1 = Inr (Job jid dh dp os ips)" by blast
      obtain r2 w2 where j: "run_job env send1 recv1 (?ctx jid dh dp ips) w1 = (r2, w2)" by fastforce
      note job = simsD [OF sims_run_job j]
      have end2: "good (wk_link w2)" "\<And>v. alike w2 v \<Longrightarrow> r2 = Inr u \<Longrightarrow>
          \<exists>v'. work_loop env send2 recv2 r (k + 1) (we_clock env k) v = Some (fst y, v') \<and> alike (snd y) v'"
          "\<And>e. r2 = Inl e \<Longrightarrow> y = (Inl e, w2)" for u
        using run True good IH by (auto simp: x r1 j split: sum.splits)
      show ?thesis
      proof (intro conjI allI impI)
        show "good (wk_link w)" using ex(1) job(1) end2(1) by blast
        fix v assume "alike w v"
        with ex(2) job(1) end2(1) obtain v1 where v1: "exchange send2 recv2 ?pull v = (r1, v1)" "alike w1 v1" by blast
        with job(2) end2(1) obtain v2 where v2: "run_job env send2 recv2 (?ctx jid dh dp ips) v1 = (r2, v2)" "alike w2 v2" by blast
        show "\<exists>v'. work_loop env send2 recv2 r k idle v = Some (fst y, v') \<and> alike (snd y) v'"
          using True v1(1) v2 end2(2,3) by (subst work_loop.simps) (cases r2; auto simp: r1)
      qed
    next
      case False
      with run good IH ex show ?thesis
        by (subst work_loop.simps) (fastforce simp: x split: sum.splits build_queue_response.splits if_splits)
    qed
  qed
qed

lemma sims_connection:
  assumes "connect_and_work env send1 recv1 r now w = Some (res, w')" "good (wk_link w')" "alike w v"
  shows "\<exists>v'. connect_and_work env send2 recv2 r now v = Some (res, v') \<and> alike w' v'"
  using assms sims_loop [of env r 0 now w "(res, w')"]
  by (auto simp: connect_and_work_def loop_sims_def split: prod.splits sum.splits option.splits)

end

section \<open>The messages of a session\<close>

text \<open>The direct link with a record of the requests handled and the responses given.\<close>

type_synonym logged_link = "queue_link \<times> (build_queue_request \<times> build_queue_response) list"

definition logged_send :: "(nat \<Rightarrow> nat) \<Rightarrow> endpoint_id \<Rightarrow> logged_link sender" where
  "logged_send clock b req t = (case t of ((k, q, rs), msgs) \<Rightarrow>
     (case handle_build_queue_request (clock k) (clock (k + 1)) b req q of
        (resp, q') \<Rightarrow> (Inr (), ((k + 2, q', rs @ [resp]), msgs @ [(req, resp)]))))"

definition logged_recv :: "logged_link receiver" where
  "logged_recv t = (case queue_recv (fst t) of (res, s) \<Rightarrow> (res, (s, snd t)))"

interpretation logged: link_simulation "queue_send clock b" queue_recv "logged_send clock b" logged_recv
    "\<lambda>s t. fst t = s" "\<lambda>_. True"
  for clock b
  by unfold_locales (auto simp: queue_send_def logged_send_def logged_recv_def split: prod.splits)

section \<open>The wire\<close>

text \<open>
  The pair of streams between a builder and its requester: the clock's count, the queue, what the
  builder has still to read, and whether the requester's loop still runs. A message sent is what
  \<open>send_request\<close> writes; the loop reads it and writes its answer to the builder's stream. The loop
  has ended after an error; a write then gives the stream's error text.
\<close>

record wire_link =
  wl_clock :: nat
  wl_queue :: build_queue
  wl_inbox :: reader
  wl_open :: bool

record wire_codec =
  wc_encode_request :: "build_queue_request \<Rightarrow> string + byte list"
  wc_decode_request :: "byte list \<Rightarrow> string + build_queue_request"
  wc_encode_response :: "build_queue_response \<Rightarrow> string + byte list"
  wc_decode_response :: "byte list \<Rightarrow> string + build_queue_response"

definition wire_send :: "wire_codec \<Rightarrow> (nat \<Rightarrow> nat) \<Rightarrow> endpoint_id \<Rightarrow> string \<Rightarrow> wire_link sender" where
  "wire_send c clock b stopped req l =
     (case send_request (wc_encode_request c) vec_put [] req of
        Inl e \<Rightarrow> (Inl e, l)
      | Inr bytes \<Rightarrow>
          if \<not> wl_open l then (throw (Protocol (''failed to write request length: '' @ stopped)), l)
          else (case serve_build_queue (wc_decode_request c) (wc_encode_response c) vec_put b clock (wl_clock l)
                       (cursor bytes) [] (wl_queue l) of
                  (res, out, q) \<Rightarrow>
                    (Inr (), \<lparr>wl_clock = wl_clock l + 2, wl_queue = q,
                       wl_inbox = (wl_inbox l)\<lparr>avail := avail (wl_inbox l) @ out\<rparr>, wl_open = (res = Inr ())\<rparr>)))"

definition wire_recv :: "wire_codec \<Rightarrow> wire_link receiver" where
  "wire_recv c l = (case recv_response (wc_decode_response c) (wl_inbox l) of
     Inl e \<Rightarrow> (Inl e, l) | Inr (resp, r) \<Rightarrow> (Inr resp, l\<lparr>wl_inbox := r\<rparr>))"

text \<open>A message that crosses the wire: it encodes, its bytes decode to it and fit a frame.\<close>

definition crosses :: "('a \<Rightarrow> string + byte list) \<Rightarrow> (byte list \<Rightarrow> string + 'a) \<Rightarrow> 'a \<Rightarrow> bool" where
  "crosses enc dec m \<longleftrightarrow> (case enc m of Inl _ \<Rightarrow> False | Inr bytes \<Rightarrow> dec bytes = Inr m \<and> length bytes \<le> MAX_MESSAGE_SIZE)"

definition request_crosses :: "wire_codec \<Rightarrow> build_queue_request \<Rightarrow> bool" where
  "request_crosses c = crosses (wc_encode_request c) (wc_decode_request c)"

definition response_crosses :: "wire_codec \<Rightarrow> build_queue_response \<Rightarrow> bool" where
  "response_crosses c = crosses (wc_encode_response c) (wc_decode_response c)"

definition session_crosses :: "wire_codec \<Rightarrow> (build_queue_request \<times> build_queue_response) list \<Rightarrow> bool" where
  "session_crosses c = list_all (\<lambda>(req, resp). request_crosses c req \<and> response_crosses c resp)"

definition framed :: "wire_codec \<Rightarrow> build_queue_response list \<Rightarrow> byte list" where
  "framed c rs = concat (map (\<lambda>r. frame (projr (wc_encode_response c r))) rs)"

definition fresh_wire :: "build_queue_response list \<Rightarrow> nat \<Rightarrow> build_queue \<Rightarrow> wire_codec \<Rightarrow> wire_link" where
  "fresh_wire rs k q c = \<lparr>wl_clock = k, wl_queue = q,
     wl_inbox = \<lparr>avail = framed c rs, ending = (UnexpectedEof, ''closed'')\<rparr>, wl_open = True\<rparr>"

definition on_wire :: "wire_codec \<Rightarrow> logged_link \<Rightarrow> wire_link \<Rightarrow> bool" where
  "on_wire c t l \<longleftrightarrow> (case t of ((k, q, rs), msgs) \<Rightarrow> list_all (response_crosses c) rs \<and> l = fresh_wire rs k q c)"

lemma on_wire_queue: "on_wire c t l \<Longrightarrow> wl_queue l = fst (snd (fst t))"
  by (auto simp: on_wire_def fresh_wire_def)

lemma read_framed:
  assumes "length bytes \<le> MAX_MESSAGE_SIZE"
  shows "read_frame MAX_MESSAGE_SIZE (feed (frame bytes) r) = Inr (bytes, r)"
  using assms by (rule framec.dec_enc)

lemma serve_one:
  assumes "dec bytes = Inr req" "length bytes \<le> MAX_MESSAGE_SIZE"
    and "handle_build_queue_request (clock k) (clock (k + 1)) b req q = (resp, q')" "renc resp = Inr out"
  shows "serve_build_queue dec renc vec_put b clock k (cursor (frame bytes)) w q = (Inr (), w @ frame out, q')"
proof -
  have "read_frame MAX_MESSAGE_SIZE (cursor (frame bytes)) = Inr (bytes, cursor [])"
    using read_framed [OF assms(2), of "cursor []"] by (simp add: feed_cursor)
  then show ?thesis
    using assms by (subst serve_build_queue.simps) (simp add: vec_put_def serve_end, simp add: frame_def)
qed

lemma send_crosses:
  assumes "request_crosses c req" "response_crosses c resp"
    and "handle_build_queue_request (clock k) (clock (k + 1)) b req q = (resp, q')"
  shows "wire_send c clock b stopped req (fresh_wire rs k q c) = (Inr (), fresh_wire (rs @ [resp]) (k + 2) q' c)"
proof -
  obtain bytes out where e: "wc_encode_request c req = Inr bytes" "wc_decode_request c bytes = Inr req"
      "length bytes \<le> MAX_MESSAGE_SIZE" "wc_encode_response c resp = Inr out"
    using assms(1,2) by (auto simp: request_crosses_def response_crosses_def crosses_def split: sum.splits)
  have "send_request (wc_encode_request c) vec_put [] req = Inr (frame bytes)"
    by (simp add: send_request_def e(1) vec_put_def frame_def)
  moreover have "serve_build_queue (wc_decode_request c) (wc_encode_response c) vec_put b clock k (cursor (frame bytes)) [] q =
      (Inr (), frame out, q')"
    using serve_one [of "wc_decode_request c" bytes req clock k b q resp q' "wc_encode_response c" out "[]"] e assms(3) by simp
  ultimately show ?thesis
    by (simp add: wire_send_def fresh_wire_def framed_def e(4))
qed

lemma recv_crosses:
  assumes "response_crosses c resp"
  shows "wire_recv c (fresh_wire (resp # rs) k q c) = (Inr resp, fresh_wire rs k q c)"
proof -
  obtain out where e: "wc_encode_response c resp = Inr out" "wc_decode_response c out = Inr resp" "length out \<le> MAX_MESSAGE_SIZE"
    using assms by (auto simp: response_crosses_def crosses_def split: sum.splits)
  have "\<lparr>avail = frame out @ framed c rs, ending = en\<rparr> = feed (frame out) \<lparr>avail = framed c rs, ending = en\<rparr>" for en
    by (simp add: feed_def)
  with read_framed [OF e(3)] show ?thesis
    by (simp add: wire_recv_def recv_response_def fresh_wire_def framed_def e)
qed

lemma recv_nothing:
  "wire_recv c (fresh_wire [] k q c) = (throw (Protocol ''failed to read response length: closed''), fresh_wire [] k q c)"
  by (simp add: wire_recv_def recv_response_def fresh_wire_def framed_def read_frame_def codec_simps)

interpretation wired: link_simulation "logged_send clock b" logged_recv "wire_send c clock b stopped" "wire_recv c"
    "on_wire c" "\<lambda>t. session_crosses c (snd t)"
  for clock b c stopped
proof unfold_locales
  fix req and s s' :: logged_link and res
  assume send: "logged_send clock b req s = (res, s')" and good: "session_crosses c (snd s')"
  obtain k q rs msgs where s: "s = ((k, q, rs), msgs)" by (metis surj_pair)
  obtain resp q' where h: "handle_build_queue_request (clock k) (clock (k + 1)) b req q = (resp, q')" by fastforce
  have s': "res = Inr ()" "s' = ((k + 2, q', rs @ [resp]), msgs @ [(req, resp)])"
    using send h by (auto simp: logged_send_def s)
  have c: "request_crosses c req" "response_crosses c resp" using good by (simp_all add: s' session_crosses_def)
  show "session_crosses c (snd s) \<and> (\<forall>l. on_wire c s l \<longrightarrow>
      (\<exists>l'. wire_send c clock b stopped req l = (res, l') \<and> on_wire c s' l'))"
    using good send_crosses [OF c h, of stopped rs] c by (auto simp: s s' on_wire_def session_crosses_def)
next
  fix s s' :: logged_link and resp
  assume recv: "logged_recv s = (resp, s')" and good: "session_crosses c (snd s')"
  obtain k q rs msgs where s: "s = ((k, q, rs), msgs)" by (metis surj_pair)
  show "session_crosses c (snd s) \<and> (\<forall>l. on_wire c s l \<longrightarrow>
      (\<exists>l'. wire_recv c l = (resp, l') \<and> on_wire c s' l'))"
    using recv good recv_nothing recv_crosses
    by (cases rs) (auto simp: s on_wire_def logged_recv_def queue_recv_def)
qed

section \<open>The worker over the wire\<close>

text \<open>
  C6: A builder over real streams does what a builder does whose requests reach the requester's
  handler directly: each run that ends there has a list of the requests handled and the responses
  given, and if each of them encodes, decodes to itself and fits a frame of 1 MiB, the run over
  framed bytes ends with the same result, the same index and imports, and the same queue.
\<close>

theorem worker_over_wire:
  assumes "connect_and_work env (queue_send clock b) queue_recv r now w = Some (res, w')"
    and "wk_link w = (k, q, [])"
  shows "\<exists>msgs. (\<exists>v. connect_and_work env (logged_send clock b) logged_recv r now
        \<lparr>wk_link = ((k, q, []), []), wk_index = wk_index w, wk_imports = wk_imports w\<rparr> = Some (res, v) \<and>
        wk_link v = (wk_link w', msgs)) \<and>
    (session_crosses c msgs \<longrightarrow> (\<exists>v. connect_and_work env (wire_send c clock b stopped) (wire_recv c) r now
        \<lparr>wk_link = fresh_wire [] k q c, wk_index = wk_index w, wk_imports = wk_imports w\<rparr> = Some (res, v) \<and>
        wk_index v = wk_index w' \<and> wk_imports v = wk_imports w' \<and> wl_queue (wk_link v) = fst (snd (wk_link w'))))"
proof -
  let ?w1 = "\<lparr>wk_link = ((k, q, []), []), wk_index = wk_index w, wk_imports = wk_imports w\<rparr>"
  let ?w2 = "\<lparr>wk_link = fresh_wire [] k q c, wk_index = wk_index w, wk_imports = wk_imports w\<rparr>"
  have "logged.alike w ?w1" by (simp add: logged.alike_def assms(2))
  from logged.sims_connection [OF assms(1) _ this] obtain v where
    v: "connect_and_work env (logged_send clock b) logged_recv r now ?w1 = Some (res, v)" "logged.alike w' v" by blast
  have "wired.alike c ?w1 ?w2" by (simp add: wired.alike_def on_wire_def)
  from wired.sims_connection [OF v(1) _ this] have
    "session_crosses c (snd (wk_link v)) \<Longrightarrow> \<exists>u. connect_and_work env (wire_send c clock b stopped) (wire_recv c) r now ?w2 = Some (res, u) \<and>
       wired.alike c v u" by blast
  moreover have "wk_link v = (wk_link w', snd (wk_link v))" using v(2) unfolding logged.alike_def by (simp add: prod_eq_iff)
  ultimately show ?thesis
    using v by (intro exI [of _ "snd (wk_link v)"]) (auto simp: logged.alike_def wired.alike_def dest!: on_wire_queue)
qed

text \<open>A builder that finds no job and leaves after its idle time, with a codec for what it says.\<close>

definition idle_env :: "hash32 worker_env" where
  "idle_env = stocked_env\<lparr>we_clock := \<lambda>_. 31 * 10 ^ 9\<rparr>"

definition idle_codec :: wire_codec where
  "idle_codec = \<lparr>wc_encode_request = \<lambda>_. Inr [1], wc_decode_request = \<lambda>_. Inr (Pull [''x86_64-linux''] False),
     wc_encode_response = \<lambda>_. Inr [2], wc_decode_response = \<lambda>_. Inr NoJob\<rparr>"

lemma idle_connection:
  "connect_and_work idle_env send recv [1] 0 w = work_loop idle_env send recv [1] 0 0 w"
  unfolding connect_and_work_def
  by (subst with_retry_constant [where r = "Inr ()"])
     (simp_all add: retryable_result_def idle_env_def stocked_env_def sample_worker_env_def)

lemma idle_simps: "\<not> we_cancelled idle_env k" "we_config idle_env = \<lparr>bc_system_features = [''x86_64-linux''], bc_stream_logs = False\<rparr>"
  "we_clock idle_env k = 31 * 10 ^ 9"
  by (simp_all add: idle_env_def stocked_env_def sample_worker_env_def)

lemma idle_pull: "pull t1 t2 b fs (new_queue [7]) = (None, new_queue [7])"
  by (simp add: pull_def new_queue_def Let_def)

theorem worker_over_wire_witness:
  "\<exists>v. connect_and_work idle_env (wire_send idle_codec (\<lambda>k. k) [5] ''stopped'') (wire_recv idle_codec) [1] 0
      \<lparr>wk_link = fresh_wire [] 0 (new_queue [7]) idle_codec, wk_index = [], wk_imports = []\<rparr> = Some (Inr (), v) \<and>
    wl_queue (wk_link v) = new_queue [7]"
proof -
  let ?w = "\<lparr>wk_link = (0, new_queue [7], []), wk_index = [], wk_imports = []\<rparr> :: queue_link worker"
  have run: "connect_and_work idle_env (queue_send (\<lambda>k. k) [5]) queue_recv [1] 0 ?w =
      Some (Inr (), ?w\<lparr>wk_link := (2, new_queue [7], [])\<rparr>)"
    unfolding idle_connection
    by (subst work_loop.simps) (simp add: idle_simps exchange_def on_link_def queue_send_def queue_recv_def idle_pull BUILDER_IDLE_TIMEOUT_def)
  have logged: "connect_and_work idle_env (logged_send (\<lambda>k. k) [5]) logged_recv [1] 0
      \<lparr>wk_link = ((0, new_queue [7], []), []), wk_index = [], wk_imports = []\<rparr> =
      Some (Inr (), \<lparr>wk_link = ((2, new_queue [7], []), [(Pull [''x86_64-linux''] False, NoJob)]), wk_index = [], wk_imports = []\<rparr>)"
    unfolding idle_connection
    by (subst work_loop.simps)
       (simp add: idle_simps exchange_def on_link_def logged_send_def logged_recv_def queue_recv_def idle_pull BUILDER_IDLE_TIMEOUT_def)
  have "session_crosses idle_codec [(Pull [''x86_64-linux''] False, NoJob)]"
    by (simp add: session_crosses_def request_crosses_def response_crosses_def crosses_def idle_codec_def MAX_MESSAGE_SIZE_def)
  with worker_over_wire [OF run, of 0 "new_queue [7]" idle_codec "''stopped''"] show ?thesis
    by (auto simp: logged)
qed

end
