(* ===== verification/Build_Loop.thy ===== *)
theory Build_Loop
  imports Worker_Wire
begin

text \<open>
  What runs beside a build (\<open>builder.rs\<close>, \<open>build.rs\<close>): the build task with its two readers, which put
  log lines into a bounded channel, and the loop of \<open>execute_job_with_heartbeat\<close>, whose \<open>select!\<close>
  takes them out until it notices that the build has ended. The turns the loop makes are what
  \<open>Builder_Worker\<close> has as a field of the environment; here they come from the tasks, in every
  interleaving, and so does the part of the log that reaches the requester.
\<close>

section \<open>The tasks and their channels\<close>

text \<open>
  The lines the readers have still to send, the two channels, whether the build task has sent its
  status message, whether it has cancelled the loop, the turns made and whether the loop has ended.
\<close>

record log_pipe =
  lp_out :: "build_log_line list"
  lp_err :: "build_log_line list"
  lp_log :: "build_log_line list"
  lp_statuses :: "string list"
  lp_building :: bool
  lp_cancelled :: bool
  lp_turns :: "turn list"
  lp_left :: bool

definition start_pipe :: "build_log_line list \<Rightarrow> build_log_line list \<Rightarrow> log_pipe" where
  "start_pipe outs errs = \<lparr>lp_out = outs, lp_err = errs, lp_log = [], lp_statuses = [], lp_building = False,
     lp_cancelled = False, lp_turns = [], lp_left = False\<rparr>"

definition LOG_CHANNEL :: nat where "LOG_CHANNEL = 256"

definition STATUS_CHANNEL :: nat where "STATUS_CHANNEL = 16"

text \<open>
  A send waits for room in its channel. The build task awaits both readers before it cancels the
  loop, unless waiting for the process failed (\<open>awaited\<close>). The branches of \<open>select!\<close> that are ready
  are taken in any order.
\<close>

inductive pipe_step :: "bool \<Rightarrow> log_pipe \<Rightarrow> log_pipe \<Rightarrow> bool" for awaited where
  building: "\<not> lp_building p \<Longrightarrow> length (lp_statuses p) < STATUS_CHANNEL \<Longrightarrow>
    pipe_step awaited p (p\<lparr>lp_building := True, lp_statuses := lp_statuses p @ [''building'']\<rparr>)"
| stdout_line: "lp_building p \<Longrightarrow> lp_out p = l # ls \<Longrightarrow> length (lp_log p) < LOG_CHANNEL \<Longrightarrow>
    pipe_step awaited p (p\<lparr>lp_out := ls, lp_log := lp_log p @ [l]\<rparr>)"
| stderr_line: "lp_building p \<Longrightarrow> lp_err p = l # ls \<Longrightarrow> length (lp_log p) < LOG_CHANNEL \<Longrightarrow>
    pipe_step awaited p (p\<lparr>lp_err := ls, lp_log := lp_log p @ [l]\<rparr>)"
| build_ends: "lp_building p \<Longrightarrow> awaited \<longrightarrow> lp_out p = [] \<and> lp_err p = [] \<Longrightarrow>
    pipe_step awaited p (p\<lparr>lp_cancelled := True\<rparr>)"
| cancelled: "\<not> lp_left p \<Longrightarrow> lp_cancelled p \<Longrightarrow> pipe_step awaited p (p\<lparr>lp_left := True\<rparr>)"
| tick: "\<not> lp_left p \<Longrightarrow> pipe_step awaited p (p\<lparr>lp_turns := lp_turns p @ [Tick]\<rparr>)"
| status: "\<not> lp_left p \<Longrightarrow> lp_statuses p = st # sts \<Longrightarrow>
    pipe_step awaited p (p\<lparr>lp_statuses := sts, lp_turns := lp_turns p @ [StatusTurn]\<rparr>)"
| log_line: "\<not> lp_left p \<Longrightarrow> lp_log p = l # ls \<Longrightarrow>
    pipe_step awaited p (p\<lparr>lp_log := ls, lp_turns := lp_turns p @ [LogTurn l]\<rparr>)"

inductive pipe_run :: "bool \<Rightarrow> log_pipe \<Rightarrow> log_pipe \<Rightarrow> bool" for awaited p where
  started: "pipe_run awaited p p"
| stepped: "pipe_run awaited p p1 \<Longrightarrow> pipe_step awaited p1 p2 \<Longrightarrow> pipe_run awaited p p2"

inductive_cases pipe_stepE: "pipe_step awaited p p'"

definition turn_lines :: "turn list \<Rightarrow> build_log_line list" where
  "turn_lines ts = concat (map (\<lambda>t. case t of LogTurn l \<Rightarrow> [l] | _ \<Rightarrow> []) ts)"

lemma turn_lines_simps [simp]:
  "turn_lines [] = []" "turn_lines (ts @ us) = turn_lines ts @ turn_lines us"
  "turn_lines (LogTurn l # ts) = l # turn_lines ts" "turn_lines (Tick # ts) = turn_lines ts"
  "turn_lines (StatusTurn # ts) = turn_lines ts"
  by (simp_all add: turn_lines_def)

text \<open>
  What was forwarded, what is in the channel and any merge of what is to come is a merge of the two
  streams; the channel keeps its bound, and a loop that has ended was cancelled after the readers.
\<close>

definition pipe_inv :: "bool \<Rightarrow> build_log_line list \<Rightarrow> build_log_line list \<Rightarrow> log_pipe \<Rightarrow> bool" where
  "pipe_inv awaited outs errs p \<longleftrightarrow>
     (\<forall>rest \<in> shuffles (lp_out p) (lp_err p). turn_lines (lp_turns p) @ lp_log p @ rest \<in> shuffles outs errs) \<and>
     length (lp_log p) \<le> LOG_CHANNEL \<and> (lp_left p \<longrightarrow> lp_cancelled p) \<and>
     (lp_cancelled p \<longrightarrow> awaited \<longrightarrow> lp_out p = [] \<and> lp_err p = [])"

lemma pipe_inv_start: "pipe_inv awaited outs errs (start_pipe outs errs)"
  by (simp add: pipe_inv_def start_pipe_def)

lemma pipe_inv_step:
  assumes "pipe_inv awaited outs errs p" "pipe_step awaited p p'"
  shows "pipe_inv awaited outs errs p'"
  using assms(2)
proof cases
  case (stdout_line l ls)
  have "turn_lines (lp_turns p) @ lp_log p @ l # rest \<in> shuffles outs errs" if "rest \<in> shuffles ls (lp_err p)" for rest
    using assms(1) Cons_in_shuffles_leftI [OF that, of l] stdout_line(3) by (auto simp: pipe_inv_def)
  with assms(1) stdout_line show ?thesis by (auto simp: pipe_inv_def)
next
  case (stderr_line l ls)
  have "turn_lines (lp_turns p) @ lp_log p @ l # rest \<in> shuffles outs errs" if "rest \<in> shuffles (lp_out p) ls" for rest
    using assms(1) Cons_in_shuffles_rightI [OF that, of l] stderr_line(3) by (auto simp: pipe_inv_def)
  with assms(1) stderr_line show ?thesis by (auto simp: pipe_inv_def)
qed (use assms(1) in \<open>auto simp: pipe_inv_def\<close>)

lemma pipe_run_inv:
  "pipe_run awaited (start_pipe outs errs) p \<Longrightarrow> pipe_inv awaited outs errs p"
  by (induction rule: pipe_run.induct) (auto intro: pipe_inv_start pipe_inv_step)

lemma log_tail_bounded:
  assumes "pipe_run True (start_pipe outs errs) p" "lp_left p"
  shows "turn_lines (lp_turns p) @ lp_log p \<in> shuffles outs errs" "length (lp_log p) \<le> LOG_CHANNEL"
  using pipe_run_inv [OF assms(1)] assms(2) by (auto simp: pipe_inv_def)

section \<open>What the requester gets\<close>

text \<open>The requests of the loop, as its turns determine them, and the log lines among requests.\<close>

fun turn_requests :: "u64 \<Rightarrow> string \<Rightarrow> turn list \<Rightarrow> build_queue_request list" where
  "turn_requests jid st [] = []"
| "turn_requests jid st (Tick # ts) = Heartbeat jid st # turn_requests jid st ts"
| "turn_requests jid st (StatusTurn # ts) = turn_requests jid ''building'' ts"
| "turn_requests jid st (LogTurn l # ts) = BuildLog (bl_job_id l) (bl_data l) (bl_stream l) # turn_requests jid st ts"

definition request_lines :: "build_queue_request list \<Rightarrow> build_log_line list" where
  "request_lines reqs = concat (map (\<lambda>r. case r of
     BuildLog j d s \<Rightarrow> [\<lparr>bl_job_id = j, bl_data = d, bl_stream = s\<rparr>] | _ \<Rightarrow> []) reqs)"

lemma request_lines_turns: "request_lines (turn_requests jid st ts) = turn_lines ts"
  by (induction jid st ts rule: turn_requests.induct) (simp_all add: request_lines_def)

lemma run_requests_length: "length (fst (run_requests clock k b reqs q)) = length reqs"
  by (induction reqs arbitrary: k q) (simp_all split: prod.split, metis fst_conv)

lemma exchange_logged:
  assumes "wk_link w = ((k, q, []), msgs)" "handle_build_queue_request (clock k) (clock (k + 1)) b req q = (resp, q')"
  shows "exchange (logged_send clock b) logged_recv req w = (Inr resp, w\<lparr>wk_link := ((k + 2, q', []), msgs @ [(req, resp)])\<rparr>)"
  using assms by (simp add: exchange_def on_link_def logged_send_def logged_recv_def queue_recv_def)

lemma heartbeat_loop_requests:
  assumes "wk_link w = ((k, q, []), msgs)"
  shows "heartbeat_loop (logged_send clock b) logged_recv jid ts st w =
    (let reqs = turn_requests jid st ts; (resps, q') = run_requests clock k b reqs q
     in (Inr (), w\<lparr>wk_link := ((k + 2 * length reqs, q', []), msgs @ zip reqs resps)\<rparr>))"
  using assms
proof (induction jid st ts arbitrary: w k q msgs rule: turn_requests.induct)
  case (1 jid st)
  then have "w\<lparr>wk_link := ((k, q, []), msgs)\<rparr> = w" by (cases w) simp
  then show ?case by simp
next
  case (2 jid st ts)
  obtain resp q1 where h: "handle_build_queue_request (clock k) (clock (k + 1)) b (Heartbeat jid st) q = (resp, q1)" by fastforce
  show ?case
    using "2.IH" [of "w\<lparr>wk_link := ((k + 2, q1, []), msgs @ [(Heartbeat jid st, resp)])\<rparr>"]
    by (simp add: exchange_logged [OF "2.prems" h] h [simplified] Let_def split: prod.split)
next
  case (3 jid st ts)
  then show ?case by simp
next
  case (4 jid st l ts)
  let ?req = "BuildLog (bl_job_id l) (bl_data l) (bl_stream l)"
  obtain resp q1 where h: "handle_build_queue_request (clock k) (clock (k + 1)) b ?req q = (resp, q1)" by fastforce
  show ?case
    using "4.IH" [of "w\<lparr>wk_link := ((k + 2, q1, []), msgs @ [(?req, resp)])\<rparr>"]
    by (simp add: exchange_logged [OF "4.prems" h] h [simplified] Let_def split: prod.split)
qed

section \<open>What a watcher of the log gets\<close>

text \<open>A subscriber that has the channel of one job and does not read while the requests come in.\<close>

definition as_entry :: "build_log_line \<Rightarrow> log_entry" where
  "as_entry l = \<lparr>le_job_id = bl_job_id l, le_data = bl_data l, le_stream = bl_stream l\<rparr>"

definition watched :: "u64 \<Rightarrow> build_queue \<Rightarrow> log_channel list option" where
  "watched jid q = hm_get jid (bq_log_subscribers q)"

lemma watched_heartbeat: "watched jid (snd (handle_build_queue_request t1 t2 b (Heartbeat j st) q)) = watched jid q"
  by (simp add: watched_def heartbeat_def split: option.split)

lemma watched_log:
  assumes "jid \<noteq> 0"
  shows "watched jid (snd (handle_build_queue_request t1 t2 b (BuildLog jid d st) q)) =
    map_option (send_all \<lparr>le_job_id = jid, le_data = d, le_stream = st\<rparr>) (watched jid q)"
  using assms by (simp add: watched_def broadcast_log_def Let_def)

lemma watched_requests:
  assumes "jid \<noteq> 0" "list_all (\<lambda>l. bl_job_id l = jid) (turn_lines ts)"
  shows "watched jid (snd (run_requests clock k b (turn_requests jid st ts) q)) =
    map_option (\<lambda>cs. fold (send_all \<circ> as_entry) (turn_lines ts) cs) (watched jid q)"
  using assms
proof (induction jid st ts arbitrary: k q rule: turn_requests.induct)
  case (2 jid st ts)
  obtain resp q1 where h: "handle_build_queue_request (clock k) (clock (k + 1)) b (Heartbeat jid st) q = (resp, q1)" by fastforce
  then have "watched jid q1 = watched jid q" using watched_heartbeat by (metis snd_conv)
  with 2 h show ?case by (simp split: prod.split) (metis snd_conv)
next
  case (4 jid st l ts)
  let ?req = "BuildLog (bl_job_id l) (bl_data l) (bl_stream l)"
  obtain resp q1 where h: "handle_build_queue_request (clock k) (clock (k + 1)) b ?req q = (resp, q1)" by fastforce
  have l: "bl_job_id l = jid" using "4.prems"(2) by simp
  have "watched jid q1 = map_option (send_all (as_entry l)) (watched jid q)"
    using watched_log [OF "4.prems"(1), of "clock k" "clock (k + 1)" b "bl_data l" "bl_stream l" q] h unfolding l as_entry_def
    by (metis snd_conv)
  with "4.IH" [of "k + 2" q1] "4.prems" h show ?case
    by (simp add: option.map_comp comp_def split: prod.split) (metis snd_conv)
qed (simp_all add: option.map_ident option.map_id)

lemma send_all_steps [simp]:
  "send_all e [] = []"
  "send_all e [c] = (if ch_closed c \<or> length (ch_buffer c) \<ge> 256 then [] else [c\<lparr>ch_buffer := ch_buffer c @ [e]\<rparr>])"
  by (simp_all add: send_all_def try_send_def List.map_filter_def)

lemma send_all_none: "fold send_all es [] = []"
  by (induction es) simp_all

lemma send_all_fold:
  "\<not> ch_closed c \<Longrightarrow> length (ch_buffer c) \<le> 256 \<Longrightarrow> fold send_all es [c] =
     (if length (ch_buffer c) + length es \<le> 256 then [c\<lparr>ch_buffer := ch_buffer c @ es\<rparr>] else [])"
  by (induction es arbitrary: c) (simp_all add: send_all_none)

section \<open>Properties\<close>

text \<open>
  C27: While a build with log streaming runs, however its tasks interleave, the log messages its
  requester handles are the beginning of a merge of the two output streams, each in order, of which
  at most the last 256 lines are missing: those that are in the channel when the loop notices that
  the build has ended.
\<close>

theorem forwarded_log_bounded:
  assumes "execute_build_with_logs spawn drv jid = (Inr paths, outs, errs)"
    and "pipe_run True (start_pipe outs errs) p" "lp_left p"
    and "wk_link w = ((k, q, []), [])"
  shows "\<exists>w' lost. heartbeat_loop (logged_send clock b) logged_recv jid (lp_turns p) ''starting'' w = (Inr (), w') \<and>
    request_lines (map fst (snd (wk_link w'))) @ lost \<in> shuffles outs errs \<and> length lost \<le> 256"
proof -
  let ?reqs = "turn_requests jid ''starting'' (lp_turns p)"
  obtain resps q' where r: "run_requests clock k b ?reqs q = (resps, q')" by fastforce
  then have "length resps = length ?reqs" using run_requests_length [of clock k b ?reqs q] by simp
  then have "map fst (zip ?reqs resps) = ?reqs" by simp
  with log_tail_bounded [OF assms(2,3)] show ?thesis
    by (simp add: heartbeat_loop_requests [OF assms(4)] r request_lines_turns LOG_CHANNEL_def Let_def) blast
qed

text \<open>The readers may put all lines into the channel before the loop takes any.\<close>

lemma channel_fills:
  assumes "length outs \<le> LOG_CHANNEL"
  shows "pipe_run True (start_pipe outs []) ((start_pipe outs [])\<lparr>lp_building := True, lp_statuses := [''building''],
    lp_out := [], lp_log := outs\<rparr>)"
proof -
  let ?p = "(start_pipe outs [])\<lparr>lp_building := True, lp_statuses := [''building'']\<rparr>"
  have s: "pipe_run True (start_pipe outs []) ?p"
    using pipe_run.stepped [OF pipe_run.started pipe_step.building, of "start_pipe outs []" True]
    by (simp add: start_pipe_def STATUS_CHANNEL_def)
  have "pipe_run True (start_pipe outs []) (?p\<lparr>lp_out := drop n outs, lp_log := take n outs\<rparr>)" if "n \<le> length outs" for n
    using that
  proof (induction n)
    case 0
    then show ?case using s by (simp add: start_pipe_def)
  next
    case (Suc n)
    then have "drop n outs = outs ! n # drop (Suc n) outs" by (simp add: Cons_nth_drop_Suc)
    from pipe_run.stepped [OF Suc.IH pipe_step.stdout_line, of "outs ! n" "drop (Suc n) outs"] this Suc.prems assms
    show ?case by (simp add: take_Suc_conv_app_nth)
  qed
  from this [of "length outs"] show ?thesis by simp
qed

text \<open>
  A watcher who subscribes to a job and does not read in between finds the forwarded lines in order, as
  long as they are at most 256; the line after that removes the subscription for good.
\<close>

theorem watcher_of_log:
  assumes "jid \<noteq> 0" "list_all (\<lambda>l. bl_job_id l = jid) (turn_lines ts)" "watched jid q = None"
  shows "watched jid (snd (run_requests clock k b (turn_requests jid st ts) (subscribe_logs jid q))) =
    Some (if length (turn_lines ts) \<le> 256 then [\<lparr>ch_buffer = map as_entry (turn_lines ts), ch_closed = False\<rparr>] else [])"
proof -
  have "watched jid (subscribe_logs jid q) = Some [\<lparr>ch_buffer = [], ch_closed = False\<rparr>]"
    using assms(3) by (simp add: watched_def subscribe_logs_def or_default_def)
  with watched_requests [OF assms(1,2), of clock k b st "subscribe_logs jid q"]
    send_all_fold [of "\<lparr>ch_buffer = [], ch_closed = False\<rparr>" "map as_entry (turn_lines ts)"]
  show ?thesis by (simp add: fold_map comp_def)
qed

theorem watcher_of_log_witness:
  "watched 1 (snd (run_requests (\<lambda>k. k) 0 [7] (turn_requests 1 ''starting'' [Tick, LogTurn (hd (log_of 1 1 [''warning'']))])
     (subscribe_logs 1 sample_leased))) =
   Some [\<lparr>ch_buffer = [\<lparr>le_job_id = 1, le_data = as_bytes ''warning'', le_stream = 1\<rparr>], ch_closed = False\<rparr>]"
  using watcher_of_log [of 1 "[Tick, LogTurn (hd (log_of 1 1 [''warning'']))]" sample_leased "\<lambda>k. k" 0 "[7]" "''starting''"]
  by (simp add: log_of_def as_entry_def watched_def sample_defs hm_get_def)

text \<open>
  The tail may be lost: a build of at most 256 lines can end before the loop takes out any of
  them, and then none reaches the requester.
\<close>

theorem log_tail_lost:
  assumes "length outs \<le> LOG_CHANNEL"
  shows "\<exists>p. pipe_run True (start_pipe outs []) p \<and> lp_left p \<and> lp_turns p = [] \<and> lp_log p = outs"
  using pipe_run.stepped [OF pipe_run.stepped [OF channel_fills [OF assms] pipe_step.build_ends] pipe_step.cancelled]
  by (fastforce simp: start_pipe_def)

theorem log_tail_lost_witness:
  "\<exists>p. pipe_run True (start_pipe (log_of 1 1 [''error: disk full'']) []) p \<and> lp_left p \<and> lp_turns p = []"
  using log_tail_lost [of "log_of 1 1 [''error: disk full'']"] by (auto simp: log_of_def LOG_CHANNEL_def)

text \<open>The sample build prints two lines, of which the loop takes out one.\<close>

theorem forwarded_log_bounded_witness:
  "\<exists>w' lost. heartbeat_loop (logged_send (\<lambda>k. k) [7]) logged_recv 1 [LogTurn (hd (log_of 1 1 [''warning'']))] ''starting''
      \<lparr>wk_link = ((0, sample_leased, []), []), wk_index = [], wk_imports = []\<rparr> = (Inr (), w') \<and>
    request_lines (map fst (snd (wk_link w'))) @ lost = log_of 1 1 [''warning'', ''/nix/store/x-out'']"
proof -
  let ?outs = "log_of 1 1 [''warning'', ''/nix/store/x-out'']"
  let ?w = "\<lparr>wk_link = ((0, sample_leased, []), []), wk_index = [], wk_imports = []\<rparr> :: logged_link worker"
  have "is_str ''warning''" "is_str ''/nix/store/x-out''" by code_simp+
  then have build: "execute_build_with_logs (\<lambda>_. Inr (sample_stdout, [], Inr (Some 0))) ''/nix/store/x.drv'' 1 =
      (Inr [''/nix/store/x-out''], ?outs, [])"
    by (simp add: execute_build_with_logs_def read_lines_def sample_lines output_paths_def starts_with_def, simp add: log_of_def lines_def of_bytes_def)
  have "length ?outs \<le> LOG_CHANNEL" by (simp add: log_of_def LOG_CHANNEL_def)
  note fill = channel_fills [OF this]
  have "pipe_run True (start_pipe ?outs []) \<lparr>lp_out = [], lp_err = [], lp_log = tl ?outs, lp_statuses = [''building''], lp_building = True,
      lp_cancelled = True, lp_turns = [LogTurn (hd ?outs)], lp_left = True\<rparr>"
    using pipe_run.stepped [OF pipe_run.stepped [OF pipe_run.stepped [OF fill pipe_step.log_line, of "hd ?outs" "tl ?outs"] pipe_step.build_ends] pipe_step.cancelled]
    by (simp add: start_pipe_def log_of_def)
  from forwarded_log_bounded [OF build this, of ?w 0 sample_leased "\<lambda>k. k" "[7]"] show ?thesis
    by (simp add: log_of_def) blast
qed

end
