(* ===== verification/Event_Runs.thy ===== *)
theory Event_Runs
  imports Rust_Prelude
begin

text \<open>
  Runs of a component by events: \<open>event_system\<close> is what the daemon and the gossip receiver have in
  common, a run function that lets each event act in turn and fails at one that is not enabled.
\<close>

locale event_system =
  fixes enabled :: "'e \<Rightarrow> 's \<Rightarrow> bool"
    and act :: "'e \<Rightarrow> 's \<Rightarrow> 's"
    and run :: "'e list \<Rightarrow> 's \<Rightarrow> 's option"
  assumes run_Nil: "run [] s = Some s"
    and run_Cons: "run (e # es) s = (if enabled e s then run es (act e s) else None)"
begin

lemma run_append: "run (es @ fs) s = Option.bind (run es s) (run fs)"
  by (induction es arbitrary: s) (simp_all add: run_Nil run_Cons)

text \<open>A predicate that every permitted event keeps holds after every run of permitted events.\<close>

lemma run_keeps:
  assumes "\<And>e s. I s \<Longrightarrow> enabled e s \<Longrightarrow> permitted e \<Longrightarrow> I (act e s)"
    and "I s" "list_all permitted es" "run es s = Some s'"
  shows "I s'"
  using assms(2-4)
proof (induction es arbitrary: s)
  case (Cons e es)
  then show ?case using assms(1) [of s e] by (auto simp: run_Cons split: if_splits)
qed (simp add: run_Nil)

text \<open>What relates a state to the next, reflexively and transitively, relates it to the last.\<close>

lemma run_relates:
  assumes "\<And>e s. I s \<Longrightarrow> enabled e s \<Longrightarrow> I (act e s) \<and> R s (act e s)" "\<And>s. R s s" "\<And>s t u. R s t \<Longrightarrow> R t u \<Longrightarrow> R s u"
    and "I s" "run es s = Some s'"
  shows "I s' \<and> R s s'"
proof -
  have "I s' \<and> R s s'"
    by (rule run_keeps [where I = "\<lambda>t. I t \<and> R s t" and permitted = "\<lambda>_. True" and s = s and es = es])
      (use assms in \<open>auto simp: list_all_iff\<close>)
  then show ?thesis .
qed

end

end
