(* ===== verification/Daemon.thy ===== *)
theory Daemon
  imports Commands Control Gc Event_Runs
begin

text \<open>
  The running daemon: the tasks \<open>run_daemon\<close> (\<open>main.rs\<close>) starts on one node and what happens to
  them. The accept loops of the HTTP cache (\<open>substituter.rs\<close>), of the QUIC endpoint (\<open>node.rs\<close>) and
  of the control socket (\<open>control.rs\<close>) and the cleanup loop (\<open>gc.rs\<close>) are each a function of what
  its \<open>select!\<close> picks; a connection they accept gets a handler of its own, which outlives them.
  An event of the daemon is a turn of one loop, a request on an open connection, a message of the
  gossip topic or an insertion by the builder task, in any order.
\<close>

section \<open>State\<close>

datatype server = HttpServer | QuicServer | ControlServer | CleanupLoop

datatype handler = HttpHandler | RoutedHandler route_to | ControlHandler

text \<open>
  The environment: what the node sees of the world, how it shows ids, the decoder and the check
  of gossip messages and the protocol name of the gossip library.
\<close>

record daemon_env =
  de_node :: node_env
  de_show_id :: "endpoint_id \<Rightarrow> string"
  de_decode_gossip :: "byte list \<Rightarrow> string + gossip_message"
  de_valid_id :: "byte list \<Rightarrow> bool"
  de_gossip_alpn :: "byte list"

text \<open>
  \<open>rn_builders\<close> are the open build-queue connections with their authenticated remote ids,
  \<open>rn_controls\<close> the open control connections, \<open>rn_handlers\<close> all handlers ever started, \<open>rn_prune\<close> the
  entries a cleanup still has to look at.
\<close>

record 'u running =
  rn_node :: "'u node"
  rn_servers :: "server list"
  rn_cancelled :: bool
  rn_builders :: "(nat, endpoint_id) hmap"
  rn_controls :: "nat list"
  rn_handlers :: "handler list"
  rn_socket :: bool
  rn_prune :: "hash_entry list"

section \<open>Starting\<close>

text \<open>
  The start of the control socket: a stale file is removed, the socket bound and its permissions
  set. The second component is whether the file exists afterwards.
\<close>

definition control_listen :: "bool \<Rightarrow> io_error option \<Rightarrow> io_error option \<Rightarrow> io_error option \<Rightarrow> unit result \<times> bool" where
  "control_listen exists remove_error bind_error chmod_error =
     (case (if exists then remove_error else None) of
        Some (kind, e) \<Rightarrow> (throw (Io kind e), True)
      | None \<Rightarrow>
          (case bind_error of
             Some (kind, e) \<Rightarrow> (throw (Io kind e), False)
           | None \<Rightarrow> (case chmod_error of Some (kind, e) \<Rightarrow> (throw (Io kind e), True) | None \<Rightarrow> (Inr (), True))))"

text \<open>
  The tasks of a daemon with its configuration. A task that fails to start only logs its error.
\<close>

definition start_tasks :: "unit result \<Rightarrow> unit result \<times> bool \<Rightarrow> daemon \<Rightarrow> 'u node \<Rightarrow> 'u running" where
  "start_tasks http_bound control_bound dm nd =
     (let control = (if dm_control dm = None then None else Some control_bound)
      in \<lparr>rn_node = nd,
          rn_servers = (if is_ok http_bound then [HttpServer] else []) @ [QuicServer] @
            (case control of Some (Inr _, _) \<Rightarrow> [ControlServer] | _ \<Rightarrow> []) @
            (if dm_cleanup dm \<noteq> None then [CleanupLoop] else []),
          rn_cancelled = False, rn_builders = [], rn_controls = [], rn_handlers = [],
          rn_socket = (case control of Some (_, exists) \<Rightarrow> exists | None \<Rightarrow> False), rn_prune = []\<rparr>)"

section \<open>The accept loops\<close>

definition stop_server :: "server \<Rightarrow> 'u running \<Rightarrow> 'u running" where
  "stop_server sv s = s\<lparr>rn_servers := filter (\<lambda>x. x \<noteq> sv) (rn_servers s)\<rparr>"

definition spawn_handler :: "handler \<Rightarrow> 'u running \<Rightarrow> 'u running" where
  "spawn_handler h s = s\<lparr>rn_handlers := rn_handlers s @ [h]\<rparr>"

datatype http_select = HttpCancelled | HttpAccepted | HttpAcceptFailed string

fun http_turn :: "http_select \<Rightarrow> 'u running \<Rightarrow> 'u running" where
  "http_turn HttpCancelled s = stop_server HttpServer s"
| "http_turn HttpAccepted s = spawn_handler HttpHandler s"
| "http_turn (HttpAcceptFailed e) s = s"

text \<open>
  An incoming connection of the endpoint gives its number, protocol name and remote id, or the
  error of accepting it, which ends its task. The build-queue handler waits for the stream of the
  builder before it serves; \<open>stream_error\<close> is the error of that.
\<close>

datatype quic_select =
  QuicCancelled
| EndpointClosed
| Incoming "string + nat \<times> byte list \<times> endpoint_id" "string option"

fun quic_turn :: "byte list \<Rightarrow> quic_select \<Rightarrow> 'u running \<Rightarrow> 'u running" where
  "quic_turn gossip_alpn QuicCancelled s = stop_server QuicServer s"
| "quic_turn gossip_alpn EndpointClosed s = stop_server QuicServer s"
| "quic_turn gossip_alpn (Incoming (Inl e) stream_error) s = s"
| "quic_turn gossip_alpn (Incoming (Inr (c, alpn, remote)) stream_error) s =
     (let route = serve_route gossip_alpn alpn (rn_node s); s1 = spawn_handler (RoutedHandler route) s
      in if route = BuildQueueHandler \<and> stream_error = None
         then s1\<lparr>rn_builders := hm_insert c remote (rn_builders s1)\<rparr> else s1)"

datatype control_select = ControlCancelled | ControlAccepted nat | ControlAcceptFailed string

fun control_turn :: "control_select \<Rightarrow> 'u running \<Rightarrow> 'u running" where
  "control_turn ControlCancelled s = (stop_server ControlServer s)\<lparr>rn_socket := False\<rparr>"
| "control_turn (ControlAccepted c) s =
     (let s1 = spawn_handler ControlHandler s in s1\<lparr>rn_controls := c # rn_controls s1\<rparr>)"
| "control_turn (ControlAcceptFailed e) s = s"

text \<open>
  A cleanup lists the index under one lock and visits the entries one by one, each deletion under a
  lock of its own; other tasks may run in between.
\<close>

datatype cleanup_select =
  CleanupCancelled
| CleanupTicks "string option"
| PruneNext "string \<Rightarrow> bool" "string option"

definition set_index :: "index_table \<Rightarrow> 'u running \<Rightarrow> 'u running" where
  "set_index t s = s\<lparr>rn_node := (rn_node s)\<lparr>nd_index := t\<rparr>\<rparr>"

fun cleanup_loop_turn :: "bool \<Rightarrow> cleanup_select \<Rightarrow> 'u running \<Rightarrow> 'u running" where
  "cleanup_loop_turn poisoned CleanupCancelled s = stop_server CleanupLoop s"
| "cleanup_loop_turn poisoned (CleanupTicks sql) s =
     s\<lparr>rn_prune := (case rbind (lock_or_err poisoned ()) (\<lambda>_. list_all_entries sql (nd_index (rn_node s))) of
        Inl _ \<Rightarrow> [] | Inr entries \<Rightarrow> entries)\<rparr>"
| "cleanup_loop_turn poisoned (PruneNext exists sql) s =
     (case rn_prune s of
        [] \<Rightarrow> s
      | e # es \<Rightarrow>
          (let t = nd_index (rn_node s) in
           set_index (if exists (he_store_path e) then t
             else case lock_or_err poisoned () of Inl _ \<Rightarrow> t | Inr _ \<Rightarrow> snd (delete_by_blake3 sql (he_blake3 e) t))
             (s\<lparr>rn_prune := es\<rparr>)))"

section \<open>Events\<close>

datatype daemon_event =
  CancelToken
| HttpTurn http_select
| QuicTurn quic_select
| ControlTurn control_select
| CleanupTurn cleanup_select
| BuilderRequest nat nat nat build_queue_request
| ControlCall nat u64 control_request
| HangUp nat
| GossipArrives gossip_event
| Indexed hash_entry

text \<open>A loop sees the cancellation only once it was asked for; a submission needs a free job id.\<close>

fun event_enabled :: "daemon_event \<Rightarrow> 'u running \<Rightarrow> bool" where
  "event_enabled CancelToken s = True"
| "event_enabled (HttpTurn t) s = (HttpServer \<in> set (rn_servers s) \<and> (t = HttpCancelled \<longrightarrow> rn_cancelled s))"
| "event_enabled (QuicTurn t) s = (QuicServer \<in> set (rn_servers s) \<and> (t = QuicCancelled \<longrightarrow> rn_cancelled s) \<and>
     (case t of Incoming (Inr (c, _)) _ \<Rightarrow> hm_get c (rn_builders s) = None \<and> c \<notin> set (rn_controls s) | _ \<Rightarrow> True))"
| "event_enabled (ControlTurn t) s = (ControlServer \<in> set (rn_servers s) \<and> (t = ControlCancelled \<longrightarrow> rn_cancelled s) \<and>
     (case t of ControlAccepted c \<Rightarrow> hm_get c (rn_builders s) = None \<and> c \<notin> set (rn_controls s) | _ \<Rightarrow> True))"
| "event_enabled (CleanupTurn t) s = (CleanupLoop \<in> set (rn_servers s) \<and> (case t of
     CleanupCancelled \<Rightarrow> rn_cancelled s \<and> rn_prune s = [] | CleanupTicks _ \<Rightarrow> rn_prune s = [] | PruneNext _ _ \<Rightarrow> True))"
| "event_enabled (BuilderRequest c t1 t2 req) s = (hm_get c (rn_builders s) \<noteq> None \<and> nd_queue (rn_node s) \<noteq> None)"
| "event_enabled (ControlCall c now req) s = (c \<in> set (rn_controls s) \<and>
     (case nd_queue (rn_node s) of None \<Rightarrow> False | Some q \<Rightarrow> (case req of SubmitBuild _ _ _ _ _ \<Rightarrow> counter_room q | _ \<Rightarrow> True)))"
| "event_enabled (HangUp c) s = True"
| "event_enabled (GossipArrives ev) s = (nd_gossip (rn_node s) \<noteq> None)"
| "event_enabled (Indexed e) s = sized_entry e"

definition on_queue :: "(build_queue \<Rightarrow> build_queue) \<Rightarrow> 'u node \<Rightarrow> 'u node" where
  "on_queue f nd = nd\<lparr>nd_queue := map_option f (nd_queue nd)\<rparr>"

definition on_node :: "('u node \<Rightarrow> 'u node) \<Rightarrow> 'u running \<Rightarrow> 'u running" where
  "on_node f s = s\<lparr>rn_node := f (rn_node s)\<rparr>"

text \<open>A control request may end with an announcement, whose failure is only logged.\<close>

definition control_on_node :: "daemon_env \<Rightarrow> u64 \<Rightarrow> control_request \<Rightarrow> 'u node \<Rightarrow> 'u node" where
  "control_on_node de now req nd =
     (case (nd_queue nd, nd_gossip nd) of
        (Some q, Some g) \<Rightarrow>
          (case handle_control_request (ne_blake3 (de_node de)) (de_show_id de) now req q of
             (resp, q', anns) \<Rightarrow> nd\<lparr>nd_queue := Some q', nd_sent := nd_sent nd @
               concat (map (\<lambda>fs. snd (announce_need_builder (ne_encode_gossip (de_node de)) (ne_broadcast (de_node de)) fs g)) anns)\<rparr>)
      | _ \<Rightarrow> nd)"

fun do_event :: "daemon_env \<Rightarrow> daemon_event \<Rightarrow> 'u running \<Rightarrow> 'u running" where
  "do_event de CancelToken s = s\<lparr>rn_cancelled := True\<rparr>"
| "do_event de (HttpTurn t) s = http_turn t s"
| "do_event de (QuicTurn t) s = quic_turn (de_gossip_alpn de) t s"
| "do_event de (ControlTurn t) s = control_turn t s"
| "do_event de (CleanupTurn t) s = cleanup_loop_turn (ne_poisoned (de_node de)) t s"
| "do_event de (BuilderRequest c t1 t2 req) s =
     (case hm_get c (rn_builders s) of
        Some b \<Rightarrow> on_node (on_queue (\<lambda>q. snd (handle_build_queue_request t1 t2 b req q))) s | None \<Rightarrow> s)"
| "do_event de (ControlCall c now req) s = on_node (control_on_node de now req) s"
| "do_event de (HangUp c) s = s\<lparr>rn_builders := hm_remove c (rn_builders s), rn_controls := removeAll c (rn_controls s)\<rparr>"
| "do_event de (GossipArrives ev) s =
     on_node (\<lambda>nd. nd\<lparr>nd_gossip := map_option (receive_event (de_decode_gossip de) (de_valid_id de) ev) (nd_gossip nd)\<rparr>) s"
| "do_event de (Indexed e) s = set_index (snd (index_insert None e (nd_index (rn_node s)))) s"

fun daemon_run :: "daemon_env \<Rightarrow> daemon_event list \<Rightarrow> 'u running \<Rightarrow> 'u running option" where
  "daemon_run de [] s = Some s"
| "daemon_run de (e # es) s = (if event_enabled e s then daemon_run de es (do_event de e s) else None)"

interpretation daemon: event_system event_enabled "do_event de" "daemon_run de" for de
  by unfold_locales simp_all

section \<open>A cleanup that nothing interrupts\<close>

text \<open>The turns of one cleanup, nothing in between, do what \<open>run_stale_cleanup\<close> does in one go.\<close>

lemma prune_turns:
  "fold (\<lambda>_. cleanup_loop_turn False (PruneNext exists None)) es (s\<lparr>rn_prune := es\<rparr>) =
     set_index (snd (prune_loop exists False (\<lambda>_. None) (\<lambda>_ t. t) k es (nd_index (rn_node s)))) (s\<lparr>rn_prune := []\<rparr>)"
proof (induction es arbitrary: s k)
  case (Cons e es)
  define t1 where "t1 = (if exists (he_store_path e) then nd_index (rn_node s)
        else snd (delete_by_blake3 None (he_blake3 e) (nd_index (rn_node s))))"
  have "cleanup_loop_turn False (PruneNext exists None) (s\<lparr>rn_prune := e # es\<rparr>) = (set_index t1 s)\<lparr>rn_prune := es\<rparr>"
    by (simp add: Let_def set_index_def t1_def)
  moreover have "snd (prune_loop exists False (\<lambda>_. None) (\<lambda>_ t. t) k (e # es) (nd_index (rn_node s))) =
      snd (prune_loop exists False (\<lambda>_. None) (\<lambda>_ t. t) 0 es t1)"
    by (simp add: prune_loop_alone t1_def split: prod.split)
  moreover have "set_index t ((set_index t1 s)\<lparr>rn_prune := []\<rparr>) = set_index t (s\<lparr>rn_prune := []\<rparr>)"
    "nd_index (rn_node (set_index t1 s)) = t1" for t
    by (simp_all add: set_index_def)
  ultimately show ?case using Cons.IH [of "set_index t1 s" 0] by (simp del: cleanup_loop_turn.simps prune_loop.simps)
qed (simp add: set_index_def)

lemma cleanup_turns:
  assumes "table_ok (nd_index (rn_node s))"
  shows "fold (\<lambda>_. cleanup_loop_turn False (PruneNext exists None)) (map row_entry (nd_index (rn_node s)))
      (cleanup_loop_turn False (CleanupTicks None) s) =
    set_index (snd (run_stale_cleanup exists False (\<lambda>_. None) (\<lambda>_ t. t) (nd_index (rn_node s)))) (s\<lparr>rn_prune := []\<rparr>)"
proof -
  have "list_all_entries None (nd_index (rn_node s)) = Inr (map row_entry (nd_index (rn_node s)))"
    using assms by (simp add: list_all_entries_def with_sql_def table_ok_def entries_of_ok)
  then show ?thesis by (simp add: prune_turns [where k = 1] run_stale_cleanup_def Let_def)
qed

text \<open>The turns of the loops leave the node alone, but for the cleanup, which edits its index.\<close>

lemma turn_node:
  "rn_node (http_turn t1 s) = rn_node s" "rn_node (quic_turn a t2 s) = rn_node s" "rn_node (control_turn t3 s) = rn_node s"
  "\<exists>t. rn_node (cleanup_loop_turn p t4 s) = (rn_node s)\<lparr>nd_index := t\<rparr>"
proof -
  show "rn_node (http_turn t1 s) = rn_node s"
    by (cases t1) (simp_all add: stop_server_def spawn_handler_def)
  show "rn_node (quic_turn a t2 s) = rn_node s"
    by (cases t2; cases "case t2 of Incoming r se \<Rightarrow> r | _ \<Rightarrow> Inl []") (auto simp: stop_server_def spawn_handler_def Let_def)
  show "rn_node (control_turn t3 s) = rn_node s"
    by (cases t3) (simp_all add: stop_server_def spawn_handler_def Let_def)
  have same: "rn_node s = (rn_node s)\<lparr>nd_index := nd_index (rn_node s)\<rparr>" by simp
  show "\<exists>t. rn_node (cleanup_loop_turn p t4 s) = (rn_node s)\<lparr>nd_index := t\<rparr>"
  proof (cases "\<exists>exists sql e es. t4 = PruneNext exists sql \<and> rn_prune s = e # es")
    case False
    then have "rn_node (cleanup_loop_turn p t4 s) = rn_node s"
      by (cases t4; cases "rn_prune s") (auto simp: stop_server_def)
    with same show ?thesis by metis
  qed (auto simp: set_index_def Let_def)
qed

section \<open>The invariant\<close>

definition node_inv :: "(byte list \<Rightarrow> hash32) \<Rightarrow> 'u node \<Rightarrow> bool" where
  "node_inv blake3 nd \<longleftrightarrow> table_ok (nd_index nd) \<and>
     (case nd_queue nd of None \<Rightarrow> True | Some q \<Rightarrow> queue_wf blake3 q \<and> outcomes_ok q) \<and>
     (case nd_gossip nd of None \<Rightarrow> True | Some g \<Rightarrow> caches_wf g)"

text \<open>Open build-queue connections and control connections exist only on a node with a queue.\<close>

definition running_ok :: "(byte list \<Rightarrow> hash32) \<Rightarrow> 'u running \<Rightarrow> bool" where
  "running_ok blake3 s \<longleftrightarrow> node_inv blake3 (rn_node s) \<and> hm_wf (rn_builders s) \<and>
     (rn_builders s \<noteq> [] \<longrightarrow> nd_queue (rn_node s) \<noteq> None)"

lemma table_ok_delete: "table_ok t \<Longrightarrow> table_ok (snd (delete_by_blake3 sql h t))"
  by (simp add: delete_by_blake3_def table_ok_filter split: option.split)

lemma outcomes_push: "outcomes_ok q \<Longrightarrow> outcomes_ok (snd (push blake3 now p fs os ins q))"
  by (simp add: outcomes_ok_def get_outcome_def push_def Let_def)

lemma control_keeps:
  assumes "queue_wf blake3 q" "outcomes_ok q" "case req of SubmitBuild _ _ _ _ _ \<Rightarrow> counter_room q | _ \<Rightarrow> True"
    and "handle_control_request blake3 show_id now req q = (resp, q', anns)"
  shows "queue_wf blake3 q' \<and> outcomes_ok q'"
proof (cases req)
  case (SubmitBuild p sys fs ins os)
  with assms push_wf [OF assms(1)] outcomes_push [OF assms(2)] show ?thesis
    by (auto simp: Let_def split: prod.splits) (metis snd_conv)+
next
  case (CancelBuild jid)
  with assms fail_eqs(2) [OF assms(1)] outcomes_fail [OF assms(2)] show ?thesis
    by (auto split: option.splits)
qed (use assms in auto)

text \<open>What a control request does to the status of a job: it queues a new one or cancels one.\<close>

lemma control_status:
  assumes "queue_wf blake3 q" "case req of SubmitBuild _ _ _ _ _ \<Rightarrow> counter_room q | _ \<Rightarrow> True"
    and "handle_control_request blake3 show_id now req q = (resp, q', anns)" "req \<noteq> CancelBuild j" "status_of q j \<noteq> Unborn"
  shows "status_of q' j = status_of q j"
proof (cases req)
  case (SubmitBuild p sys fs ins os)
  let ?ins = "map (\<lambda>ip. \<lparr>ip_store_path = ii_store_path ip, ip_blake3 = ii_blake3 ip\<rparr>) ins"
  obtain jid ann q1 where p: "push blake3 now p (sys # fs) os ?ins q = ((jid, ann), q1)" by (metis prod.exhaust)
  with SubmitBuild assms(3) have "q' = q1" by (simp add: Let_def)
  with push_status [OF assms(1) _ p] assms(2,5) SubmitBuild show ?thesis by auto
next
  case (CancelBuild jid)
  with assms(3) fail_eqs(3) [OF assms(1)] assms(4) show ?thesis
    by (auto split: option.splits if_splits)
qed (use assms(3) in auto)

lemma node_ok_fields:
  "node_inv blake3 nd \<Longrightarrow> table_ok t \<Longrightarrow> node_inv blake3 (nd\<lparr>nd_index := t\<rparr>)"
  "node_inv blake3 nd \<Longrightarrow> queue_wf blake3 q \<Longrightarrow> outcomes_ok q \<Longrightarrow> node_inv blake3 (nd\<lparr>nd_queue := Some q\<rparr>)"
  "node_inv blake3 nd \<Longrightarrow> node_inv blake3 (nd\<lparr>nd_sent := sent\<rparr>)"
  "node_inv blake3 nd \<Longrightarrow> caches_wf g \<Longrightarrow> node_inv blake3 (nd\<lparr>nd_gossip := Some g\<rparr>)"
  by (simp_all add: node_inv_def)

lemma control_on_node_ok:
  assumes "node_inv (ne_blake3 (de_node de)) nd"
    and "case nd_queue nd of None \<Rightarrow> False | Some q \<Rightarrow> (case req of SubmitBuild _ _ _ _ _ \<Rightarrow> counter_room q | _ \<Rightarrow> True)"
  shows "node_inv (ne_blake3 (de_node de)) (control_on_node de now req nd)"
    and "nd_queue (control_on_node de now req nd) \<noteq> None"
proof -
  obtain q where q: "nd_queue nd = Some q" "case req of SubmitBuild _ _ _ _ _ \<Rightarrow> counter_room q | _ \<Rightarrow> True"
    using assms(2) by (cases "nd_queue nd") auto
  obtain resp q' anns where h: "handle_control_request (ne_blake3 (de_node de)) (de_show_id de) now req q = (resp, q', anns)"
    by (metis prod.exhaust)
  have "queue_wf (ne_blake3 (de_node de)) q' \<and> outcomes_ok q'"
    using control_keeps [OF _ _ q(2) h] assms(1) q(1) by (simp add: node_inv_def)
  with assms(1) q(1) h show "node_inv (ne_blake3 (de_node de)) (control_on_node de now req nd)"
    by (auto simp: control_on_node_def node_inv_def split: option.split)
  show "nd_queue (control_on_node de now req nd) \<noteq> None"
    using q(1) h by (auto simp: control_on_node_def split: option.split)
qed

lemma set_index_ok: "running_ok blake3 s \<Longrightarrow> table_ok t \<Longrightarrow> running_ok blake3 (set_index t s)"
  by (simp add: running_ok_def set_index_def node_inv_def)

lemma running_ok_prune [simp]: "running_ok blake3 (s\<lparr>rn_prune := es\<rparr>) = running_ok blake3 s"
  by (simp add: running_ok_def)

lemma do_event_ok:
  assumes "running_ok (ne_blake3 (de_node de)) s" "event_enabled e s"
  shows "running_ok (ne_blake3 (de_node de)) (do_event de e s)"
proof -
  let ?b = "ne_blake3 (de_node de)"
  have ok: "node_inv ?b (rn_node s)" "table_ok (nd_index (rn_node s))" "hm_wf (rn_builders s)"
    and open_queue: "rn_builders s \<noteq> [] \<Longrightarrow> nd_queue (rn_node s) \<noteq> None"
    using assms(1) by (auto simp: running_ok_def node_inv_def)
  show ?thesis
  proof (cases e)
    case (HttpTurn t)
    with assms(1) show ?thesis by (cases t) (auto simp: running_ok_def stop_server_def spawn_handler_def)
  next
    case (QuicTurn t)
    with assms(1) show ?thesis
      by (cases t; cases "case t of Incoming r se \<Rightarrow> r | _ \<Rightarrow> Inl []")
        (auto simp: running_ok_def stop_server_def spawn_handler_def Let_def serve_route_def build_enabled_def split: if_splits)
  next
    case (ControlTurn t)
    with assms(1) show ?thesis by (cases t) (auto simp: running_ok_def stop_server_def spawn_handler_def Let_def)
  next
    case (CleanupTurn t)
    show ?thesis
    proof (cases t)
      case CleanupCancelled
      with CleanupTurn assms(1) show ?thesis by (simp add: running_ok_def stop_server_def)
    next
      case (PruneNext exists sql)
      with CleanupTurn assms(1) ok(2) table_ok_delete [OF ok(2)] show ?thesis
        by (cases "rn_prune s") (auto intro!: set_index_ok simp: Let_def split: sum.split)
    qed (use CleanupTurn assms(1) in simp)
  next
    case (BuilderRequest c t1 t2 req)
    then obtain b q where b: "hm_get c (rn_builders s) = Some b" "nd_queue (rn_node s) = Some q" using assms(2) by auto
    with ok(1) have "queue_wf ?b q" "outcomes_ok q" by (simp_all add: node_inv_def)
    with handle_inv outcomes_handle BuilderRequest b assms(1) show ?thesis
      by (simp add: running_ok_def on_node_def on_queue_def node_inv_def)
  next
    case (ControlCall c now req)
    with assms control_on_node_ok [OF ok(1), of req now] show ?thesis
      by (auto simp: running_ok_def on_node_def)
  next
    case (HangUp c)
    moreover have "rn_builders s = [] \<Longrightarrow> hm_remove c (rn_builders s) = []" by (simp add: hm_remove_def)
    ultimately show ?thesis using assms(1) by (auto simp: running_ok_def)
  next
    case (GossipArrives ev)
    with assms(1) receive_event_wf show ?thesis
      by (auto simp: running_ok_def on_node_def node_inv_def split: option.splits)
  next
    case (Indexed en)
    with assms table_ok_insert [OF ok(2)] show ?thesis by (simp add: running_ok_def set_index_def node_inv_def)
  qed (use assms(1) in \<open>simp add: running_ok_def\<close>)
qed

lemma daemon_run_ok:
  "running_ok (ne_blake3 (de_node de)) s \<Longrightarrow> daemon_run de es s = Some s' \<Longrightarrow> running_ok (ne_blake3 (de_node de)) s'"
  by (rule daemon.run_keeps [where permitted = "\<lambda>_. True" and es = es]) (auto simp: list_all_iff intro: do_event_ok)

section \<open>A lease of a builder that is gone\<close>

text \<open>No open connection is the builder's, and no event lets it in again or cancels the job.\<close>

definition stays_away :: "endpoint_id \<Rightarrow> job_id \<Rightarrow> daemon_event \<Rightarrow> bool" where
  "stays_away b j e \<longleftrightarrow> (case e of
     QuicTurn (Incoming (Inr (_, _, remote)) _) \<Rightarrow> remote \<noteq> b
   | ControlCall _ _ req \<Rightarrow> req \<noteq> CancelBuild j
   | _ \<Rightarrow> True)"

definition leased_to :: "endpoint_id \<Rightarrow> job_id \<Rightarrow> 'u node \<Rightarrow> bool" where
  "leased_to b j nd \<longleftrightarrow> (case nd_queue nd of None \<Rightarrow> False | Some q \<Rightarrow> status_of q j = Leased b)"

lemma do_event_lease:
  assumes "running_ok (ne_blake3 (de_node de)) s" "event_enabled e s" "stays_away b j e"
    and "b \<notin> snd ` set (rn_builders s)" "leased_to b j (rn_node s)"
  shows "b \<notin> snd ` set (rn_builders (do_event de e s)) \<and> leased_to b j (rn_node (do_event de e s))"
proof -
  obtain q where q: "nd_queue (rn_node s) = Some q" "status_of q j = Leased b"
    using assms(5) by (auto simp: leased_to_def split: option.splits)
  have wf: "queue_wf (ne_blake3 (de_node de)) q" using assms(1) q(1) by (simp add: running_ok_def node_inv_def)
  show ?thesis
  proof (cases e)
    case (HttpTurn t)
    with assms(4,5) show ?thesis by (cases t) (auto simp: stop_server_def spawn_handler_def)
  next
    case (QuicTurn t)
    with assms(3-5) show ?thesis
      by (cases t; cases "case t of Incoming r se \<Rightarrow> r | _ \<Rightarrow> Inl []")
        (auto simp: stop_server_def spawn_handler_def Let_def stays_away_def set_hm_insert split: if_splits)
  next
    case (ControlTurn t)
    with assms(4,5) show ?thesis by (cases t) (auto simp: stop_server_def spawn_handler_def Let_def)
  next
    case (CleanupTurn t)
    with assms(4,5) show ?thesis
      by (cases t) (auto simp: stop_server_def set_index_def leased_to_def Let_def split: list.split)
  next
    case (BuilderRequest c t1 t2 req)
    then obtain b' where b': "hm_get c (rn_builders s) = Some b'" using assms(2) by auto
    then have "b' \<noteq> b" using assms(4) by (force dest!: hm_get_SomeD)
    then have "status_of (snd (handle_build_queue_request t1 t2 b' req q)) j = Leased b"
      using handle_status [OF wf, of t1 t2 b' req j] q(2) by auto
    with BuilderRequest b' q(1) assms(4) show ?thesis by (simp add: on_node_def on_queue_def leased_to_def)
  next
    case (ControlCall c now req)
    obtain resp q' anns where h: "handle_control_request (ne_blake3 (de_node de)) (de_show_id de) now req q = (resp, q', anns)"
      by (metis prod.exhaust)
    have "status_of q' j = Leased b"
      using control_status [OF wf _ h] assms(2,3) ControlCall q by (simp add: stays_away_def)
    with ControlCall q h assms(4,5) show ?thesis
      by (auto simp: on_node_def control_on_node_def leased_to_def split: option.split)
  next
    case (HangUp c)
    with assms(4,5) show ?thesis by (auto simp: set_hm_remove)
  next
    case (GossipArrives ev)
    with assms(4,5) show ?thesis by (simp add: on_node_def leased_to_def)
  next
    case (Indexed en)
    with assms(4,5) show ?thesis by (simp add: set_index_def leased_to_def)
  qed (use assms(4,5) in simp)
qed

lemma daemon_run_lease:
  assumes "running_ok (ne_blake3 (de_node de)) s" "daemon_run de es s = Some s'" "list_all (stays_away b j) es"
    and "b \<notin> snd ` set (rn_builders s)" "leased_to b j (rn_node s)"
  shows "b \<notin> snd ` set (rn_builders s') \<and> leased_to b j (rn_node s')"
proof -
  let ?I = "\<lambda>s. running_ok (ne_blake3 (de_node de)) s \<and> b \<notin> snd ` set (rn_builders s) \<and> leased_to b j (rn_node s)"
  have "?I s'"
    by (rule daemon.run_keeps [where I = ?I and permitted = "stays_away b j" and es = es])
      (use assms do_event_ok do_event_lease in blast)+
  then show ?thesis by blast
qed

section \<open>Stopping\<close>

text \<open>What a loop does when it sees the cancellation.\<close>

fun cancel_turn :: "server \<Rightarrow> daemon_event" where
  "cancel_turn HttpServer = HttpTurn HttpCancelled"
| "cancel_turn QuicServer = QuicTurn QuicCancelled"
| "cancel_turn ControlServer = ControlTurn ControlCancelled"
| "cancel_turn CleanupLoop = CleanupTurn CleanupCancelled"

text \<open>The events that a daemon without loops still has.\<close>

lemma stopped_step:
  assumes "rn_servers s = []" "event_enabled e s"
  shows "rn_servers (do_event de e s) = [] \<and> rn_handlers (do_event de e s) = rn_handlers s \<and>
    set (rn_builders (do_event de e s)) \<subseteq> set (rn_builders s) \<and> set (rn_controls (do_event de e s)) \<subseteq> set (rn_controls s)"
  using assms by (cases e) (auto simp: on_node_def set_index_def hm_remove_def split: option.split)

definition only_closes :: "'u running \<Rightarrow> 'u running \<Rightarrow> bool" where
  "only_closes s t \<longleftrightarrow> rn_handlers t = rn_handlers s \<and> set (rn_builders t) \<subseteq> set (rn_builders s) \<and>
     set (rn_controls t) \<subseteq> set (rn_controls s)"

lemma stopped_run:
  assumes "rn_servers s = []" "daemon_run de es s = Some s'"
  shows "rn_servers s' = [] \<and> only_closes s s'"
  by (rule daemon.run_relates [where I = "\<lambda>s. rn_servers s = []" and R = only_closes and de = de and es = es])
    (use assms in \<open>auto simp: only_closes_def dest: stopped_step [where de = de]\<close>)

lemma cancel_step:
  assumes "sv \<in> set (rn_servers s)" "rn_cancelled s" "rn_prune s = []"
  shows "event_enabled (cancel_turn sv) s \<and> rn_servers (do_event de (cancel_turn sv) s) = filter (\<lambda>x. x \<noteq> sv) (rn_servers s) \<and>
    rn_cancelled (do_event de (cancel_turn sv) s) \<and> rn_prune (do_event de (cancel_turn sv) s) = [] \<and>
    rn_node (do_event de (cancel_turn sv) s) = rn_node s \<and> rn_builders (do_event de (cancel_turn sv) s) = rn_builders s \<and>
    rn_socket (do_event de (cancel_turn sv) s) = (rn_socket s \<and> sv \<noteq> ControlServer)"
  by (cases sv; use assms in \<open>simp add: stop_server_def\<close>)

lemma cancel_all:
  assumes "distinct (rn_servers s)" "rn_cancelled s" "rn_prune s = []"
  shows "\<exists>s'. daemon_run de (map cancel_turn (rn_servers s)) s = Some s' \<and> rn_servers s' = [] \<and>
    rn_node s' = rn_node s \<and> rn_builders s' = rn_builders s \<and> rn_socket s' = (rn_socket s \<and> ControlServer \<notin> set (rn_servers s))"
  using assms
proof (induction "rn_servers s" arbitrary: s)
  case (Cons sv svs)
  let ?s = "do_event de (cancel_turn sv) s"
  have sv: "rn_servers s = sv # svs" using Cons.hyps(2) by simp
  note c = cancel_step [of sv s de]
  have "rn_servers ?s = svs" using c Cons.prems sv by (auto simp: filter_id_conv)
  with Cons.hyps(1) [of ?s] c Cons.prems sv show ?case by auto
qed simp

section \<open>A sample daemon\<close>

definition sample_daemon_env :: daemon_env where
  "sample_daemon_env = \<lparr>de_node = sample_node_env\<lparr>ne_blake3 := no_hash\<rparr>, de_show_id = (\<lambda>_. ''id''),
     de_decode_gossip = (\<lambda>_. Inl ''bad''), de_valid_id = (\<lambda>_. True), de_gossip_alpn = [9]\<rparr>"

definition sample_config :: "nat node_config" where
  "sample_config = with_network_id ''net'' (with_substituters [] (with_secret_key 7 (node_config_new ''d'')))"

definition sample_tasks :: daemon where
  "sample_tasks = \<lparr>dm_substituter = substituter_default, dm_builder = None, dm_control = Some ''d/control.sock'', dm_cleanup = None\<rparr>"

text \<open>The node started from the sample configuration, and the daemon on it.\<close>

definition sample_running :: "build_queue \<Rightarrow> unit running" where
  "sample_running q = start_tasks (Inr ()) (Inr (), True) sample_tasks
     \<lparr>nd_id = [1], nd_index = [], nd_gossip = Some (gossip_new [1] False False), nd_queue = Some q,
      nd_http_cache = None, nd_sent = []\<rparr>"

lemma sample_running_simps [simp]:
  "rn_servers (sample_running q) = [HttpServer, QuicServer, ControlServer]"
  "rn_builders (sample_running q) = []" "rn_controls (sample_running q) = []" "rn_prune (sample_running q) = []"
  "nd_queue (rn_node (sample_running q)) = Some q" "nd_gossip (rn_node (sample_running q)) = Some (gossip_new [1] False False)"
  "nd_index (rn_node (sample_running q)) = []"
  by (simp_all add: sample_running_def start_tasks_def sample_tasks_def Let_def)

text \<open>Another builder connects and asks for work.\<close>

definition foreign_visit :: "daemon_event list" where
  "foreign_visit = [QuicTurn (Incoming (Inr (1, BUILD_QUEUE_PROTOCOL_ALPN, [8])) None),
     BuilderRequest 1 9 9 (Fail 1 ''mine''), ControlTurn (ControlAccepted 2), ControlCall 2 0 (PollBuild 1), HangUp 1]"

lemma foreign_visit_runs: "\<exists>s. daemon_run sample_daemon_env foreign_visit (sample_running q) = Some s"
proof -
  have "BUILD_QUEUE_PROTOCOL_ALPN \<noteq> [9]" by (simp add: BUILD_QUEUE_PROTOCOL_ALPN_def as_bytes_def)
  then show ?thesis
    by (simp add: foreign_visit_def sample_daemon_env_def serve_route_def build_enabled_def spawn_handler_def Let_def
        on_node_def on_queue_def)
qed

section \<open>Properties of the daemon\<close>

text \<open>
  C13: Whatever the daemon's tasks do, in any order, the index keeps its uniqueness constraints, the
  build queue its invariant and its outcomes, and the gossip caches theirs.
\<close>

theorem daemon_invariant:
  assumes "spawn (ne_blake3 (de_node de)) public from_key config mkdir_error key_loaded bind_error (Inr t) subscribe
      parse_url client_error = Inr nd" "table_ok t"
    and "daemon_run de es (start_tasks http_bound control_bound dm nd) = Some s"
  shows "node_inv (ne_blake3 (de_node de)) (rn_node s)"
proof -
  have "node_inv (ne_blake3 (de_node de)) nd"
    using spawn_services [OF assms(1)] assms(2)
    by (auto simp: node_inv_def new_queue_wf outcomes_new split: option.split)
  then have "running_ok (ne_blake3 (de_node de)) (start_tasks http_bound control_bound dm nd)"
    by (simp add: running_ok_def start_tasks_def Let_def)
  from daemon_run_ok [OF this assms(3)] show ?thesis by (simp add: running_ok_def)
qed

text \<open>
  C20: A lease outlives its builder: once no connection of the builder is open, the job stays leased to
  it through everything else the daemon does, however long, until the builder comes back or a
  client cancels the job. No other builder gets the job.
\<close>

theorem abandoned_lease_stays:
  assumes "running_ok (ne_blake3 (de_node de)) s" "leased_to b j (rn_node s)" "b \<notin> snd ` set (rn_builders s)"
    and "daemon_run de es s = Some s'" "list_all (stays_away b j) es"
  shows "leased_to b j (rn_node s')"
  using daemon_run_lease [OF assms(1,4,5,3,2)] by blast


theorem daemon_invariant_witness:
  "\<exists>s. daemon_run sample_daemon_env foreign_visit (sample_running (new_queue [1])) = Some s \<and> node_inv no_hash (rn_node s)"
proof -
  obtain s where s: "daemon_run sample_daemon_env foreign_visit (sample_running (new_queue [1])) = Some s"
    using foreign_visit_runs by blast
  let ?nd = "\<lparr>nd_id = [1], nd_index = [], nd_gossip = Some (gossip_new [1] False False), nd_queue = Some (new_queue [1]),
      nd_http_cache = None, nd_sent = []\<rparr> :: unit node"
  have b: "ne_blake3 (de_node sample_daemon_env) = no_hash" by (simp add: sample_daemon_env_def)
  have "spawn no_hash (\<lambda>_. [1]) (\<lambda>_. 7) sample_config None (Inr []) None (Inr []) (\<lambda>_ _. None) (\<lambda>_. Inl []) None = Inr ?nd"
    by (simp add: spawn_def sample_config_def with_network_id_def with_substituters_def with_secret_key_def
        node_config_new_def gossip_join_def with_callbacks_def Let_def)
  from daemon_invariant [OF this [folded b] table_ok_Nil s [unfolded sample_running_def]] s b show ?thesis by auto
qed

theorem abandoned_lease_stays_witness:
  "\<exists>s. daemon_run sample_daemon_env foreign_visit (sample_running sample_leased) = Some s \<and> leased_to [7] 1 (rn_node s)"
proof -
  obtain s where s: "daemon_run sample_daemon_env foreign_visit (sample_running sample_leased) = Some s"
    using foreign_visit_runs by blast
  have b: "ne_blake3 (de_node sample_daemon_env) = no_hash" by (simp add: sample_daemon_env_def)
  have "outcomes_ok sample_leased" by (simp add: outcomes_ok_def get_outcome_def sample_defs)
  then have "running_ok (ne_blake3 (de_node sample_daemon_env)) (sample_running sample_leased)"
    by (simp add: running_ok_def node_inv_def b sample_wf)
  moreover have "leased_to [7] 1 (rn_node (sample_running sample_leased))"
    by (simp add: leased_to_def status_of_def sample_defs hm_get_def)
  ultimately show ?thesis
    using abandoned_lease_stays [OF _ _ _ s, of "[7]" 1] s by (auto simp: foreign_visit_def stays_away_def)
qed


end
