(* ===== verification/Daemon_Machine.thy ===== *)
theory Daemon_Machine
  imports Daemon
begin

text \<open>
  The daemon's queue refines the abstract machine of \<open>Queue_Machine\<close>: each event of the daemon
  causes the queue events that its handler's case says, and the trace of a whole run, with builders,
  the control socket, gossip and the loops in any order, is a run of the machine. The daemon never
  calls \<open>check_timeouts\<close>, so no lease expires and no job is ever leased twice.
\<close>

section \<open>The queue events an event causes\<close>

definition finish_events :: "job_id \<Rightarrow> endpoint_id \<Rightarrow> build_queue \<Rightarrow> queue_event list" where
  "finish_events jid b q = (if status_of q jid = Leased b then [Finish jid b] else [])"

fun request_events :: "nat \<Rightarrow> nat \<Rightarrow> endpoint_id \<Rightarrow> build_queue_request \<Rightarrow> build_queue \<Rightarrow> queue_event list" where
  "request_events t1 t2 b (Pull fs logs) q =
     (case fst (pull t1 t2 b fs q) of None \<Rightarrow> [] | Some j \<Rightarrow> [Lease (bj_id j) b])"
| "request_events t1 t2 b (Complete jid outs r s) q = finish_events jid b q"
| "request_events t1 t2 b (Fail jid e) q = finish_events jid b q"
| "request_events t1 t2 b req q = []"

fun control_events :: "control_request \<Rightarrow> build_queue \<Rightarrow> queue_event list" where
  "control_events (SubmitBuild p sys fs ins os) q = [Submit (bq_next_job_id q)]"
| "control_events (CancelBuild jid) q =
     (case status_of q jid of Leased b \<Rightarrow> [Finish jid b] | _ \<Rightarrow> [])"
| "control_events req q = []"

fun daemon_events :: "daemon_event \<Rightarrow> 'u running \<Rightarrow> queue_event list" where
  "daemon_events (BuilderRequest c t1 t2 req) s =
     (case (hm_get c (rn_builders s), nd_queue (rn_node s)) of
        (Some b, Some q) \<Rightarrow> request_events t1 t2 b req q | _ \<Rightarrow> [])"
| "daemon_events (ControlCall c now req) s =
     (case (nd_queue (rn_node s), nd_gossip (rn_node s)) of
        (Some q, Some g) \<Rightarrow> control_events req q | _ \<Rightarrow> [])"
| "daemon_events e s = []"

fun trace_of :: "('e \<Rightarrow> 's \<Rightarrow> queue_event list) \<Rightarrow> ('e \<Rightarrow> 's \<Rightarrow> 's) \<Rightarrow> 'e list \<Rightarrow> 's \<Rightarrow> queue_event list" where
  "trace_of events act [] s = []"
| "trace_of events act (e # es) s = events e s @ trace_of events act es (act e s)"

definition daemon_trace :: "daemon_env \<Rightarrow> daemon_event list \<Rightarrow> 'u running \<Rightarrow> queue_event list" where
  "daemon_trace de = trace_of daemon_events (do_event de)"

section \<open>Systems whose runs are runs of the machine\<close>

text \<open>
  \<open>events\<close> is what a step means to the machine; a step is a run of it and expires no lease.
\<close>

locale machine_system = event_system enabled act run
  for enabled :: "'e \<Rightarrow> 's \<Rightarrow> bool" and act and run +
  fixes inv :: "'s \<Rightarrow> bool"
    and status :: "'s \<Rightarrow> job_id \<Rightarrow> job_status"
    and events :: "'e \<Rightarrow> 's \<Rightarrow> queue_event list"
  assumes step_inv: "inv s \<Longrightarrow> enabled e s \<Longrightarrow> inv (act e s)"
    and step_refines: "inv s \<Longrightarrow> enabled e s \<Longrightarrow> spec_run (events e s) (status s) = Some (status (act e s))"
    and step_keeps: "Expire j \<notin> set (events e s)"
begin

lemma run_refines:
  "inv s \<Longrightarrow> run es s = Some s' \<Longrightarrow> inv s' \<and> spec_run (trace_of events act es s) (status s) = Some (status s')"
proof (induction es arbitrary: s)
  case (Cons e es)
  from Cons.prems have e: "enabled e s" "run es (act e s) = Some s'" by (auto simp: run_Cons split: if_splits)
  show ?case
    using Cons.IH [OF step_inv [OF Cons.prems(1) e(1)] e(2)] step_refines [OF Cons.prems(1) e(1)]
    by (simp add: spec_run_append)
qed (simp add: run_Nil)

lemma run_expires_none: "Expire j \<notin> set (trace_of events act es s)"
  by (induction es arbitrary: s) (simp_all add: step_keeps)

text \<open>Without expiries the books of a job say that it is leased at most once.\<close>

lemma leased_once:
  assumes "inv s" "run es s = Some s'"
  shows "leases j (trace_of events act es s) \<le> 1"
proof -
  have "expiries j (trace_of events act es s) = 0"
    using run_expires_none [of j es s] by (auto simp: expiries_def filter_empty_conv)
  moreover have "held (status s' j) + (if status s' j = Done then 1 else 0) \<le> 1"
    by (simp add: held_def split: job_status.split)
  ultimately show ?thesis
    using run_refines [OF assms] spec_run_books [of _ "status s" "status s'" j] by fastforce
qed

end

section \<open>The handlers' steps\<close>

lemma finish_run: "spec_run (finish_events jid b q) (status_of q) =
    Some (if status_of q jid = Leased b then (status_of q)(jid := Done) else status_of q)"
  by (simp add: finish_events_def)

lemma request_refines:
  assumes "queue_wf blake3 q"
  shows "spec_run (request_events t1 t2 b req q) (status_of q) =
    Some (status_of (snd (handle_build_queue_request t1 t2 b req q)))"
proof (cases req)
  case (Pull fs logs)
  obtain res q' where "pull t1 t2 b fs q = (res, q')" by fastforce
  with pull_status [OF assms this] Pull show ?thesis by (cases res) auto
next
  case (Heartbeat jid st)
  with heartbeat_status [of t1 jid b st q] show ?thesis by (auto split: prod.split)
next
  case (Complete jid outs r s)
  show ?thesis
  proof (cases "hm_get jid (bq_leased q)")
    case None
    with Complete status_of_Leased_iff [OF assms, of jid b] show ?thesis by (simp add: finish_run find_key list_leased_def)
  next
    case (Some l)
    with Complete complete_eqs(1,3) [OF assms, of jid b "complete_result jid b outs r s l"] show ?thesis
      by (auto simp: finish_run find_key list_leased_def split: prod.split)
  qed
next
  case (Fail jid e)
  with fail_eqs(1,3) [OF assms, of jid b e] show ?thesis by (auto simp: finish_run split: prod.split)
next
  case (BuildLog jid d st)
  then show ?thesis by (simp add: frame_simps)
qed

lemma control_refines:
  assumes "queue_wf blake3 q" "case req of SubmitBuild _ _ _ _ _ \<Rightarrow> counter_room q | _ \<Rightarrow> True"
    and "handle_control_request blake3 show_id now req q = (resp, q', anns)"
  shows "spec_run (control_events req q) (status_of q) = Some (status_of q')"
proof (cases req)
  case (SubmitBuild p sys fs ins os)
  let ?ins = "map (\<lambda>ip. \<lparr>ip_store_path = ii_store_path ip, ip_blake3 = ii_blake3 ip\<rparr>) ins"
  obtain jid ann q1 where p: "push blake3 now p (sys # fs) os ?ins q = ((jid, ann), q1)" by (metis prod.exhaust)
  moreover have "jid = bq_next_job_id q" using p by (auto simp: push_def Let_def split: if_splits)
  ultimately show ?thesis
    using SubmitBuild assms(2,3) push_status [OF assms(1) _ p] by (simp add: Let_def)
next
  case (CancelBuild jid)
  show ?thesis
  proof (cases "hm_get jid (bq_leased q)")
    case None
    then have "status_of q jid \<noteq> Leased b" for b using status_of_Leased_iff [OF assms(1)] by simp
    with CancelBuild assms(3) None show ?thesis by (auto simp: find_key list_leased_def split: job_status.split)
  next
    case (Some l)
    with status_of_leased [OF assms(1)] CancelBuild assms(3)
      fail_eqs(1,3) [OF assms(1), of jid "lj_builder l" "''cancelled by build-hook''"] show ?thesis
      by (auto simp: find_key list_leased_def)
  qed
qed (use assms(3) in auto)

lemma no_expiry: "Expire j \<notin> set (request_events t1 t2 b req q)" "Expire j \<notin> set (control_events creq q)"
  by (cases req; simp add: finish_events_def split: option.split)
     (cases creq; simp split: job_status.split)

definition daemon_status :: "'u running \<Rightarrow> job_id \<Rightarrow> job_status" where
  "daemon_status s = (case nd_queue (rn_node s) of None \<Rightarrow> (\<lambda>_. Unborn) | Some q \<Rightarrow> status_of q)"

lemma turns_keep_status:
  "daemon_status (http_turn t1 s) = daemon_status s" "daemon_status (quic_turn a t2 s) = daemon_status s"
  "daemon_status (control_turn t3 s) = daemon_status s" "daemon_status (cleanup_loop_turn p t4 s) = daemon_status s"
  using turn_node(4) [of p t4 s] by (auto simp: daemon_status_def turn_node(1-3))

lemma daemon_step_refines:
  assumes "running_ok (ne_blake3 (de_node de)) s" "event_enabled e s"
  shows "spec_run (daemon_events e s) (daemon_status s) = Some (daemon_status (do_event de e s))"
proof (cases e)
  case (BuilderRequest c t1 t2 req)
  then obtain b q where b: "hm_get c (rn_builders s) = Some b" "nd_queue (rn_node s) = Some q" using assms(2) by auto
  with assms(1) have "queue_wf (ne_blake3 (de_node de)) q" by (simp add: running_ok_def node_inv_def)
  from request_refines [OF this] b BuilderRequest show ?thesis by (simp add: daemon_status_def on_node_def on_queue_def)
next
  case (ControlCall c now req)
  then obtain q where q: "nd_queue (rn_node s) = Some q" "case req of SubmitBuild _ _ _ _ _ \<Rightarrow> counter_room q | _ \<Rightarrow> True"
    using assms(2) by (auto split: option.splits)
  with assms(1) have wf: "queue_wf (ne_blake3 (de_node de)) q" by (simp add: running_ok_def node_inv_def)
  obtain resp q' anns where h: "handle_control_request (ne_blake3 (de_node de)) (de_show_id de) now req q = (resp, q', anns)"
    by (metis prod.exhaust)
  from control_refines [OF wf q(2) h] ControlCall q(1) h show ?thesis
    by (auto simp: daemon_status_def on_node_def control_on_node_def split: option.split)
qed (simp_all add: turns_keep_status, simp_all add: daemon_status_def on_node_def set_index_def)

interpretation daemon_queue: machine_system event_enabled "do_event de" "daemon_run de"
    "running_ok (ne_blake3 (de_node de))" daemon_status daemon_events
  for de
proof unfold_locales
  fix j e and s :: "'a running"
  show "Expire j \<notin> set (daemon_events e s)"
    by (cases "(e, s)" rule: daemon_events.cases;
        simp add: no_expiry split: option.split)
qed (rule do_event_ok, assumption+, rule daemon_step_refines, assumption+)

lemma sample_running_ok: "queue_wf no_hash q \<Longrightarrow> outcomes_ok q \<Longrightarrow> running_ok no_hash (sample_running q)"
  by (simp add: running_ok_def node_inv_def sample_running_def start_tasks_def sample_tasks_def Let_def)

section \<open>Properties of the daemon's queue\<close>

text \<open>
  C7: Whatever a daemon's builders, clients, peers and loops do, in any order, what they do to the
  queue is a run of the abstract machine on the status of the jobs: the trace of events that the
  handlers' cases cause. The trace expires no lease and leases each job at most once.
\<close>

theorem daemon_refines_machine:
  assumes "running_ok (ne_blake3 (de_node de)) s" "daemon_run de es s = Some s'"
  shows "spec_run (daemon_trace de es s) (daemon_status s) = Some (daemon_status s') \<and>
    (\<forall>j. Expire j \<notin> set (daemon_trace de es s) \<and> leases j (daemon_trace de es s) \<le> 1)"
  using daemon_queue.run_refines [OF assms] daemon_queue.run_expires_none [of _ de es s] daemon_queue.leased_once [OF assms]
  by (simp add: daemon_trace_def)

text \<open>A builder connects, takes the one job and fails it.\<close>

definition short_visit :: "daemon_event list" where
  "short_visit = [QuicTurn (Incoming (Inr (1, BUILD_QUEUE_PROTOCOL_ALPN, [8])) None),
     BuilderRequest 1 9 9 (Pull [''kvm''] False), BuilderRequest 1 9 9 (Fail 1 ''disk full'')]"

theorem daemon_refines_machine_witness:
  "\<exists>s. daemon_run sample_daemon_env short_visit (sample_running sample_pushed) = Some s \<and>
     spec_run [Lease 1 [8], Finish 1 [8]] (status_of sample_pushed) = Some (daemon_status s)"
proof -
  have alpn: "BUILD_QUEUE_PROTOCOL_ALPN \<noteq> [9]" by (simp add: BUILD_QUEUE_PROTOCOL_ALPN_def as_bytes_def)
  have "list_ex (matches [''kvm'']) (bq_pending sample_pushed)" "bq_pending sample_pushed = [sample_job]" "bj_id sample_job = 1"
    by (simp_all add: sample_pushed_def sample_job_def matches_def)
  then obtain q where q: "pull 9 9 [8] [''kvm''] sample_pushed = (Some sample_job, q)"
    by (auto simp: pull_def Let_def)
  have st: "status_of q 1 = Leased [8]"
    using pull_status [OF sample_wf(1) q] by (simp add: sample_job_def)
  have ok: "running_ok (ne_blake3 (de_node sample_daemon_env)) (sample_running sample_pushed)"
    using sample_running_ok [OF sample_wf(1)]
    by (simp add: sample_daemon_env_def outcomes_ok_def get_outcome_def sample_pushed_def new_queue_def)
  let ?s1 = "do_event sample_daemon_env (hd short_visit) (sample_running sample_pushed)"
  have s1: "hm_get 1 (rn_builders ?s1) = Some [8]" "nd_queue (rn_node ?s1) = Some sample_pushed"
    using alpn by (simp_all add: short_visit_def sample_daemon_env_def serve_route_def build_enabled_def spawn_handler_def Let_def)
  have trace: "daemon_trace sample_daemon_env short_visit (sample_running sample_pushed) = [Lease 1 [8], Finish 1 [8]]"
    using s1 q st by (simp add: daemon_trace_def short_visit_def on_node_def on_queue_def finish_events_def sample_job_def)
  obtain s where s: "daemon_run sample_daemon_env short_visit (sample_running sample_pushed) = Some s"
    using s1 q by (simp add: short_visit_def on_node_def on_queue_def)
  have "daemon_status (sample_running sample_pushed) = status_of sample_pushed" by (simp add: daemon_status_def)
  with daemon_refines_machine [OF ok s] s trace show ?thesis by simp
qed

end
