(* ===== verification/Discovery.thy ===== *)
theory Discovery
  imports Daemon
begin

text \<open>
  Nodes that find each other over gossip: the announcement of one node, handed to the topic by
  \<open>push_build\<close> or \<open>index_store_path\<close>, is received by another (\<open>gossip.rs\<close>), which then visits the
  requester (\<open>builder.rs\<close>) or fetches from the provider (\<open>main.rs\<close>). That the topic delivers a
  message is a hypothesis, as the list of events a node hears.
\<close>

section \<open>Hearing\<close>

definition hear :: "(byte list \<Rightarrow> string + gossip_message) \<Rightarrow> (byte list \<Rightarrow> bool) \<Rightarrow> gossip_event list \<Rightarrow> 'u node \<Rightarrow> 'u node" where
  "hear decode valid_id evs nd = nd\<lparr>nd_gossip := map_option (run_receiver decode valid_id evs) (nd_gossip nd)\<rparr>"

lemma hear_simps [simp]:
  "nd_index (hear d v evs nd) = nd_index nd" "nd_queue (hear d v evs nd) = nd_queue nd"
  "nd_sent (hear d v evs nd) = nd_sent nd" "gossip_enabled (hear d v evs nd) = gossip_enabled nd"
  by (simp_all add: hear_def gossip_enabled_def)

text \<open>Whether an event tells of a provider of a hash.\<close>

fun tells :: "(byte list \<Rightarrow> string + gossip_message) \<Rightarrow> hash32 \<Rightarrow> gossip_event \<Rightarrow> bool" where
  "tells decode h (Received content from) =
     (case decode content of
        Inr (Have h' path sz) \<Rightarrow> h' = h
      | Inr (IHave h' path sz) \<Rightarrow> h' = h
      | Inr (BuildComplete res) \<Rightarrow> list_ex (\<lambda>out. bo_blake3 out = h) (br_outputs res)
      | _ \<Rightarrow> False)"
| "tells decode h ev = False"

lemma credit_outputs_elsewhere: "\<not> list_ex (\<lambda>out. bo_blake3 out = h) outs \<Longrightarrow> credit_outputs b outs m (h, e) = m (h, e)"
  by (induction outs arbitrary: m) (auto simp: credit_def)

lemma know_untold: "\<not> tells decode h ev \<Longrightarrow> fst k (h, e) = None \<Longrightarrow> fst (know decode valid_id ev k) (h, e) = None"
  by (cases k; cases ev) (auto simp: credit_def credit_outputs_elsewhere split: sum.splits gossip_message.splits)

lemma knows_untold:
  "list_all (\<lambda>ev. \<not> tells decode h ev) evs \<Longrightarrow> fst k (h, e) = None \<Longrightarrow> fst (fold (know decode valid_id) evs k) (h, e) = None"
  by (induction evs arbitrary: k) (simp_all add: know_untold)

lemma no_providers_iff: "get_providers h g = [] \<longleftrightarrow> (\<forall>e. fst (knowledge g) (h, e) = None)"
proof
  assume "\<forall>e. fst (knowledge g) (h, e) = None"
  then have "list_all (\<lambda>p. pi_endpoint_id p \<noteq> e) (get_providers h g)" for e by (simp add: get_providers_known)
  then show "get_providers h g = []" by (cases "get_providers h g") auto
qed (simp flip: get_providers_known)

lemma untold_no_providers:
  assumes "get_providers h g = []" "list_all (\<lambda>ev. \<not> tells decode h ev) evs"
  shows "get_providers h (run_receiver decode valid_id evs g) = []"
  using assms knows_untold [OF assms(2)] by (simp add: no_providers_iff run_receiver_knows)

section \<open>The first provider stays the first\<close>

lemma get_providers_add:
  "get_providers h (g\<lparr>gs_providers := add_provider h' info (gs_providers g)\<rparr>) =
     (if h' = h \<and> \<not> list_ex (\<lambda>p. pi_endpoint_id p = pi_endpoint_id info) (get_providers h g)
      then get_providers h g @ [info] else get_providers h g)"
  by (auto simp: get_providers_def cached_providers_def hm_get_add_provider split: option.split)

lemma get_providers_outputs:
  "\<exists>qs. get_providers h (g\<lparr>gs_providers := add_outputs b outs (gs_providers g)\<rparr>) = get_providers h g @ qs"
proof (induction outs arbitrary: g)
  case (Cons out outs)
  let ?g = "g\<lparr>gs_providers := add_provider (bo_blake3 out)
      \<lparr>pi_endpoint_id = b, pi_store_path = bo_store_path out, pi_nar_size = bo_nar_size out\<rparr> (gs_providers g)\<rparr>"
  obtain qs where "get_providers h (?g\<lparr>gs_providers := add_outputs b outs (gs_providers ?g)\<rparr>) = get_providers h ?g @ qs"
    using Cons.IH [of ?g] by blast
  then show ?case by (auto simp: get_providers_add)
qed simp

lemma receive_keeps_first:
  assumes "get_providers h g = p # ps" "ev \<noteq> NeighborDown (pi_endpoint_id p)"
  shows "\<exists>qs. get_providers h (receive_event decode valid_id ev g) = p # qs"
proof (cases ev)
  case (Received content src)
  have "\<exists>qs. get_providers h (g\<lparr>gs_providers := add_outputs b outs (gs_providers g)\<rparr>) = p # qs" for b outs
    using get_providers_outputs [where h = h and g = g and b = b and outs = outs] assms(1) by auto
  moreover have "get_providers h (g\<lparr>gs_calls := cs\<rparr>) = get_providers h g" "get_providers h (g\<lparr>gs_requesters := rs\<rparr>) = get_providers h g"
    "get_providers h (g\<lparr>gs_requesters := rs, gs_calls := cs\<rparr>) = get_providers h g" for g cs rs
    by (simp_all add: get_providers_def)
  ultimately show ?thesis using assms(1) Received
    by (auto simp: handle_message_def Let_def get_providers_add split: sum.split gossip_message.split)
next
  case (NeighborDown peer)
  with assms show ?thesis
    by (auto simp: get_providers_def cached_providers_def hm_get_remove_provider split: option.splits)
qed (use assms in auto)

interpretation receiver: event_system "\<lambda>_ _. True" "receive_event decode valid_id" "\<lambda>evs g. Some (run_receiver decode valid_id evs g)"
  for decode valid_id
  by unfold_locales simp_all

lemma run_keeps_first:
  assumes "get_providers h g = p # ps" "NeighborDown (pi_endpoint_id p) \<notin> set evs"
  shows "\<exists>qs. get_providers h (run_receiver decode valid_id evs g) = p # qs"
  by (rule receiver.run_keeps [where I = "\<lambda>g. \<exists>qs. get_providers h g = p # qs" and es = evs and s = g
        and permitted = "\<lambda>ev. ev \<noteq> NeighborDown (pi_endpoint_id p)"])
    (use assms receive_keeps_first in \<open>auto simp: list_all_iff\<close>)

text \<open>The first to tell of a hash is the first provider.\<close>

lemma first_teller:
  assumes "get_providers h g = []" "list_all (\<lambda>ev. \<not> tells decode h ev) us"
    and "decode content = Inr (Have h path sz)" "NeighborDown from \<notin> set vs"
  shows "\<exists>qs. get_providers h (run_receiver decode valid_id (us @ Received content from # vs) g) =
    \<lparr>pi_endpoint_id = from, pi_store_path = path, pi_nar_size = sz\<rparr> # qs"
proof -
  let ?g = "run_receiver decode valid_id us g"
  have "get_providers h (receive_event decode valid_id (Received content from) ?g) =
      [\<lparr>pi_endpoint_id = from, pi_store_path = path, pi_nar_size = sz\<rparr>]"
    using untold_no_providers [OF assms(1,2)] assms(3) by (simp add: handle_message_def from_bytes_def get_providers_add)
  from run_keeps_first [OF this, of vs] assms(4) show ?thesis
    using receiver.run_append [of decode valid_id us "Received content from # vs" g] by simp
qed

section \<open>Announcements\<close>

text \<open>Nobody answers a \<open>Want\<close>: it changes nothing in the node that receives it.\<close>

theorem want_unanswered:
  assumes "de_decode_gossip de content = Inr (Want h)"
  shows "do_event de (GossipArrives (Received content from)) s = s"
proof -
  have "receive_event (de_decode_gossip de) (de_valid_id de) (Received content from) = (\<lambda>g. g)"
    using assms by (auto simp: handle_message_def from_bytes_def)
  then show ?thesis by (simp add: on_node_def option.map_ident)
qed

theorem want_unanswered_witness:
  "do_event (sample_daemon_env\<lparr>de_decode_gossip := (\<lambda>_. Inr (Want [7]))\<rparr>) (GossipArrives (Received [] [2]))
     (sample_running sample_leased) = sample_running sample_leased"
  by (rule want_unanswered [where h = "[7]"]) simp

lemma index_announces:
  assumes "index_store_path ne p f nd = (Inr entry, nd')" "gossip_enabled nd"
    and "ne_encode_gossip ne (Have (he_blake3 entry) p (he_nar_size entry)) = Inr bytes" "ne_broadcast ne bytes = None"
  shows "nd_sent nd' = nd_sent nd @ [bytes]"
  using assms
  by (auto simp: index_store_path_def insert_into_index_def gossip_enabled_def st_bind_def announce_have_def broadcast_message_def
      to_bytes_def split: sum.splits option.splits prod.splits)

lemma receive_need_builder:
  assumes "decode content = Inr (NeedBuilder r fs)" "valid_id r" "set fs \<subseteq> set our_features"
  shows "\<lparr>ri_endpoint_id = r, ri_system_features = fs\<rparr> \<in> set (get_matching_requesters our_features
    (receive_event decode valid_id (Received content from) g))"
  using assms
  by (auto simp: handle_message_def from_bytes_def Let_def get_matching_requesters_def matching_requesters_def
      add_requester_def set_hm_insert list_all_iff image_iff)

lemma pull_only_job:
  assumes "bq_pending q = [j]" "matches fs j"
  shows "\<exists>q'. pull t1 t2 b fs q = (Some j, q')"
  using assms by (simp add: pull_def Let_def)

section \<open>Properties\<close>


text \<open>
  C22: \<open>fetch\<close> without \<open>--from\<close> runs on a node it has just started, whose caches are empty: it fails
  unless a provider happens to announce the hash while it waits, for nobody answers its query.
\<close>

theorem fetch_needs_announcement:
  assumes "spawn blake3 public from_key config mkdir_error key_loaded bind_error index subscribe parse_url client_error = Inr nd"
    and "unhex hash = Inr h" "list_all (\<lambda>ev. \<not> tells decode h ev) evs"
  shows "\<not> is_ok (fst (fetch_nar_cmd unhex parse_id (hear decode valid_id evs) later ne dial None hash retries delay_ms nd))"
proof (cases "nd_gossip nd")
  case None
  then show ?thesis
    by (simp add: fetch_nar_cmd_def find_provider_def gossip_enabled_def st_bind_def split: sum.split)
next
  case (Some g)
  then have g: "get_providers h g = []"
    using spawn_services [OF assms(1)] by (auto simp: get_providers_def cached_providers_def gossip_new_def split: if_splits)
  have "node_get_providers h (hear decode valid_id evs (nd\<lparr>nd_sent := sent\<rparr>)) = []" for sent
    using untold_no_providers [OF g assms(3)] Some by (simp add: node_get_providers_def hear_def)
  with Some g show ?thesis
    by (auto simp: fetch_nar_cmd_def find_provider_def gossip_enabled_def query_providers_def Let_def st_bind_def
        blake3_from_hex_def blake3_from_slice_def assms(2) split: prod.split sum.split)
qed

text \<open>
  C5: \<open>fetch\<close> by gossip succeeds when it hears an announcement: what one node indexes is announced, and
  a freshly started node on the same topic whose first news of the hash is that announcement fetches
  the path from it, checks it and indexes it.
\<close>

theorem fetch_by_gossip:
  assumes a: "\<not> ne_poisoned a" "ne_sql a = None" "table_ok (nd_index na)" "ne_exists a p"
      "index_store_path a p p na = (Inr entry, na')" "tree_of (ne_node a p) = Some t"
    and sizes: "unat (he_nar_size entry) = length (nar_bytes t)" "he_nar_size entry \<le> MAX_NAR_SIZE" "sized_entry entry"
    and b: "\<not> ne_poisoned b" "ne_sql b = None" "\<And>p m. ne_query b p \<noteq> panic m" "table_ok (nd_index nb)" "ne_blake3 b = ne_blake3 a"
    and codec: "ne_encode_request b (ByBlake3 (he_blake3 entry)) = Inr rq" "ne_decode_request a rq = Inr (ByBlake3 (he_blake3 entry))"
      "length rq \<le> 1024" "ne_encode_header a (nar_response_header_new (he_nar_size entry) (he_sha256 entry) p) = Inr hb"
      "ne_decode_header b hb = Inr (nar_response_header_new (he_nar_size entry) (he_sha256 entry) p)" "length hb \<le> 64 * 1024"
    and gossip: "gossip_enabled na" "ne_encode_gossip a (Have (he_blake3 entry) p (he_nar_size entry)) = Inr bytes"
      "ne_broadcast a bytes = None" "decode bytes = Inr (Have (he_blake3 entry) p (he_nar_size entry))"
    and fresh: "nd_gossip nb = Some (gossip_new me False False)" "fst (query_providers b (he_blake3 entry) nb) = Inr []"
    and heard: "list_all (\<lambda>ev. \<not> tells decode (he_blake3 entry) ev) us" "NeighborDown (nd_id na) \<notin> set vs"
    and hash: "unhex hash = Inr (he_blake3 entry)" "length (he_blake3 entry) = 32"
    and dial: "dial (nd_id na) = (\<lambda>_. serve_remote (serving a) (nd_index na') pick)"
  shows "nd_sent na' = nd_sent na @ [bytes] \<and>
    (\<exists>nb'. fetch_nar_cmd unhex parse_id (hear decode valid_id (us @ Received bytes (nd_id na) # vs)) (\<lambda>nd. nd) b dial None hash
         retries delay_ms nb =
       (Inr \<lparr>im_store_path = p, im_blake3 = he_blake3 entry, im_sha256 = he_sha256 entry, im_nar_size = he_nar_size entry\<rparr>, nb') \<and>
     has_indexed b (he_blake3 entry) nb' = Inr True)"
proof -
  let ?h = "he_blake3 entry" and ?hear = "hear decode valid_id (us @ Received bytes (nd_id na) # vs)"
  let ?me = "\<lparr>pi_endpoint_id = nd_id na, pi_store_path = p, pi_nar_size = he_nar_size entry\<rparr>"
  have none: "get_providers ?h (gossip_new me False False) = []"
    by (simp add: get_providers_def cached_providers_def gossip_new_def)
  obtain nb1 where q: "query_providers b ?h nb = (Inr [], nb1)" "nd_gossip nb1 = nd_gossip nb" "nd_index nb1 = nd_index nb"
    using fresh by (auto simp: query_providers_def split: prod.splits)
  obtain qs where "get_providers ?h (run_receiver decode valid_id (us @ Received bytes (nd_id na) # vs) (gossip_new me False False)) = ?me # qs"
    using first_teller [OF none heard(1) gossip(4) heard(2)] by blast
  then have f: "find_provider ?hear (\<lambda>nd. nd) b ?h nb = (Inr ?me, ?hear nb1)"
    using q fresh(1) by (simp add: find_provider_def gossip_enabled_def st_bind_def Let_def node_get_providers_def hear_def)
  have "table_ok (nd_index (?hear nb1))" using b(4) q(3) by simp
  from node_transfer [OF a sizes b(1-3) this b(5) codec, of pick "cmd_retry_config retries delay_ms"]
  show ?thesis
    using index_announces [OF a(5) gossip(1-3)] f hash dial
    by (auto simp: fetch_nar_cmd_def blake3_from_hex_def blake3_from_slice_def st_bind_def fetch_by_id_with_config_def)
qed

section \<open>Witnesses\<close>


theorem fetch_needs_announcement_witness:
  "\<exists>nd :: unit node. nd_gossip nd \<noteq> None \<and>
     \<not> is_ok (fst (fetch_nar_cmd (\<lambda>_. Inr (replicate 32 0)) (\<lambda>_. Inl []) (hear (\<lambda>_. Inr (Want [7])) (\<lambda>_. True) [Received [] [5]])
       (\<lambda>nd. nd) sample_node_env (\<lambda>_ _. serve_remote (serving sample_node_env) [] (\<lambda>n. n)) None ''00'' 3 500 nd))"
proof -
  obtain nd where nd: "spawn (\<lambda>_. []) (\<lambda>k. [k]) (\<lambda>_. 7) (with_network_id ''net'' (with_substituters [] (node_config_new ''d''))) None
      (Inr []) None (Inr []) (\<lambda>_ _. None) (\<lambda>_. Inl []) None = Inr (nd :: unit node)"
    by (simp add: spawn_def with_network_id_def with_substituters_def node_config_new_def node_config_default_def
        gossip_join_def with_callbacks_def Let_def)
  have "nd_gossip nd \<noteq> None" using spawn_services [OF nd] by (simp add: with_network_id_def)
  moreover have "list_all (\<lambda>ev. \<not> tells (\<lambda>_. Inr (Want [7])) (replicate 32 0) ev) [Received [] [5]]" by simp
  ultimately show ?thesis
    using fetch_needs_announcement [OF nd, where unhex = "\<lambda>_. Inr (replicate 32 0)" and h = "replicate 32 0"] by blast
qed

theorem fetch_by_gossip_witness:
  "\<exists>na' nb'. index_store_path sample_node_env ''/nix/store/x'' ''/nix/store/x'' (empty_node [1]) = (Inr sample_indexed, na') \<and>
     fetch_nar_cmd (\<lambda>_. Inr (he_blake3 sample_indexed)) (\<lambda>_. Inl [])
       (hear (\<lambda>_. Inr (Have (he_blake3 sample_indexed) ''/nix/store/x'' (he_nar_size sample_indexed))) (\<lambda>_. True)
         ([] @ Received [] (nd_id (empty_node [1])) # [NeighborUp [3]]))
       (\<lambda>nd. nd) sample_node_env (\<lambda>_ _. serve_remote (serving sample_node_env) (nd_index na') (\<lambda>n. n div 2)) None ''00'' 3 500 (empty_node [2]) =
     (Inr \<lparr>im_store_path = ''/nix/store/x'', im_blake3 = he_blake3 sample_indexed, im_sha256 = he_sha256 sample_indexed,
        im_nar_size = he_nar_size sample_indexed\<rparr>, nb')"
proof -
  let ?na' = "empty_node [1]\<lparr>nd_index := snd (index_insert None sample_indexed []), nd_sent := [[]]\<rparr>"
  have g: "gossip_enabled (empty_node [1])" "ne_encode_gossip sample_node_env m = Inr []" "ne_broadcast sample_node_env [] = None"
    "nd_gossip (empty_node [2]) = Some (gossip_new [2] False False)" "length (he_blake3 sample_indexed) = 32" for m
    by (simp_all add: empty_node_def gossip_enabled_def sample_node_env_def sample_indexed_def toy_hash_def)
  have q: "fst (query_providers sample_node_env (he_blake3 sample_indexed) (empty_node [2])) = Inr []"
    by (simp add: query_providers_def g query_want_def broadcast_message_def to_bytes_def get_providers_def
        cached_providers_def gossip_new_def)
  show ?thesis
    using fetch_by_gossip [where pick = "\<lambda>n. n div 2" and us = "[]" and vs = "[NeighborUp [3]]"
        and decode = "\<lambda>_. Inr (Have (he_blake3 sample_indexed) ''/nix/store/x'' (he_nar_size sample_indexed))"
        and unhex = "\<lambda>_. Inr (he_blake3 sample_indexed)" and hash = "''00''" and valid_id = "\<lambda>_. True" and parse_id = "\<lambda>_. Inl []"
        and dial = "\<lambda>_ _. serve_remote (serving sample_node_env) (nd_index ?na') (\<lambda>n. n div 2)" and retries = 3 and delay_ms = 500,
        OF sample_env_ok(1,2) sample_node_ok sample_env_ok(3) sample_index_run [of "[1]"] sample_env_ok(5) sample_sizes
          sample_env_ok(1,2,4) sample_node_ok [of "[2]"] refl sample_codec [unfolded indexed_header_def] g(1) g(2) g(3) refl g(4) q]
      sample_index_run [of "[1]"] g(5)
    by auto
qed

end
