(* ===== verification/Network.thy ===== *)
theory Network
  imports Discovery
begin

text \<open>
  A whole network: nodes with their daemons, and the gossip topic between them. A node acts by an
  event of its daemon or by one of the operations of \<open>node.rs\<close> that announce something; a gossip
  message reaches a node only after some node handed it to the topic, any number of times, in any
  order or never. What the nodes then know of each other is what was announced, and providers are
  known only through explicit additions.
\<close>

section \<open>Nodes and their topic\<close>

text \<open>
  \<open>Adds\<close> is \<open>index_store_path\<close>, as the commands \<open>add\<close> and \<open>build-push\<close> call it, \<open>Pushes\<close> is
  \<open>push_build\<close> and \<open>Queries\<close> is \<open>query_providers\<close>.
\<close>

datatype network_event =
  Happens nat daemon_event
| Adds nat string string
| Pushes nat u64 string "string list" "string list" "input_path list"
| Queries nat hash32

definition sent :: "'u running list \<Rightarrow> byte list \<Rightarrow> bool" where
  "sent net b \<longleftrightarrow> list_ex (\<lambda>s. b \<in> set (nd_sent (rn_node s))) net"

fun network_enabled :: "network_event \<Rightarrow> 'u running list \<Rightarrow> bool" where
  "network_enabled (Happens i e) net = (i < length net \<and> event_enabled e (net ! i) \<and>
     (case e of GossipArrives (Received content src) \<Rightarrow> sent net content | _ \<Rightarrow> True))"
| "network_enabled (Adds i p f) net = (i < length net)"
| "network_enabled (Pushes i now drv fs outs inputs) net = (i < length net)"
| "network_enabled (Queries i h) net = (i < length net)"

fun network_step :: "(nat \<Rightarrow> daemon_env) \<Rightarrow> network_event \<Rightarrow> 'u running list \<Rightarrow> 'u running list" where
  "network_step de (Happens i e) net = net[i := do_event (de i) e (net ! i)]"
| "network_step de (Adds i p f) net = net[i := on_node (\<lambda>nd. snd (index_store_path (de_node (de i)) p f nd)) (net ! i)]"
| "network_step de (Pushes i now drv fs outs inputs) net =
     net[i := on_node (\<lambda>nd. snd (push_build (de_node (de i)) now drv fs outs inputs nd)) (net ! i)]"
| "network_step de (Queries i h) net = net[i := on_node (\<lambda>nd. snd (query_providers (de_node (de i)) h nd)) (net ! i)]"

fun network_run :: "(nat \<Rightarrow> daemon_env) \<Rightarrow> network_event list \<Rightarrow> 'u running list \<Rightarrow> 'u running list option" where
  "network_run de [] net = Some net"
| "network_run de (e # es) net = (if network_enabled e net then network_run de es (network_step de e net) else None)"

interpretation network: event_system network_enabled "network_step de" "network_run de" for de
  by unfold_locales simp_all

section \<open>What a node says\<close>

text \<open>
  The announcements a node \<open>me\<close> makes; \<open>adds\<close> is whether paths are added. No code sends an answer
  to a query or the end of a build.
\<close>

fun may_say :: "bool \<Rightarrow> endpoint_id \<Rightarrow> gossip_message \<Rightarrow> bool" where
  "may_say adds me (NeedBuilder r fs) \<longleftrightarrow> r = me"
| "may_say adds me (Have h p z) \<longleftrightarrow> adds"
| "may_say adds me (Want h) \<longleftrightarrow> True"
| "may_say adds me m \<longleftrightarrow> False"

definition one_codec :: "(nat \<Rightarrow> daemon_env) \<Rightarrow> (gossip_message \<Rightarrow> string + byte list) \<Rightarrow>
    (byte list \<Rightarrow> string + gossip_message) \<Rightarrow> bool" where
  "one_codec de enc dec \<longleftrightarrow> (\<forall>i. ne_encode_gossip (de_node (de i)) = enc \<and> de_decode_gossip (de i) = dec) \<and>
     (\<forall>m b. enc m = Inr b \<longrightarrow> dec b = Inr m)"

definition speaks :: "(gossip_message \<Rightarrow> string + byte list) \<Rightarrow> bool \<Rightarrow> 'u node \<Rightarrow> byte list list \<Rightarrow> bool" where
  "speaks enc adds nd bs \<longleftrightarrow> list_all (\<lambda>b. \<exists>g m. nd_gossip nd = Some g \<and> enc m = Inr b \<and> may_say adds (gs_our_id g) m) bs"

lemma speaks_append [simp]: "speaks enc adds nd (as @ bs) \<longleftrightarrow> speaks enc adds nd as \<and> speaks enc adds nd bs"
  by (simp add: speaks_def)

lemma speaks_Nil [simp]: "speaks enc adds nd []"
  by (simp add: speaks_def)

lemma speaks_concat: "speaks enc adds nd (concat bss) \<longleftrightarrow> list_all (speaks enc adds nd) bss"
  by (induction bss) simp_all

lemma broadcast_speaks:
  "nd_gossip nd = Some g \<Longrightarrow> may_say adds (gs_our_id g) m \<Longrightarrow> speaks enc adds nd (snd (broadcast_message enc broadcast m))"
  by (auto simp: speaks_def broadcast_message_def to_bytes_def split: sum.split option.split)

text \<open>What a step of a node does to its gossip service and to what it has sent.\<close>

fun event_at :: "network_event \<Rightarrow> nat" where
  "event_at (Happens i e) = i"
| "event_at (Adds i p f) = i"
| "event_at (Pushes i now drv fs outs inputs) = i"
| "event_at (Queries i h) = i"

fun hears :: "(nat \<Rightarrow> daemon_env) \<Rightarrow> network_event \<Rightarrow> gossip_service \<Rightarrow> gossip_service" where
  "hears de (Happens i (GossipArrives ev)) g = receive_event (de_decode_gossip (de i)) (de_valid_id (de i)) ev g"
| "hears de e g = g"

fun additions :: "network_event \<Rightarrow> bool" where
  "additions (Adds i p f) = True"
| "additions e = False"

definition member_step :: "(nat \<Rightarrow> daemon_env) \<Rightarrow> (gossip_message \<Rightarrow> string + byte list) \<Rightarrow> bool \<Rightarrow> network_event \<Rightarrow>
    'u node \<Rightarrow> 'u node \<Rightarrow> bool" where
  "member_step de enc adds e nd nd' \<longleftrightarrow> nd_gossip nd' = map_option (hears de e) (nd_gossip nd) \<and>
     (\<exists>news. nd_sent nd' = nd_sent nd @ news \<and> speaks enc adds nd news)"

lemma member_same:
  "nd_gossip nd' = nd_gossip nd \<Longrightarrow> nd_sent nd' = nd_sent nd \<Longrightarrow> (\<And>g. hears de e g = g) \<Longrightarrow> member_step de enc adds e nd nd'"
  by (simp add: member_step_def option.map_ident_strong)

lemma add_member_step:
  assumes "ne_encode_gossip (de_node (de i)) = enc"
  shows "member_step de enc True (Adds i p f) nd (snd (index_store_path (de_node (de i)) p f nd))"
proof -
  let ?ne = "de_node (de i)"
  show ?thesis
  proof (cases "path_entry ?ne p f")
    case (Inl e)
    then show ?thesis by (simp add: index_store_path_def member_same)
  next
    case (Inr entry)
    obtain res nd1 where ins: "insert_into_index ?ne entry nd = (res, nd1)" by fastforce
    then have nd1: "nd_gossip nd1 = nd_gossip nd" "nd_sent nd1 = nd_sent nd"
      by (auto simp: insert_into_index_def split: sum.splits prod.splits)
    have "speaks enc True nd (snd (announce_have (ne_encode_gossip ?ne) (ne_broadcast ?ne) h p z))"
      if "nd_gossip nd = Some g" for g h z
      unfolding announce_have_def assms using that by (rule broadcast_speaks) simp
    with Inr ins nd1 show ?thesis
      by (cases res; cases "nd_gossip nd") (simp_all add: index_store_path_def member_step_def st_bind_def)
  qed
qed

lemma push_member_step:
  assumes "ne_encode_gossip (de_node (de i)) = enc"
  shows "member_step de enc adds (Pushes i now drv fs outs inputs) nd (snd (push_build (de_node (de i)) now drv fs outs inputs nd))"
  using assms
  by (auto simp: push_build_def member_step_def Let_def announce_need_builder_def option.map_ident_strong
      split: option.split prod.split if_splits) (metis broadcast_speaks may_say.simps(1) snd_conv)

lemma query_member_step:
  assumes "ne_encode_gossip (de_node (de i)) = enc"
  shows "member_step de enc adds (Queries i h) nd (snd (query_providers (de_node (de i)) h nd))"
  using assms
  by (auto simp: query_providers_def member_step_def query_want_def option.map_ident_strong
      split: option.split prod.split) (metis broadcast_speaks may_say.simps(3) snd_conv)

lemma control_member_step:
  assumes "ne_encode_gossip (de_node (de i)) = enc"
  shows "member_step de enc adds (Happens i (ControlCall c now req)) nd (control_on_node (de i) now req nd)"
  using assms
  by (auto simp: control_on_node_def member_step_def announce_need_builder_def option.map_ident_strong speaks_concat list_all_iff
      split: option.split prod.split intro!: broadcast_speaks)

lemma node_member_step:
  assumes "one_codec de enc dec" "additions e \<longrightarrow> adds" "event_at e < length net"
  shows "member_step de enc adds e (rn_node (net ! event_at e)) (rn_node (network_step de e net ! event_at e))"
proof -
  have enc: "ne_encode_gossip (de_node (de i)) = enc" for i using assms(1) by (simp add: one_codec_def)
  show ?thesis
  proof (cases e)
    case (Happens i ev)
    show ?thesis
    proof (cases ev)
      case (ControlCall c now req)
      with Happens assms(3) control_member_step [OF enc] show ?thesis by (simp add: on_node_def)
    next
      case (GossipArrives gev)
      with Happens assms(3) show ?thesis
        by (cases "nd_gossip (rn_node (net ! i))") (simp_all add: on_node_def member_step_def)
    next
      case (BuilderRequest c t1 t2 req)
      with Happens assms(3) show ?thesis
        by (intro member_same) (auto simp: on_node_def on_queue_def split: option.split)
    next
      case (CleanupTurn t)
      obtain x where "rn_node (cleanup_loop_turn (ne_poisoned (de_node (de i))) t (net ! i)) = (rn_node (net ! i))\<lparr>nd_index := x\<rparr>"
        using turn_node(4) by blast
      with Happens CleanupTurn assms(3) show ?thesis by (intro member_same) auto
    qed (use Happens assms(3) in \<open>auto intro!: member_same simp: set_index_def turn_node(1-3)\<close>)
  next
    case (Adds i p f)
    with assms(2,3) add_member_step [OF enc] show ?thesis by (simp add: on_node_def)
  next
    case (Pushes i now drv fs outs inputs)
    with assms(3) push_member_step [OF enc] show ?thesis by (simp add: on_node_def)
  next
    case (Queries i h)
    with assms(3) query_member_step [OF enc] show ?thesis by (simp add: on_node_def)
  qed
qed

section \<open>What the nodes know\<close>

definition said :: "(byte list \<Rightarrow> string + gossip_message) \<Rightarrow> 'u running list \<Rightarrow> gossip_message \<Rightarrow> bool" where
  "said dec net m \<longleftrightarrow> (\<exists>b. sent net b \<and> dec b = Inr m)"

definition informed :: "(byte list \<Rightarrow> string + gossip_message) \<Rightarrow> 'u running list \<Rightarrow> gossip_service \<Rightarrow> bool" where
  "informed dec net g \<longleftrightarrow>
     (\<forall>h e p z. fst (knowledge g) (h, e) = Some (p, z) \<longrightarrow> said dec net (Have h p z)) \<and>
     (\<forall>e fs. snd (knowledge g) e = Some fs \<longrightarrow> said dec net (NeedBuilder e fs))"

definition network_ok :: "(gossip_message \<Rightarrow> string + byte list) \<Rightarrow> (byte list \<Rightarrow> string + gossip_message) \<Rightarrow> bool \<Rightarrow>
    'u running list \<Rightarrow> bool" where
  "network_ok enc dec adds net \<longleftrightarrow> (\<forall>s \<in> set net. speaks enc adds (rn_node s) (nd_sent (rn_node s)) \<and>
     (\<forall>g. nd_gossip (rn_node s) = Some g \<longrightarrow> caches_wf g \<and> informed dec net g))"

lemma speaks_cong:
  "map_option gs_our_id (nd_gossip nd') = map_option gs_our_id (nd_gossip nd) \<Longrightarrow> speaks enc adds nd' = speaks enc adds nd"
  by (cases "nd_gossip nd'"; cases "nd_gossip nd") (simp_all add: speaks_def fun_eq_iff)

lemma handle_our_id: "gs_our_id (receive_event decode valid_id ev g) = gs_our_id g"
  by (cases ev) (simp_all add: handle_message_def Let_def split: sum.split gossip_message.split)

lemma hears_our_id: "gs_our_id (hears de e g) = gs_our_id g"
  by (cases "(de, e, g)" rule: hears.cases) (simp_all add: handle_our_id)

lemma hears_wf: "caches_wf g \<Longrightarrow> caches_wf (hears de e g)"
  by (cases "(de, e, g)" rule: hears.cases) (simp_all add: receive_event_wf)

lemma sent_message:
  assumes "network_ok enc dec adds net" "one_codec de enc dec" "sent net b"
  shows "\<exists>s g m. s \<in> set net \<and> nd_gossip (rn_node s) = Some g \<and> b \<in> set (nd_sent (rn_node s)) \<and>
    dec b = Inr m \<and> may_say adds (gs_our_id g) m"
  using assms by (fastforce simp: sent_def list_ex_iff network_ok_def speaks_def list_all_iff one_codec_def)

lemma informed_receive:
  assumes "informed dec net g" "\<And>content src. ev = Received content src \<Longrightarrow>
      sent net content \<and> (\<exists>m me. dec content = Inr m \<and> may_say adds me m)"
  shows "informed dec net (receive_event dec valid_id ev g)"
proof (cases ev)
  case (Received content src)
  then obtain m me where m: "sent net content" "dec content = Inr m" "may_say adds me m" using assms(2) by blast
  obtain pm rm where k: "knowledge g = (pm, rm)" by fastforce
  show ?thesis
    using assms(1) m(1,3) unfolding informed_def receive_event_knows k Received
    by (cases m) (auto simp: m(2) credit_def said_def split: if_splits)
next
  case (NeighborDown peer)
  obtain pm rm where k: "knowledge g = (pm, rm)" by fastforce
  show ?thesis
    using assms(1) unfolding informed_def receive_event_knows k NeighborDown by (auto split: if_splits)
qed (use assms(1) in \<open>simp_all add: informed_def\<close>)

lemma informed_mono: "(\<And>b. sent net b \<Longrightarrow> sent net' b) \<Longrightarrow> informed dec net g \<Longrightarrow> informed dec net' g"
  unfolding informed_def said_def by blast

lemma step_shape: "network_step de e net = net[event_at e := network_step de e net ! event_at e]"
  by (cases e; cases "event_at e < length net") (simp_all add: list_update_beyond not_less)

lemma network_step_ok:
  assumes "one_codec de enc dec" "network_ok enc dec adds net" "network_enabled e net" "additions e \<longrightarrow> adds"
  shows "network_ok enc dec adds (network_step de e net)"
proof -
  let ?i = "event_at e" and ?net = "network_step de e net"
  let ?s = "net ! ?i" and ?s' = "network_step de e net ! ?i"
  have i: "?i < length net" using assms(3) by (cases e) auto
  have in_net: "?s \<in> set net" using i by simp
  obtain news where step: "nd_gossip (rn_node ?s') = map_option (hears de e) (nd_gossip (rn_node ?s))"
      "nd_sent (rn_node ?s') = nd_sent (rn_node ?s) @ news" "speaks enc adds (rn_node ?s) news"
    using node_member_step [OF assms(1,4) i] by (auto simp: member_step_def)
  have members: "s = ?s' \<or> s \<in> set net" if "s \<in> set ?net" for s
    using that set_update_subset_insert [of net ?i ?s'] step_shape [of de e net] by (metis insertE subsetD)
  have grows: "sent ?net b" if b: "sent net b" for b
  proof -
    obtain s where "s \<in> set net" "b \<in> set (nd_sent (rn_node s))"
      using b by (auto simp: sent_def list_ex_iff)
    then obtain j where j: "j < length net" "b \<in> set (nd_sent (rn_node (net ! j)))"
      unfolding in_set_conv_nth [of s net] by blast
    have "b \<in> set (nd_sent (rn_node (?net ! j)))"
      using j step(2) by (subst step_shape) (cases "j = ?i"; simp)
    moreover have "j < length ?net" using j(1) by (subst step_shape) simp
    ultimately show ?thesis unfolding sent_def list_ex_iff by (meson nth_mem)
  qed
  have heard: "informed dec net (hears de e g)" if "nd_gossip (rn_node ?s) = Some g" for g
  proof -
    have g: "informed dec net g" using assms(2) in_net that by (simp add: network_ok_def)
    show ?thesis
    proof (cases "\<exists>i ev. e = Happens i (GossipArrives ev)")
      case True
      then obtain i ev where e: "e = Happens i (GossipArrives ev)" by blast
      have "informed dec net (receive_event dec (de_valid_id (de i)) ev g)"
        using g by (rule informed_receive) (use assms(3) e sent_message [OF assms(2,1)] in fastforce)
      then show ?thesis using assms(1) e by (simp add: one_codec_def)
    next
      case False
      then have "hears de e g = g" by (cases "(de, e, g)" rule: hears.cases) auto
      with g show ?thesis by simp
    qed
  qed
  have new: "speaks enc adds (rn_node ?s') (nd_sent (rn_node ?s'))"
  proof -
    have "speaks enc adds (rn_node ?s') = speaks enc adds (rn_node ?s)"
      by (rule speaks_cong) (simp add: step(1) option.map_comp comp_def hears_our_id)
    with step(2,3) assms(2) in_net show ?thesis by (simp add: network_ok_def)
  qed
  show ?thesis
    unfolding network_ok_def
  proof (intro ballI conjI allI impI)
    fix s assume s: "s \<in> set ?net"
    show "speaks enc adds (rn_node s) (nd_sent (rn_node s))"
      using members [OF s] new assms(2) by (auto simp: network_ok_def)
    fix g assume g: "nd_gossip (rn_node s) = Some g"
    show "caches_wf g"
      using members [OF s] g step(1) hears_wf assms(2) in_net by (fastforce simp: network_ok_def)
    have "informed dec net g"
      using members [OF s] g step(1) heard assms(2) by (fastforce simp: network_ok_def)
    then show "informed dec ?net g" using grows by (rule informed_mono [rotated])
  qed
qed

lemma network_run_ok:
  assumes "one_codec de enc dec" "network_ok enc dec adds net" "network_run de es net = Some net'"
    and "list_all (\<lambda>e. additions e \<longrightarrow> adds) es"
  shows "network_ok enc dec adds net'"
  by (rule network.run_keeps [where I = "network_ok enc dec adds" and es = es and s = net])
    (use assms network_step_ok [OF assms(1)] in blast)+

section \<open>Properties of the network\<close>

definition fresh_network :: "'u running list \<Rightarrow> bool" where
  "fresh_network = list_all (\<lambda>s. nd_sent (rn_node s) = [] \<and> (case nd_gossip (rn_node s) of None \<Rightarrow> True
     | Some g \<Rightarrow> gs_providers g = [] \<and> gs_requesters g = []))"

lemma fresh_ok: "fresh_network net \<Longrightarrow> network_ok enc dec adds net"
  by (fastforce simp: fresh_network_def network_ok_def list_all_iff caches_wf_def informed_def knowledge_def
      provider_map_def requester_map_def hm_get_def hm_wf_def)

lemma fresh_nodes:
  assumes "spawn blake3 public from_key config mkdir_error key_loaded bind_error index subscribe parse_url client_error = Inr nd"
    and "rn_node s = nd"
  shows "fresh_network [s]"
proof -
  have "nd_sent nd = []" using assms(1) by (auto simp: spawn_def Let_def split: if_splits option.splits sum.splits prod.splits)
  with spawn_services [OF assms(1)] assms(2) show ?thesis
    by (auto simp: fresh_network_def gossip_new_def split: option.split if_splits)
qed

lemma provider_known:
  assumes "caches_wf g" "p \<in> set (get_providers h g)"
  shows "fst (knowledge g) (h, pi_endpoint_id p) = Some (pi_store_path p, pi_nar_size p)"
proof -
  obtain ps where ps: "hm_get h (gs_providers g) = Some ps" "p \<in> set ps"
    using assms(2) by (cases "hm_get h (gs_providers g)") (simp_all add: get_providers_def cached_providers_def)
  then have "distinct (map pi_endpoint_id ps)"
    using assms(1) hm_get_SomeD [OF ps(1)] by (force simp: caches_wf_def list_all_iff)
  then have "List.find (\<lambda>p'. pi_endpoint_id p' = pi_endpoint_id p) ps = Some p"
    using ps(2) by (induction ps) auto
  with ps(1) show ?thesis by (simp add: knowledge_def provider_map_def)
qed

lemma requester_listed:
  assumes "caches_wf g" "r \<in> set (get_matching_requesters fs g)"
  shows "snd (knowledge g) (ri_endpoint_id r) = Some (ri_system_features r)"
  using assms hm_get_caches [OF assms(1), of r]
  by (auto simp: get_matching_requesters_def matching_requesters_def all_requesters_def)

text \<open>
  C8: In a network of fresh nodes, whatever happens and whatever the topic does with the messages, a
  node lists a requester only if a node with that id is in the network and itself announced that it
  needs a builder with these features, and a provider only if some node announced to have the hash
  under that path and size (the id of the provider is the neighbour's that delivered the message).
\<close>

theorem discovery_authentic:
  assumes "one_codec de enc dec" "fresh_network net" "network_run de es net = Some net'"
    and "s \<in> set net'" "nd_gossip (rn_node s) = Some g"
  shows "(\<forall>r \<in> set (get_matching_requesters fs g). \<exists>t \<in> set net'. \<exists>gt. nd_gossip (rn_node t) = Some gt \<and>
      gs_our_id gt = ri_endpoint_id r \<and>
      list_ex (\<lambda>b. dec b = Inr (NeedBuilder (ri_endpoint_id r) (ri_system_features r))) (nd_sent (rn_node t))) \<and>
    (\<forall>p \<in> set (get_providers h g). \<exists>t \<in> set net'.
      list_ex (\<lambda>b. dec b = Inr (Have h (pi_store_path p) (pi_nar_size p))) (nd_sent (rn_node t)))"
proof -
  have ok: "network_ok enc dec True net'"
    by (rule network_run_ok [OF assms(1) fresh_ok [OF assms(2)] assms(3)]) (simp add: list_all_iff)
  then have g: "caches_wf g" "informed dec net' g" using assms(4,5) by (auto simp: network_ok_def)
  have r: "said dec net' (NeedBuilder (ri_endpoint_id r) (ri_system_features r))" if "r \<in> set (get_matching_requesters fs g)" for r
    using requester_listed [OF g(1) that] g(2) by (simp add: informed_def)
  have p: "said dec net' (Have h (pi_store_path p) (pi_nar_size p))" if "p \<in> set (get_providers h g)" for p
    using provider_known [OF g(1) that] g(2) by (simp add: informed_def)
  have by_whom: "\<exists>t \<in> set net'. \<exists>gt. nd_gossip (rn_node t) = Some gt \<and> list_ex (\<lambda>b. dec b = Inr m) (nd_sent (rn_node t)) \<and>
      may_say True (gs_our_id gt) m" if said: "said dec net' m" for m
  proof -
    obtain b where b: "sent net' b" "dec b = Inr m" using said by (auto simp: said_def)
    from sent_message [OF ok assms(1) b(1)] b(2) show ?thesis by (fastforce simp: list_ex_iff)
  qed
  show ?thesis using by_whom [OF r] by_whom [OF p] by fastforce
qed


section \<open>A sample network\<close>

text \<open>Two nodes; the first gets a job, the second hears of it.\<close>

definition sample_codec_env :: daemon_env where
  "sample_codec_env = \<lparr>de_node = sample_node_env\<lparr>ne_encode_gossip :=
       (\<lambda>m. if m = NeedBuilder [1] [''kvm''] then Inr [5] else Inl ''unused'')\<rparr>, de_show_id = (\<lambda>_. ''id''),
     de_decode_gossip = (\<lambda>_. Inr (NeedBuilder [1] [''kvm''])), de_valid_id = (\<lambda>_. True), de_gossip_alpn = [9]\<rparr>"

definition sample_network :: "unit running list" where
  "sample_network = map (\<lambda>me. (sample_running (new_queue me))\<lparr>rn_node := empty_node me\<rparr>) [[1], [2]]"

definition sample_happenings :: "network_event list" where
  "sample_happenings = [Pushes 0 0 ''/nix/store/a.drv'' [''kvm''] [] [], Happens 1 (GossipArrives (Received [5] [1]))]"

lemma sample_network_ok:
  "one_codec (\<lambda>_. sample_codec_env) (\<lambda>m. if m = NeedBuilder [1] [''kvm''] then Inr [5] else Inl ''unused'')
     (\<lambda>_. Inr (NeedBuilder [1] [''kvm'']))" "fresh_network sample_network"
  by (simp_all add: one_codec_def sample_codec_env_def fresh_network_def sample_network_def empty_node_def gossip_new_def)

lemma sample_network_run:
  "\<exists>net s g r. network_run (\<lambda>_. sample_codec_env) sample_happenings sample_network = Some net \<and> s \<in> set net \<and>
     nd_gossip (rn_node s) = Some g \<and> get_matching_requesters [''kvm''] g = [r] \<and> ri_endpoint_id r = [1]"
proof -
  let ?de = "\<lambda>_ :: nat. sample_codec_env"
  have "\<exists>net. network_run ?de sample_happenings sample_network = Some net \<and> nd_gossip (rn_node (net ! 1)) =
      Some (receive_event (\<lambda>_. Inr (NeedBuilder [1] [''kvm''])) (\<lambda>_. True) (Received [5] [1]) (gossip_new [2] False False)) \<and> length net = 2"
    by (simp add: sample_happenings_def sample_network_def sample_codec_env_def on_node_def empty_node_def push_build_def push_def new_queue_def
        Let_def announce_need_builder_def broadcast_message_def to_bytes_def sent_def sample_node_env_def gossip_new_def)
  then obtain net where net: "network_run ?de sample_happenings sample_network = Some net" "length net = 2" "nd_gossip (rn_node (net ! 1)) =
      Some (receive_event (\<lambda>_. Inr (NeedBuilder [1] [''kvm''])) (\<lambda>_. True) (Received [5] [1]) (gossip_new [2] False False))" by blast
  have "net ! 1 \<in> set net" using net(2) by simp
  with net show ?thesis
    by (intro exI [of _ net] exI [of _ "net ! 1"])
       (simp add: handle_message_def from_bytes_def gossip_new_def get_matching_requesters_def matching_requesters_def
         add_requester_def hm_insert_def hm_remove_def Let_def)
qed

theorem discovery_authentic_witness:
  "\<exists>net s g r t. network_run (\<lambda>_. sample_codec_env) sample_happenings sample_network = Some net \<and> s \<in> set net \<and>
     nd_gossip (rn_node s) = Some g \<and> r \<in> set (get_matching_requesters [''kvm''] g) \<and> t \<in> set net \<and>
     map_option gs_our_id (nd_gossip (rn_node t)) = Some (ri_endpoint_id r)"
proof -
  obtain net s g r where n: "network_run (\<lambda>_. sample_codec_env) sample_happenings sample_network = Some net" "s \<in> set net"
      "nd_gossip (rn_node s) = Some g" "get_matching_requesters [''kvm''] g = [r]"
    using sample_network_run by blast
  from discovery_authentic [OF sample_network_ok n(1-3), of "[''kvm'']" "[]"] n(4)
  obtain t gt where "t \<in> set net" "nd_gossip (rn_node t) = Some gt" "gs_our_id gt = ri_endpoint_id r" by auto
  with n show ?thesis by (intro exI [of _ net] exI [of _ s] exI [of _ g] exI [of _ r] exI [of _ t]) simp
qed


end
