(* ===== verification/Terminal.thy ===== *)
theory Terminal
  imports Commands
begin

text \<open>
  What the commands print: the output helpers of \<open>cli.rs\<close> and the reports of \<open>main.rs\<close>, for people
  and as JSON. A report is the list of its lines with the stream they go to. Styling, \<open>paint\<close>, is a
  parameter, as is the JSON printer; spinners and progress bars are left out.
\<close>

section \<open>Styled lines\<close>

datatype paint = Green | Red | Yellow | Cyan | Bold | Dim | Underlined

text \<open>A line on one of the two streams, or text printed without a final newline.\<close>

datatype out_line = Stdout string | Stderr string | Printed string

type_synonym painter = "paint list \<Rightarrow> string \<Rightarrow> string"

definition cli_success :: "painter \<Rightarrow> string \<Rightarrow> out_line" where
  "cli_success paint msg = Stdout (paint [Green, Bold] ''[+]'' @ '' '' @ msg)"

definition cli_error :: "painter \<Rightarrow> string \<Rightarrow> out_line" where
  "cli_error paint msg = Stderr (paint [Red, Bold] ''[!]'' @ '' '' @ msg)"

definition cli_warn :: "painter \<Rightarrow> string \<Rightarrow> out_line" where
  "cli_warn paint msg = Stderr (paint [Yellow, Bold] ''[!]'' @ '' '' @ msg)"

definition cli_info :: "painter \<Rightarrow> string \<Rightarrow> out_line" where
  "cli_info paint msg = Stdout (paint [Cyan, Bold] ''[*]'' @ '' '' @ msg)"

definition cli_detail :: "painter \<Rightarrow> string \<Rightarrow> out_line" where
  "cli_detail paint msg = Stdout (paint [Dim] (''    '' @ msg))"

definition cli_key :: "painter \<Rightarrow> string \<Rightarrow> string" where "cli_key paint txt = paint [Bold] txt"
definition cli_value :: "painter \<Rightarrow> string \<Rightarrow> string" where "cli_value paint txt = paint [Cyan] txt"
definition status_ok :: "painter \<Rightarrow> string \<Rightarrow> string" where "status_ok paint txt = paint [Green] txt"
definition status_pending :: "painter \<Rightarrow> string \<Rightarrow> string" where "status_pending paint txt = paint [Yellow] txt"
definition status_error :: "painter \<Rightarrow> string \<Rightarrow> string" where "status_error paint txt = paint [Red] txt"

definition cli_header :: "painter \<Rightarrow> string \<Rightarrow> out_line list" where
  "cli_header paint txt = [Stdout [], Stdout (paint [Bold, Underlined] txt)]"

text \<open>Sixty times the character U+2500.\<close>

definition cli_separator :: "painter \<Rightarrow> out_line" where
  "cli_separator paint = Stdout (paint [Dim] (concat (replicate 60 [CHR 0xE2, CHR 0x94, CHR 0x80])))"

section \<open>Sizes\<close>

definition round_half_even :: "nat \<Rightarrow> nat \<Rightarrow> nat" where
  "round_half_even n d = (let q = n div d; r = n mod d in if 2 * r < d \<or> 2 * r = d \<and> even q then q else q + 1)"

text \<open>\<open>as f64\<close>: the nearest number with a mantissa of 53 bits, here always an integer.\<close>

function excess_bits :: "nat \<Rightarrow> nat" where
  "excess_bits n = (if n < 2 ^ 53 then 0 else Suc (excess_bits (n div 2)))"
  by pat_completeness auto
termination
  by (relation "measure id") auto

declare excess_bits.simps [simp del]

definition f64_of_u64 :: "u64 \<Rightarrow> nat" where
  "f64_of_u64 b = (let n = unat b; e = excess_bits n in round_half_even n (2 ^ e) * 2 ^ e)"

text \<open>
  \<open>{:.1}\<close> of a quotient by a power of two, which is exact in \<open>f64\<close>: rounded to tenths, a tie to
  the even digit.
\<close>

definition show_tenths :: "nat \<Rightarrow> string" where
  "show_tenths t = show_nat (t div 10) @ ''.'' @ show_nat (t mod 10)"

definition KB :: nat where "KB = 1024"
definition MB :: nat where "MB = KB * 1024"
definition GB :: nat where "GB = MB * 1024"

definition format_bytes :: "u64 \<Rightarrow> string" where
  "format_bytes b =
     (if unat b \<ge> GB then show_tenths (round_half_even (10 * f64_of_u64 b) GB) @ '' GB''
      else if unat b \<ge> MB then show_tenths (round_half_even (10 * f64_of_u64 b) MB) @ '' MB''
      else if unat b \<ge> KB then show_tenths (round_half_even (10 * f64_of_u64 b) KB) @ '' KB''
      else show_nat (unat b) @ '' B'')"

lemma round_half_even_near:
  assumes "0 < d"
  shows "2 * n \<le> (2 * round_half_even n d + 1) * d" "2 * (round_half_even n d * d) \<le> 2 * n + d"
proof -
  define q r where "q = n div d" and "r = n mod d"
  have n: "n = q * d + r" and r: "r < d" using assms by (simp_all add: q_def r_def)
  have e: "round_half_even n d = (if 2 * r < d \<or> 2 * r = d \<and> even q then q else q + 1)"
    by (simp add: round_half_even_def Let_def q_def r_def)
  show "2 * n \<le> (2 * round_half_even n d + 1) * d"
  proof (cases "2 * r < d \<or> 2 * r = d \<and> even q")
    case True
    then have "round_half_even n d = q" "2 * r \<le> d" using e by auto
    then show ?thesis unfolding n by (simp add: algebra_simps)
  next
    case False
    then have "round_half_even n d = q + 1" using e by auto
    with r show ?thesis unfolding n by (simp add: algebra_simps)
  qed
  show "2 * (round_half_even n d * d) \<le> 2 * n + d"
  proof (cases "2 * r < d \<or> 2 * r = d \<and> even q")
    case True
    then have "round_half_even n d = q" using e by auto
    then show ?thesis unfolding n by (simp add: algebra_simps)
  next
    case False
    then have "round_half_even n d = q + 1" "d \<le> 2 * r" using e by auto
    then show ?thesis unfolding n by (simp add: algebra_simps)
  qed
qed

lemma f64_exact: "unat b < 2 ^ 53 \<Longrightarrow> f64_of_u64 b = unat b"
  by (subst f64_of_u64_def, subst excess_bits.simps) (simp add: round_half_even_def)

definition size_unit :: "u64 \<Rightarrow> nat \<times> string" where
  "size_unit b = (if unat b \<ge> GB then (GB, '' GB'') else if unat b \<ge> MB then (MB, '' MB'') else (KB, '' KB''))"

text \<open>
  A size of at least a kilobyte is shown in the greatest unit it reaches, to within a twentieth of
  the unit (for sizes below 2^53, which are exact as floating-point numbers); smaller sizes are
  shown as they are.
\<close>

theorem format_bytes_accurate:
  assumes "unat b < 2 ^ 53"
  shows "if unat b < KB then format_bytes b = show_nat (unat b) @ '' B''
    else \<exists>t. format_bytes b = show_tenths t @ snd (size_unit b) \<and> fst (size_unit b) \<le> unat b \<and>
      20 * unat b \<le> (2 * t + 1) * fst (size_unit b) \<and> 2 * (t * fst (size_unit b)) \<le> 20 * unat b + fst (size_unit b)"
proof (cases "unat b < KB")
  case True
  then show ?thesis by (simp add: format_bytes_def KB_def MB_def GB_def)
next
  case False
  let ?u = "fst (size_unit b)" let ?t = "round_half_even (10 * unat b) ?u"
  have u: "0 < ?u" "?u \<le> unat b" using False by (auto simp: size_unit_def KB_def MB_def GB_def)
  have "format_bytes b = show_tenths ?t @ snd (size_unit b)"
    using False by (simp add: format_bytes_def size_unit_def f64_exact [OF assms])
  with u round_half_even_near [OF u(1), of "10 * unat b"] False show ?thesis
    unfolding if_not_P [OF False] by (intro exI [of _ ?t]) simp
qed

theorem format_bytes_accurate_witness:
  "\<exists>t. format_bytes 1536 = show_tenths t @ '' KB'' \<and> 30720 \<le> (2 * t + 1) * 1024 \<and> 2 * (t * 1024) \<le> 31744"
  using format_bytes_accurate [of 1536] by (auto simp: size_unit_def KB_def MB_def GB_def)

lemma show_nat_step:
  "n < 10 \<Longrightarrow> show_nat n = [digit_char n]" "\<not> n < 10 \<Longrightarrow> show_nat n = show_nat (n div 10) @ [digit_char (n mod 10)]"
  by (subst show_nat.simps, simp)+

text \<open>The values of the unit tests, and a size just below a megabyte.\<close>

lemma format_bytes_samples:
  "format_bytes 500 = ''500 B''" "format_bytes 1024 = ''1.0 KB''" "format_bytes 1536 = ''1.5 KB''"
  "format_bytes 0x100000 = ''1.0 MB''" "format_bytes 0x40000000 = ''1.0 GB''" "format_bytes 0xFFFFF = ''1024.0 KB''"
  by (simp_all add: format_bytes_def f64_exact KB_def MB_def GB_def round_half_even_def Let_def show_tenths_def
      show_nat_step digit_char_def char_of_def bit_Suc_0_iff)

end
