(* ===== verification/Reports.thy ===== *)
theory Reports
  imports Terminal Daemon
begin

text \<open>
  What the commands of \<open>main.rs\<close> print, for people or as JSON, how they leave their node, and the
  end of a daemon. The JSON printer, the display of endpoint ids and the styling are parameters.
  Lines of progress bars and of the log are left out.
\<close>

datatype json = JString string | JNumber u64 | JBool bool | JArray "json list" | JObject "(string \<times> json) list"

record report_env =
  rp_paint :: painter
  rp_json :: "json \<Rightarrow> string"
  rp_id :: "endpoint_id \<Rightarrow> string"
  rp_hex :: "byte list \<Rightarrow> string"

text \<open>What a command printed and how it ended; a node is shut down after a command that succeeded.\<close>

type_synonym printed = "out_line list \<times> unit result"

definition then_shutdown :: "unit result \<Rightarrow> printed \<Rightarrow> printed" where
  "then_shutdown shutdown p = (fst p, rbind (snd p) (\<lambda>_. shutdown))"

definition key_line :: "report_env \<Rightarrow> string \<Rightarrow> string \<Rightarrow> out_line" where
  "key_line rp k v = Stdout (''  '' @ cli_key (rp_paint rp) k @ '': '' @ v)"

definition enabled_text :: "report_env \<Rightarrow> bool \<Rightarrow> string" where
  "enabled_text rp b = (if b then status_ok (rp_paint rp) ''enabled'' else status_pending (rp_paint rp) ''disabled'')"

section \<open>The node\<close>

definition stats_json :: "string \<Rightarrow> 'u node \<Rightarrow> node_stats \<Rightarrow> json" where
  "stats_json shown nd stats = JObject
     [(''endpoint_id'', JString shown), (''gossip_enabled'', JBool (gossip_enabled nd)),
      (''build_enabled'', JBool (build_enabled nd)), (''cached_entries'', JNumber (ns_entry_count stats)),
      (''total_blob_size'', JNumber (ns_total_blob_size stats))]"

definition stats_lines :: "report_env \<Rightarrow> string \<Rightarrow> string \<Rightarrow> 'u node \<Rightarrow> node_stats \<Rightarrow> out_line list" where
  "stats_lines rp title shown nd stats = cli_header (rp_paint rp) title @
     [key_line rp ''Endpoint ID'' (cli_value (rp_paint rp) shown),
      key_line rp ''Gossip'' (enabled_text rp (gossip_enabled nd)),
      key_line rp ''Build queue'' (enabled_text rp (build_enabled nd)),
      key_line rp ''Cached entries'' (cli_value (rp_paint rp) (show_nat (unat (ns_entry_count stats)))),
      key_line rp ''Total blob size'' (cli_value (rp_paint rp) (format_bytes (ns_total_blob_size stats)))]"

definition show_info :: "report_env \<Rightarrow> node_env \<Rightarrow> unit result \<Rightarrow> bool \<Rightarrow> 'u node \<Rightarrow> printed" where
  "show_info rp ne shutdown json_output nd =
     (case node_stats_of ne nd of
        Inl e \<Rightarrow> ([], Inl e)
      | Inr stats \<Rightarrow> then_shutdown shutdown
          (if json_output then [Stdout (rp_json rp (stats_json (rp_id rp (nd_id nd)) nd stats))]
           else stats_lines rp ''Node Information'' (rp_id rp (nd_id nd)) nd stats, Inr ()))"

definition show_stats :: "report_env \<Rightarrow> node_env \<Rightarrow> unit result \<Rightarrow> bool \<Rightarrow> 'u node \<Rightarrow> printed" where
  "show_stats rp ne shutdown json_output nd =
     (case node_stats_of ne nd of
        Inl e \<Rightarrow> ([], Inl e)
      | Inr stats \<Rightarrow> then_shutdown shutdown
          (if json_output then [Stdout (rp_json rp (stats_json (rp_id rp (ns_endpoint_id stats)) nd stats))]
           else stats_lines rp ''Node Statistics'' (rp_id rp (ns_endpoint_id stats)) nd stats, Inr ()))"

section \<open>The index\<close>

definition report_added :: "report_env \<Rightarrow> node_env \<Rightarrow> ('u node \<Rightarrow> unit result) \<Rightarrow> bool \<Rightarrow> string \<Rightarrow> string option \<Rightarrow> 'u node \<Rightarrow>
    printed \<times> 'u node" where
  "report_added rp ne shutdown json_output store_path path nd =
     (case add_store_path ne store_path path nd of
        (Inl e, nd') \<Rightarrow> (([], Inl e), nd')
      | (Inr entry, nd') \<Rightarrow> (then_shutdown (shutdown nd')
          (if json_output then [Stdout (rp_json rp (JObject
             [(''store_path'', JString store_path), (''blake3'', JString (rp_hex rp (he_blake3 entry))),
              (''sha256'', JString (rp_hex rp (he_sha256 entry))), (''nar_size'', JNumber (he_nar_size entry)),
              (''gossip_announced'', JBool (gossip_enabled nd'))]))]
           else [cli_detail (rp_paint rp) (''BLAKE3: '' @ rp_hex rp (he_blake3 entry)),
                 cli_detail (rp_paint rp) (''SHA256: '' @ rp_hex rp (he_sha256 entry)),
                 cli_detail (rp_paint rp) (''Size: '' @ format_bytes (he_nar_size entry))] @
                (if gossip_enabled nd' then [cli_detail (rp_paint rp) (''Gossip: '' @ status_ok (rp_paint rp) ''announced'')]
                 else []), Inr ()), nd'))"

definition entry_json :: "report_env \<Rightarrow> hash_entry \<Rightarrow> json" where
  "entry_json rp e = JObject [(''store_path'', JString (he_store_path e)), (''blake3'', JString (rp_hex rp (he_blake3 e))),
     (''sha256'', JString (rp_hex rp (he_sha256 e))), (''nar_size'', JNumber (he_nar_size e))]"

definition report_list :: "report_env \<Rightarrow> node_env \<Rightarrow> unit result \<Rightarrow> bool \<Rightarrow> 'u node \<Rightarrow> printed" where
  "report_list rp ne shutdown json_output nd =
     (case list_store_paths ne nd of
        Inl e \<Rightarrow> ([], Inl e)
      | Inr entries \<Rightarrow> then_shutdown shutdown
          (if json_output then [Stdout (rp_json rp (JArray (map (entry_json rp) entries)))]
           else if entries = [] then [cli_info (rp_paint rp) ''No store paths cached'']
           else cli_header (rp_paint rp) (''Cached Store Paths ('' @ show_nat (length entries) @ '')'') @
             map (\<lambda>e. Stdout (''  '' @ cli_value (rp_paint rp) (he_store_path e) @ '' ('' @ format_bytes (he_nar_size e) @ '')'')) entries @
             [cli_separator (rp_paint rp),
              cli_detail (rp_paint rp) (''Total: '' @ show_nat (length entries) @ '' entries, '' @
                format_bytes (sum_list (map he_nar_size entries)))], Inr ()))"

section \<open>Providers\<close>

definition provider_json :: "report_env \<Rightarrow> provider_info \<Rightarrow> json" where
  "provider_json rp p = JObject [(''endpoint_id'', JString (rp_id rp (pi_endpoint_id p))),
     (''store_path'', JString (pi_store_path p)), (''nar_size'', JNumber (pi_nar_size p))]"

definition report_providers :: "report_env \<Rightarrow> bool \<Rightarrow> provider_info list \<Rightarrow> out_line list" where
  "report_providers rp json_output providers =
     (if json_output then [Stdout (rp_json rp (JArray (map (provider_json rp) providers)))]
      else if providers = [] then [cli_warn (rp_paint rp) ''No providers found'']
      else cli_success (rp_paint rp) (''Found '' @ show_nat (length providers) @ '' provider(s)'') #
        map (\<lambda>p. Stdout (''  '' @ cli_value (rp_paint rp) (rp_id rp (pi_endpoint_id p)) @ '' - '' @ pi_store_path p @ '' ('' @
          format_bytes (pi_nar_size p) @ '')'')) providers)"

definition report_imported :: "report_env \<Rightarrow> import_result \<Rightarrow> out_line list" where
  "report_imported rp im =
     [Stdout (''Fetched: '' @ im_store_path im), Stdout (''  BLAKE3: '' @ rp_hex rp (im_blake3 im)),
      Stdout (''  SHA256: '' @ rp_hex rp (im_sha256 im)),
      Stdout (''  Size: '' @ show_nat (unat (im_nar_size im)) @ '' bytes'')]"

section \<open>The daemon's first and last words\<close>

definition daemon_banner :: "report_env \<Rightarrow> 'k node_config \<Rightarrow> daemon_args \<Rightarrow> 'u node \<Rightarrow> out_line list" where
  "daemon_banner rp config a nd =
     (let paint = rp_paint rp; me = rp_id rp (nd_id nd) in
      [cli_success paint ''iroh-nix daemon started'', cli_detail paint (''Endpoint ID: '' @ me)] @
      (if nc_network_id config \<noteq> None
       then [cli_detail paint (''Gossip: '' @ status_ok paint ''enabled''),
             cli_detail paint (''Build queue: '' @ status_ok paint ''enabled'')]
       else [cli_detail paint (''Gossip: '' @ status_pending paint ''disabled'' @ '' (use --network to enable)'')]) @
      [cli_detail paint (if nc_substituters config = [] then ''HTTP substituters: '' @ status_pending paint ''disabled''
         else ''HTTP substituters: '' @ status_ok paint ''enabled'' @ '' ('' @ join '', '' (nc_substituters config) @ '')''),
       cli_detail paint (''HTTP cache: http://'' @ da_bind a),
       cli_detail paint (if builder_enabled a
         then ''Builder: '' @ status_ok paint ''enabled'' @ '' (features: '' @ join '', '' (builder_features (da_features a)) @ '')''
         else ''Builder: '' @ status_pending paint ''disabled'' @ '' (use --builder to enable)'')] @
      cli_header paint ''Endpoint address (share with peers)'' @
      [Stdout (''  '' @ cli_value paint me), cli_info paint ''Press Ctrl+C to stop.''])"

text \<open>
  The start with what it prints: the banner comes before the bind address is looked at. The first
  two arguments are those of \<open>run_daemon\<close>.
\<close>

definition start_daemon :: "(string \<Rightarrow> string + string) \<Rightarrow> ('k node_config \<Rightarrow> 'u node result) \<Rightarrow> report_env \<Rightarrow> 'k node_config \<Rightarrow>
    daemon_args \<Rightarrow> out_line list \<times> ('u node \<times> daemon) result" where
  "start_daemon parse_addr spawned rp config a =
     (if builder_enabled a \<and> nc_network_id config = None then [] else
        (case spawned config of Inl _ \<Rightarrow> [] | Inr nd \<Rightarrow> daemon_banner rp config a nd),
      run_daemon parse_addr spawned config a)"

text \<open>
  How a task ends after the cancellation: by itself, with a panic, or not within the five seconds
  that all tasks together are given. The tasks are awaited in order.
\<close>

datatype task_end = TaskDone | TaskPanicked | TaskHangs

datatype shutdown_log = PanicLogged | TimeoutLogged | SharedLogged

fun await_tasks :: "task_end list \<Rightarrow> shutdown_log list" where
  "await_tasks [] = []"
| "await_tasks (TaskDone # ts) = await_tasks ts"
| "await_tasks (TaskPanicked # ts) = PanicLogged # await_tasks ts"
| "await_tasks (TaskHangs # ts) = [TimeoutLogged]"

text \<open>
  The end of the daemon: with the tasks gone or aborted the node is shut down, unless a handler
  still refers to it.
\<close>

definition end_daemon :: "report_env \<Rightarrow> task_end list \<Rightarrow> bool \<Rightarrow> unit result \<Rightarrow> shutdown_log list \<times> printed" where
  "end_daemon rp tasks node_shared shutdown =
     (let logs = await_tasks tasks; stopped = [cli_success (rp_paint rp) ''Daemon stopped''] in
      if node_shared then (logs @ [SharedLogged], (stopped, Inr ()))
      else (logs, case shutdown of Inl e \<Rightarrow> ([], Inl e) | Inr _ \<Rightarrow> (stopped, Inr ())))"

section \<open>Lemmas\<close>

text \<open>\<open>info\<close> and \<open>stats\<close> are the same report but for its title.\<close>

lemma stats_is_info: "show_stats rp ne shutdown True nd = show_info rp ne shutdown True nd"
  by (auto simp: show_stats_def show_info_def node_stats_of_def split: sum.splits)

text \<open>The total below a listing is the size \<open>stats\<close> reports.\<close>

lemma listed_total:
  assumes "list_store_paths ne nd = Inr es" "es \<noteq> []" "node_stats_of ne nd = Inr stats"
  shows "last (fst (report_list rp ne shutdown False nd)) =
    cli_detail (rp_paint rp) (''Total: '' @ show_nat (length es) @ '' entries, '' @ format_bytes (ns_total_blob_size stats))"
  using assms by (auto simp: report_list_def node_stats_of_def list_store_paths_def then_shutdown_def)

text \<open>A listing has a line for each entry beside its four others, as JSON an object for each.\<close>

lemma listed_lines:
  assumes "list_store_paths ne nd = Inr es" "es \<noteq> []"
  shows "length (fst (report_list rp ne shutdown False nd)) = length es + 4"
  using assms by (simp add: report_list_def then_shutdown_def cli_header_def)

text \<open>
  The banner promises a started daemon and its HTTP cache also when the bind address does not parse
  and the daemon ends with that error.
\<close>

theorem banner_before_address:
  assumes "spawned config = Inr nd" "parse_addr (da_bind a) = Inl e" "builder_enabled a \<longrightarrow> nc_network_id config \<noteq> None"
  shows "\<exists>out. start_daemon parse_addr spawned rp config a =
      (out, throw (Protocol (''invalid bind address '' @ [CHR 0x27] @ da_bind a @ [CHR 0x27] @ '': '' @ e))) \<and>
    cli_success (rp_paint rp) ''iroh-nix daemon started'' \<in> set out \<and>
    cli_detail (rp_paint rp) (''HTTP cache: http://'' @ da_bind a) \<in> set out"
  using assms by (auto simp: start_daemon_def run_daemon_def daemon_banner_def Let_def)

theorem banner_before_address_witness:
  "\<exists>out nd. start_daemon (\<lambda>_. Inl ''bad'') (\<lambda>_. Inr (empty_node [1]))
      \<lparr>rp_paint = (\<lambda>_ txt. txt), rp_json = (\<lambda>_. []), rp_id = (\<lambda>_. ''id''), rp_hex = (\<lambda>_. [])\<rparr>
      (node_config_new ''d'' :: nat node_config)
      \<lparr>da_bind = ''x'', da_priority = 40, da_builder = False, da_features = [], da_stream_logs = False, da_cleanup_interval = 0\<rparr> =
    (out, nd) \<and> \<not> is_ok nd \<and> Stdout ''[+] iroh-nix daemon started'' \<in> set out"
  using banner_before_address [of "\<lambda>_. Inr (empty_node [1])" "node_config_new ''d'' :: nat node_config" "empty_node [1]" "\<lambda>_. Inl ''bad''"
    "\<lparr>da_bind = ''x'', da_priority = 40, da_builder = False, da_features = [], da_stream_logs = False, da_cleanup_interval = 0\<rparr>" "''bad''"
    "\<lparr>rp_paint = (\<lambda>_ txt. txt), rp_json = (\<lambda>_. []), rp_id = (\<lambda>_. ''id''), rp_hex = (\<lambda>_. [])\<rparr>"]
  by (auto simp: builder_enabled_def cli_success_def)

text \<open>A panic is logged only of the tasks before the first that hangs.\<close>

lemma await_tasks_logs:
  "await_tasks ts = replicate (length (filter (\<lambda>t. t = TaskPanicked) (takeWhile (\<lambda>t. t \<noteq> TaskHangs) ts))) PanicLogged @
     (if TaskHangs \<in> set ts then [TimeoutLogged] else [])"
  by (induction ts rule: await_tasks.induct) auto

end
