(* ===== verification/Main_Command.thy ===== *)
theory Main_Command
  imports Reports Build_Push
begin

text \<open>
  The command line of \<open>main.rs\<close>: the subcommands and what \<open>main\<close> does with each of them, with the
  lines they print and their results. A command that does not return is \<open>None\<close>.
\<close>

section \<open>Subcommands\<close>

datatype command =
  DaemonCmd daemon_args
| InfoCmd
| AddCmd string "string option"
| FetchCmd "string option" string u32 u64
| ListCmd
| StatsCmd
| QueryCmd string
| BuildPushCmd string "string list"
| BuildQueueCmd
| BuildLogsCmd "u64 option"
| BuildHookCmd string "u32 option"

text \<open>
  The environment of a process: the parsers of the libraries, the start and the shutdown of its
  node, the world the node sees, what the node hears while \<open>fetch\<close> and \<open>query\<close> wait, how the tasks
  of a daemon end and whether something still refers to the node then, the log entries that arrive
  before Ctrl+C, the arguments of \<open>build_push\<close>, where \<open>pc_plan\<close> is \<open>create_build_plan\<close> in its
  environment, and \<open>run_build_hook\<close> in its environment on a socket.
\<close>

record ('k, 'u) process =
  pc_parse_relay :: "string \<Rightarrow> string + string"
  pc_parse_id :: "string \<Rightarrow> string + endpoint_id"
  pc_parse_addr :: "string \<Rightarrow> string + string"
  pc_unhex :: "string \<Rightarrow> string + byte list"
  pc_spawned :: "'k node_config \<Rightarrow> 'u node result"
  pc_shutdown :: "'u node \<Rightarrow> unit result"
  pc_node :: node_env
  pc_report :: report_env
  pc_wait :: "'u node \<Rightarrow> 'u node"
  pc_later :: "'u node \<Rightarrow> 'u node"
  pc_dial :: "endpoint_id \<Rightarrow> nat \<Rightarrow> remote"
  pc_tasks :: "task_end list"
  pc_shared :: bool
  pc_logs :: "log_entry list"
  pc_push :: "'u push_env"
  pc_clock :: "drv_info \<Rightarrow> u64"
  pc_hash_order :: "string list \<Rightarrow> string list"
  pc_plan :: "string \<Rightarrow> build_plan result"
  pc_hook :: "string \<Rightarrow> unit result option"

section \<open>The commands with their output\<close>

text \<open>
  The last node of a long command is shut down only when nothing else refers to it.
\<close>

definition shutdown_unless_shared :: "bool \<Rightarrow> unit result \<Rightarrow> printed" where
  "shutdown_unless_shared shared shutdown =
     (if shared then ([Stderr ''Warning: could not cleanly shutdown node''], Inr ()) else ([], shutdown))"

definition fetch_lines :: "('k, 'u) process \<Rightarrow> string option \<Rightarrow> string \<Rightarrow> u32 \<Rightarrow> u64 \<Rightarrow> 'u node \<Rightarrow> out_line list" where
  "fetch_lines pc frm hash retries delay_ms nd =
     (case blake3_from_hex (pc_unhex pc) hash of
        Inl e \<Rightarrow> []
      | Inr h \<Rightarrow>
          (case frm of
             Some peer \<Rightarrow>
               (case pc_parse_id pc peer of
                  Inl e \<Rightarrow> []
                | Inr remote_id \<Rightarrow>
                    Stdout (''Fetching '' @ hash @ '' from '' @ rp_id (pc_report pc) remote_id @ ''...'') #
                    (if retries > 0
                     then [Stdout (''  (retries: '' @ show_nat (unat retries) @ '', initial delay: '' @ show_nat (unat delay_ms) @ ''ms)'')]
                     else []))
           | None \<Rightarrow>
               if \<not> gossip_enabled nd then []
               else Stdout (''Querying gossip for providers of '' @ hash @ ''...'') #
                 (if fst (query_providers (pc_node pc) h nd) = Inr [] then [Stdout ''Waiting for responses...''] else []) @
                 (case find_provider (pc_wait pc) (pc_later pc) (pc_node pc) h nd of
                    (Inr p, _) \<Rightarrow> [Stdout (''Found provider: '' @ rp_id (pc_report pc) (pi_endpoint_id p))]
                  | _ \<Rightarrow> [])))"

definition fetch_command :: "('k, 'u) process \<Rightarrow> string option \<Rightarrow> string \<Rightarrow> u32 \<Rightarrow> u64 \<Rightarrow> 'u node \<Rightarrow> printed" where
  "fetch_command pc frm hash retries delay_ms nd =
     (case fetch_nar_cmd (pc_unhex pc) (pc_parse_id pc) (pc_wait pc) (pc_later pc) (pc_node pc) (pc_dial pc) frm hash
             retries delay_ms nd of
        (Inl e, nd') \<Rightarrow> (fetch_lines pc frm hash retries delay_ms nd, Inl e)
      | (Inr im, nd') \<Rightarrow> then_shutdown (pc_shutdown pc nd')
          (fetch_lines pc frm hash retries delay_ms nd @ report_imported (pc_report pc) im, Inr ()))"

definition query_command :: "('k, 'u) process \<Rightarrow> bool \<Rightarrow> string \<Rightarrow> 'u node \<Rightarrow> printed" where
  "query_command pc json_output hash nd =
     (case query_providers_cmd (pc_unhex pc) (pc_wait pc) (pc_node pc) hash nd of
        (Inl e, nd') \<Rightarrow> ([], Inl e)
      | (Inr providers, nd') \<Rightarrow> then_shutdown (pc_shutdown pc nd') (report_providers (pc_report pc) json_output providers, Inr ()))"

definition queue_command :: "('k, 'u) process \<Rightarrow> 'u node \<Rightarrow> printed" where
  "queue_command pc nd =
     (case show_build_queue (rp_id (pc_report pc)) nd of
        Inl e \<Rightarrow> ([], Inl e)
      | Inr ls \<Rightarrow> then_shutdown (pc_shutdown pc nd) (map Stdout ls, Inr ()))"

definition logs_command :: "('k, 'u) process \<Rightarrow> u64 option \<Rightarrow> 'u node \<Rightarrow> printed" where
  "logs_command pc job nd =
     (case watch_subscribe job nd of
        Inl e \<Rightarrow> ([], Inl e)
      | Inr nd' \<Rightarrow>
          (case shutdown_unless_shared (pc_shared pc) (pc_shutdown pc nd') of
             (warning, res) \<Rightarrow>
               ([Stdout (case job of Some jid \<Rightarrow> ''Watching logs for job '' @ show_nat (unat jid) @ ''...''
                                   | None \<Rightarrow> ''Watching logs for all jobs...''),
                 Stdout (''Press Ctrl+C to stop.'' @ [CHR 0x0A])] @
                map (Printed \<circ> log_text (ne_lossy (pc_node pc))) (pc_logs pc) @
                [Stdout (CHR 0x0A # ''Stopping log watch...'')] @ warning, res)))"

definition daemon_command :: "('k, 'u) process \<Rightarrow> 'k node_config \<Rightarrow> daemon_args \<Rightarrow> printed" where
  "daemon_command pc config a =
     (case start_daemon (pc_parse_addr pc) (pc_spawned pc) (pc_report pc) config a of
        (banner, Inl e) \<Rightarrow> (banner, Inl e)
      | (banner, Inr (nd, dm)) \<Rightarrow>
          (case end_daemon (pc_report pc) (pc_tasks pc) (pc_shared pc) (pc_shutdown pc nd) of
             (logs, out, res) \<Rightarrow> (banner @ [cli_info (rp_paint (pc_report pc)) ''Shutting down...''] @ out, res)))"

text \<open>The progress \<open>build-push\<close> prints is left out.\<close>

definition push_command :: "('k, 'u) process \<Rightarrow> string \<Rightarrow> string list \<Rightarrow> 'u node \<Rightarrow> printed option" where
  "push_command pc drv_path features nd =
     map_option (\<lambda>(res, s). case res of
         Inl e \<Rightarrow> ([], Inl e)
       | Inr _ \<Rightarrow> (case pc_plan pc drv_path of
             Inl _ \<Rightarrow> ([], res)
           | Inr p \<Rightarrow>
               if bp_to_build p = []
               then ([Stdout ''Nothing to build - all outputs already exist locally''], pc_shutdown pc (pu_node s))
               else shutdown_unless_shared (pc_shared pc) (pc_shutdown pc (pu_node s))))
       (build_push (pc_push pc) (pc_node pc) (pc_clock pc) (pc_hash_order pc) (pc_plan pc drv_path) features nd)"

section \<open>\<open>main\<close>\<close>

text \<open>A command that fails to start its node prints nothing.\<close>

definition with_node :: "('k, 'u) process \<Rightarrow> 'k node_config \<Rightarrow> ('u node \<Rightarrow> printed) \<Rightarrow> printed option" where
  "with_node pc config f = Some (case pc_spawned pc config of Inl e \<Rightarrow> ([], Inl e) | Inr nd \<Rightarrow> f nd)"

fun run_command :: "('k, 'u) process \<Rightarrow> 'k node_config \<Rightarrow> bool \<Rightarrow> command \<Rightarrow> printed option" where
  "run_command pc config json (DaemonCmd a) = Some (daemon_command pc config a)"
| "run_command pc config json InfoCmd =
     with_node pc config (\<lambda>nd. show_info (pc_report pc) (pc_node pc) (pc_shutdown pc nd) json nd)"
| "run_command pc config json (AddCmd store_path path) =
     with_node pc config (\<lambda>nd. fst (report_added (pc_report pc) (pc_node pc) (pc_shutdown pc) json store_path path nd))"
| "run_command pc config json (FetchCmd frm hash retries delay_ms) =
     with_node pc config (fetch_command pc frm hash retries delay_ms)"
| "run_command pc config json ListCmd =
     with_node pc config (\<lambda>nd. report_list (pc_report pc) (pc_node pc) (pc_shutdown pc nd) json nd)"
| "run_command pc config json StatsCmd =
     with_node pc config (\<lambda>nd. show_stats (pc_report pc) (pc_node pc) (pc_shutdown pc nd) json nd)"
| "run_command pc config json (QueryCmd hash) = with_node pc config (query_command pc json hash)"
| "run_command pc config json (BuildPushCmd drv_path features) =
     (case pc_spawned pc config of
        Inl e \<Rightarrow> Some ([], Inl e) | Inr nd \<Rightarrow> push_command pc drv_path features nd)"
| "run_command pc config json BuildQueueCmd = with_node pc config (queue_command pc)"
| "run_command pc config json (BuildLogsCmd job) = with_node pc config (logs_command pc job)"
| "run_command pc config json (BuildHookCmd socket verbosity) = map_option (Pair []) (pc_hook pc socket)"

definition run_main :: "('k, 'u) process \<Rightarrow> cli \<Rightarrow> bool \<Rightarrow> command \<Rightarrow> printed option" where
  "run_main pc cl json cmd =
     (case config_of_cli (pc_parse_relay pc) (pc_parse_id pc) cl of
        Inl e \<Rightarrow> Some ([], Inl e) | Inr config \<Rightarrow> run_command pc config json cmd)"

section \<open>Properties\<close>

text \<open>The subcommands that heed \<open>--json\<close>.\<close>

fun heeds_json :: "command \<Rightarrow> bool" where
  "heeds_json InfoCmd = True"
| "heeds_json (AddCmd _ _) = True"
| "heeds_json ListCmd = True"
| "heeds_json StatsCmd = True"
| "heeds_json (QueryCmd _) = True"
| "heeds_json _ = False"

text \<open>The other subcommands print the same with and without the flag.\<close>

lemma json_ignored: "\<not> heeds_json cmd \<Longrightarrow> run_command pc config json cmd = run_command pc config json' cmd"
  by (cases cmd) simp_all

text \<open>One JSON document after a success, nothing after a failure.\<close>

definition json_shape :: "report_env \<Rightarrow> printed \<Rightarrow> bool" where
  "json_shape rp p \<longleftrightarrow> (case snd p of Inl _ \<Rightarrow> fst p = [] | Inr _ \<Rightarrow> \<exists>j. fst p = [Stdout (rp_json rp j)])"

lemma json_shapeI [intro]: "json_shape rp ([], Inl e)" "json_shape rp ([Stdout (rp_json rp j)], Inr ())"
  by (auto simp: json_shape_def)

lemma with_node_shape: "(\<And>nd. json_shape rp (f nd)) \<Longrightarrow> \<exists>p. with_node pc config f = Some p \<and> json_shape rp p"
  by (auto simp: with_node_def split: sum.split)

lemma report_shapes:
  "json_shape rp (show_info rp ne (Inr ()) True nd)"
  "json_shape rp (show_stats rp ne (Inr ()) True nd)"
  "json_shape rp (report_list rp ne (Inr ()) True nd)"
  "(\<And>nd. shutdown nd = Inr ()) \<Longrightarrow> json_shape rp (fst (report_added rp ne shutdown True store_path path nd))"
  by (auto simp: show_info_def show_stats_def report_list_def report_added_def then_shutdown_def split: sum.split prod.split)

lemma query_shape: "(\<And>nd. pc_shutdown pc nd = Inr ()) \<Longrightarrow> json_shape (pc_report pc) (query_command pc True hash nd)"
  by (auto simp: query_command_def report_providers_def then_shutdown_def split: sum.split prod.split)

text \<open>
  With \<open>--json\<close> the subcommands that heed it always return; when they succeed they have printed one
  JSON document and nothing else, and when they fail, nothing.
\<close>

theorem json_output:
  assumes "heeds_json cmd" "\<And>nd. pc_shutdown pc nd = Inr ()"
  shows "\<exists>p. run_main pc cl True cmd = Some p \<and> json_shape (pc_report pc) p"
proof -
  have "\<exists>p. run_command pc config True cmd = Some p \<and> json_shape (pc_report pc) p" for config
    using assms(1)
    by (cases cmd) (auto simp del: split_paired_Ex simp: report_shapes query_shape assms(2) intro!: with_node_shape)
  then show ?thesis by (auto simp: run_main_def split: sum.split)
qed

text \<open>A process whose node has nothing in its index.\<close>

definition sample_process :: "(nat, unit) process" where
  "sample_process = \<lparr>pc_parse_relay = Inl, pc_parse_id = (\<lambda>_. Inl []), pc_parse_addr = Inr, pc_unhex = (\<lambda>_. Inl ''odd''),
     pc_spawned = (\<lambda>_. Inr (empty_node [1])), pc_shutdown = (\<lambda>_. Inr ()), pc_node = sample_node_env,
     pc_report = \<lparr>rp_paint = (\<lambda>_ txt. txt), rp_json = (\<lambda>j. case j of JArray [] \<Rightarrow> ''[]'' | _ \<Rightarrow> ''{}''), rp_id = (\<lambda>_. ''id''), rp_hex = (\<lambda>_. [])\<rparr>,
     pc_wait = (\<lambda>nd. nd), pc_later = (\<lambda>nd. nd), pc_dial = (\<lambda>_ _. serve_remote (serving sample_node_env) [] (\<lambda>n. n)),
     pc_tasks = [], pc_shared = False, pc_logs = [],
     pc_push = \<lparr>ps_turn = (\<lambda>_. CancelTurn), ps_before = (\<lambda>_ nd. nd), ps_during = (\<lambda>_ nd. nd), ps_valid_id = (\<lambda>_. True),
       ps_dial = (\<lambda>_ _. serve_remote (serving sample_node_env) [] (\<lambda>n. n)), ps_restore = (\<lambda>_ _. Inl [])\<rparr>,
     pc_clock = (\<lambda>_. 0), pc_hash_order = (\<lambda>xs. xs), pc_plan = (\<lambda>_. throw (Protocol [])), pc_hook = (\<lambda>_. None)\<rparr>"

definition sample_cli :: cli where
  "sample_cli = \<lparr>cl_data_dir = ''d'', cl_relay_mode = ''default'', cl_network = None, cl_peers = [], cl_substituters = [],
     cl_no_substituters = False\<rparr>"

lemma sample_list: "run_main sample_process sample_cli True ListCmd = Some ([Stdout ''[]''], Inr ())"
  by (simp add: run_main_def config_of_cli_def relay_config_def sample_cli_def sample_process_def with_node_def report_list_def
      list_store_paths_def with_index_def lock_or_err_def sample_node_env_def empty_node_def list_all_entries_def with_sql_def
      then_shutdown_def)

theorem json_output_witness:
  "heeds_json ListCmd \<and> (\<exists>p. run_main sample_process sample_cli True ListCmd = Some p \<and> fst p = [Stdout ''[]''] \<and>
     json_shape (pc_report sample_process) p)"
proof -
  have "pc_shutdown sample_process nd = Inr ()" for nd by (simp add: sample_process_def)
  from json_output [OF _ this, of ListCmd sample_cli] sample_list show ?thesis by auto
qed

end
