(* ===== verification/Spec2Isabelle.thy ===== *)
theory Spec2Isabelle
  imports Gc Build_Hook Build_Push Queue_Concurrent Build_Loop Daemon_Machine Network Main_Command
begin

text \<open>
  A model of \<^verbatim>\<open>iroh-nix\<close>, a distributed build system for Nix, in 40 theories beside this one. All
  file names below are under \<^verbatim>\<open>src/iroh-nix/src/\<close>.

  \<^bold>\<open>The program.\<close> A node keeps an index of the store paths it can serve (\<^verbatim>\<open>hash_index.rs\<close>), a gossip
  service that learns who has which path and who needs builders (\<^verbatim>\<open>gossip.rs\<close>) and, with gossip, a
  build queue (\<^verbatim>\<open>build.rs\<close>). It serves NAR archives to peers (\<^verbatim>\<open>transfer.rs\<close>, \<^verbatim>\<open>nar.rs\<close>), falls back to
  HTTP binary caches (\<^verbatim>\<open>http_cache.rs\<close>) and is a binary cache itself (\<^verbatim>\<open>substituter.rs\<close>). A builder
  pulls jobs from requesters it hears of, fetches their inputs, builds, indexes, signs and reports
  (\<^verbatim>\<open>builder.rs\<close>); the requester then fetches the outputs (\<^verbatim>\<open>main.rs\<close>). Builds come from \<open>build-push\<close>,
  which plans a derivation's closure, or from nix-daemon through the build hook (\<^verbatim>\<open>build_hook.rs\<close>)
  and the control socket (\<^verbatim>\<open>control.rs\<close>).

  \<^bold>\<open>The theories.\<close>

  \<^item> \<open>Rust_Prelude\<close>, \<open>Rust_Strings\<close>, \<open>Byte_IO\<close>: what the code uses of Rust. A result is a sum whose
    left side is an error or a panic; strings are UTF-8 byte strings; hash maps are association
    lists in their iteration order; readers, sinks and streams may fail at any byte. The locales
    \<open>byte_codec\<close>, \<open>strict_codec\<close> and \<open>byte_sink\<close> are the contracts of encoders, decoders and sinks.
    \<open>Event_Runs\<close> has the locale \<open>event_system\<close> of runs by events, for the daemon, the gossip receiver and
    the network.
  \<^item> \<open>Errors\<close> (\<^verbatim>\<open>error.rs\<close>); \<open>Nix_Protocol\<close> (\<^verbatim>\<open>nix_protocol.rs\<close>), whose readers and writers are
    interpretations of \<open>strict_codec\<close>.
  \<^item> \<open>Build_Queue\<close> (the queue of \<^verbatim>\<open>build.rs\<close>, its mutexes as fields of one record), \<open>Queue_Machine\<close> (its
    abstract job-status machine, the simulation, the locale \<open>lease_table\<close> and the theorems on leases,
    expiry and fetching), \<open>Queue_Locks\<close> (the order in which the methods take the queue's mutexes; the
    locale \<open>lock_order\<close> says what keeps threads from waiting for each other), \<open>Queue_Concurrent\<close> (methods
    and handlers cut into critical sections, in any interleaving), \<open>Build_Result\<close> (signatures), \<open>Build_Exec\<close> (running \<open>nix-store\<close>).
  \<^item> \<open>Protocol\<close> (messages and frames of \<^verbatim>\<open>protocol.rs\<close>), \<open>Builder_Requests\<close> (the requester's side of
    \<^verbatim>\<open>builder.rs\<close>, an instance of \<open>lease_table\<close>), \<open>Builder_Worker\<close> (the builder's side, over any link; the
    requester's handler as a link is the one its end-to-end theorem uses), \<open>Worker_Wire\<close> (the locale
    \<open>link_simulation\<close> of two links that match each other, which leads from the handler as a link to the
    builder's framing, the streams and the requester's loop), \<open>Build_Loop\<close> (the build task, its readers
    and the loop beside it as an inductive step relation over their channels).
  \<^item> \<open>Control\<close> (\<^verbatim>\<open>control.rs\<close>, daemon and client), \<open>Build_Hook\<close> (\<^verbatim>\<open>build_hook.rs\<close> over any client; the
    locale \<open>endless_daemon\<close> states what makes it run for ever, the daemon's handler is its instance).
  \<^item> \<open>Hash_Index\<close> (the table with its uniqueness constraints; the locale \<open>entry_store\<close> is what the
    cleanup relies on), \<open>Gc\<close> (\<^verbatim>\<open>gc.rs\<close>), \<open>Nix_Base32\<close> (encoder and both decoders, bit by bit).
  \<^item> \<open>Nar\<close> (the archive writer over any writer, locales \<open>writer\<close> and \<open>total_sink\<close>, and the reference
    encoding of file trees), \<open>Nar_Transfer\<close> (server and client over breaking streams), \<open>Retry\<close>.
  \<^item> \<open>Gossip\<close> (caches, receiver, announcements and the knowledge they implement), \<open>Nix_Info\<close>,
    \<open>Http_Cache\<close> (narinfo, verification, export and import), \<open>Substituter\<close> (one HTTP connection).
  \<^item> \<open>Node\<close> (\<^verbatim>\<open>node.rs\<close>), \<open>Build_Plan\<close> (plan and topological sort of \<^verbatim>\<open>main.rs\<close>), \<open>Commands\<close>
    (configuration, daemon, index, provider and queue commands), \<open>Build_Push\<close> (the command of that
    name), \<open>Terminal\<close> (\<^verbatim>\<open>cli.rs\<close>), \<open>Reports\<close> (what commands print), \<open>Main_Command\<close> (subcommands and \<open>main\<close>).
  \<^item> \<open>Daemon\<close> (the tasks of a running daemon: accept loops of \<^verbatim>\<open>substituter.rs\<close>, \<^verbatim>\<open>node.rs\<close> and \<^verbatim>\<open>control.rs\<close>,
    the cleanup loop, the handlers they start, the cancellation), \<open>Daemon_Machine\<close> (the locale
    \<open>machine_system\<close> of systems whose runs are runs of the job-status machine; the daemon is its
    instance), \<open>Discovery\<close> (announcements that lead a builder to a requester and a client to a provider),
    \<open>Network\<close> (many nodes and the topic between them). This theory composes \<open>build-push\<close> with a
    builder's visit.

  \<^bold>\<open>Correspondence.\<close> A definition has the name of the Rust item it models, with a suffix or prefix
  where two modules use one name. A method on \<open>&self\<close> takes the record last and returns it updated.
  What the code cannot see inside of is an argument or a field of an environment record: the hash
  functions, Ed25519, postcard, serde\_json, hex and base64, reqwest and the decompressors, SQLite's
  failures (the field of SQL errors), processes, the file system, the network and the clock. Each
  theorem states as a hypothesis what it needs of them, such as that a decoder inverts an encoder
  on one message, and a witness instantiates them.

  \<^bold>\<open>Concurrency.\<close> In the theories of the components an operation that holds its locks to the end is one
  step. Where the code releases a lock and takes it again, the definition has an argument for what
  other tasks do in between: the cleanup between its deletions, a poll between its five reads,
  \<open>build-push\<close> before each turn of its loop and during its fetching. The choices of \<open>select!\<close> are lists
  or functions of turns. Five theories look at tasks side by side: \<open>Build_Loop\<close> at the tasks of one
  build, \<open>Queue_Locks\<close> at single lock operations of threads, \<open>Queue_Concurrent\<close> at critical sections of calls in flight, \<open>Daemon\<close> at the
  events of all tasks on one node, \<open>Network\<close> at the events of all nodes, with a topic that delivers what
  was sent to it at any time, repeatedly or never. In \<open>Daemon\<close> a request is one event; that the sections of one request
  may be interleaved with those of another is the subject of \<open>Queue_Concurrent\<close>.

  \<^bold>\<open>What the lemmas show.\<close> Of each component: an invariant its operations keep (queue, index, caches);
  the exact effect of each operation, errors included; an abstract specification it refines (job
  status machine, gossip knowledge, file-tree encoding); round trips of its formats; and, across
  components, that what a node indexes another fetches or substitutes, that a builder drains a
  queue, also over framed messages, that a pushed plan ends with every output imported, and that nodes
  know of each other only what was announced. Some theorems show what the code
  does and probably should not: a build hook never learns the end of its build, failed builds are
  not noticed by \<open>build-push\<close>, the signed text is ambiguous, a cleanup can delete a live entry, the lease
  of a builder that is gone never ends, \<open>fetch\<close> by gossip finds a provider only when one announces itself
  in time, daemons alone never announce a path, the last
  lines of a log are lost, and \<open>check_timeouts\<close>, were it called, could deadlock with \<open>pull\<close>.

  \<^bold>\<open>Loops.\<close> Recursion over lists and measures, except where the code may run for ever: the hook's
  polling and rounds, the worker's loop and the monitor of \<open>build-push\<close> are partial functions into
  \<open>option\<close>, whose value None is not returning; theorems state when they return and when they do not.
  The only fuel is that of \<open>write_all\<close>, which bounds the calls of a writer: every call that is not
  interrupted takes a byte or ends the loop, so as many calls as there are bytes and interruptions
  are enough, and that is what its callers give it. Machine integers are
  words; counters wrap as in a release build. Durations are natural numbers of nanoseconds in the
  queue and the worker and reals in the retry delays, where the code uses floating point.

  \<^bold>\<open>Not modelled.\<close> Logging; signals, except as the cancellation they cause; spinners and progress bars
  and the progress lines of \<open>build-push\<close>; the argument parser; the internals of third-party libraries;
  the Nix expressions and tests of the repository. The messages and topics of \<^verbatim>\<open>protocol.rs\<close> that nothing
  uses are modelled as data only.
\<close>

section \<open>A distributed build\<close>

text \<open>What is left of a requester's queue after a builder's connection to it.\<close>

definition after_visit :: "'k worker_env \<Rightarrow> (nat \<Rightarrow> nat) \<Rightarrow> endpoint_id \<Rightarrow> nat \<Rightarrow> queue_link worker \<Rightarrow> build_queue \<Rightarrow> build_queue" where
  "after_visit env clock me now w q =
     (case connect_and_work env (queue_send clock (we_public env (we_secret_key env))) queue_recv me now
             (w\<lparr>wk_link := (0, q, [])\<rparr>) of
        Some (_, w') \<Rightarrow> fst (snd (wk_link w'))
      | None \<Rightarrow> q)"

lemma no_leases: "held_leases q = (\<lambda>_. None) \<Longrightarrow> bq_leased q = []"
proof (cases "bq_leased q")
  case (Cons e m)
  moreover assume "held_leases q = (\<lambda>_. None)"
  then have "held_leases q (fst e) = None" by simp
  ultimately show ?thesis by (simp add: held_leases_def hm_get_def)
qed simp

lemma after_visit_drained:
  assumes "store_ok env" "deps_ok env me" "\<And>k. \<not> we_cancelled env k" "\<And>t k. \<exists>n. we_clock env (k + n) > t"
    and "\<And>n. we_connect env me n = None" "we_open_bi env me = None"
    and "\<forall>j \<in> set (bq_pending q). matches (bc_system_features (we_config env)) j \<and> job_outputs env me j = Some (outs j)"
    and "bq_leased q = []"
  shows "bq_pending (after_visit env clock me now w q) = [] \<and> bq_leased (after_visit env clock me now w q) = [] \<and>
    bq_pending_fetch (after_visit env clock me now w q) =
      bq_pending_fetch q @ map (\<lambda>j. signed_result env j (outs j)) (bq_pending q)"
proof -
  have all: "filter (matches (bc_system_features (we_config env))) (bq_pending q) = bq_pending q"
    "filter (\<lambda>j. \<not> matches (bc_system_features (we_config env)) j) (bq_pending q) = []"
    using assms(7) by (simp_all add: filter_id_conv filter_empty_conv)
  have "leases_without (bq_pending q) (held_leases q) = (\<lambda>_. None)"
    using assms(8) by (simp add: leases_without_def held_leases_def fun_eq_iff)
  moreover obtain w' i' q' where "connect_and_work env (queue_send clock (we_public env (we_secret_key env))) queue_recv me now
      (w\<lparr>wk_link := (0, q, [])\<rparr>) = Some (Inr (), w')" "wk_link w' = (i', q', [])" "bq_pending q' = []"
    "held_leases q' = leases_without (bq_pending q) (held_leases q)"
    "bq_pending_fetch q' = bq_pending_fetch q @ map (\<lambda>j. signed_result env j (outs j)) (bq_pending q)"
    using connect_drains [OF assms(1-6), of q outs "w\<lparr>wk_link := (0, q, [])\<rparr>" 0 clock now] assms(7) unfolding all by auto
  ultimately show ?thesis using no_leases [of q'] by (simp add: after_visit_def)
qed

lemma signed_result_fields [simp]:
  "br_outputs (signed_result env j outs) = outs"
  "br_builder (signed_result env j outs) = we_public env (we_secret_key env)"
  by (simp_all add: signed_result_def sign_build_result_def Let_def)


text \<open>A plan of one derivation, the stocked builder, and a requester that builder visits before turn 0.\<close>

definition sample_visit :: "nat \<Rightarrow> build_queue \<Rightarrow> build_queue" where
  "sample_visit k = (if k = 0 then after_visit stocked_env (\<lambda>k. k) [1] 0 \<lparr>wk_link = (0, new_queue [1], []), wk_index = [], wk_imports = []\<rparr>
     else (\<lambda>q. q))"

definition sample_push :: "unit push_env" where
  "sample_push = \<lparr>ps_turn = \<lambda>_. FetchTurn, ps_before = \<lambda>k nd. nd\<lparr>nd_queue := map_option (sample_visit k) (nd_queue nd)\<rparr>,
     ps_during = \<lambda>_ nd. nd, ps_valid_id = \<lambda>b. length b = 32,
     ps_dial = \<lambda>_ _. serve_remote sample_env (snd (index_insert None sample_held [])) (\<lambda>n. n div 2),
     ps_restore = \<lambda>_ _. Inr (Inr (True, []))\<rparr>"

definition sample_build_plan :: build_plan where
  "sample_build_plan = \<lparr>bp_to_build = [hd sample_plan], bp_existing_paths = []\<rparr>"


end
